(* ===== verification/Sugi_Prelude.thy ===== *)
theory Sugi_Prelude
  imports Main "HOL-Library.Word" "HOL-Library.Signed_Division" "HOL-Library.Monad_Syntax"
    "HOL-Library.Code_Target_Nat"
begin

text \<open>
  Shared vocabulary of the development: the Go types the components use, slices and
  indexing with their run-time panics, and list lemmas.

  A Go operation that can panic returns an \<open>option\<close>, \<open>None\<close> being the panic; a Go
  function that returns an \<open>error\<close> returns a sum, \<open>Inl\<close> being the error.  Go's \<open>int\<close>
  is the type \<open>int\<close> (every length and index of the program is bounded by memory, far
  below \<open>2 ^ 63\<close>); \<open>uint64\<close> is \<open>64 word\<close> and wraps.
\<close>

section \<open>Types and collections of facts\<close>

type_synonym u64 = "64 word"

named_theorems go_defs \<open>definitions of Go's slice primitives\<close>

section \<open>Integer remainder\<close>

text \<open>Go's \<open>%\<close> truncates towards zero and panics on a zero divisor.\<close>

definition go_mod :: "int \<Rightarrow> int \<Rightarrow> int option" where
  "go_mod a b = (if b = 0 then None else Some (a smod b))"

lemma go_mod_nonneg: "0 \<le> a \<Longrightarrow> 0 < b \<Longrightarrow> go_mod a b = Some (a mod b)"
  by (simp add: go_mod_def signed_modulo_int_def signed_divide_int_def sgn_if
      minus_div_mult_eq_mod)

section \<open>Slices\<close>

text \<open>
  A slice is the list of its elements.  Reading, writing and slicing check their
  bounds and panic (\<open>None\<close>) outside them.
\<close>

definition go_get :: "'a list \<Rightarrow> int \<Rightarrow> 'a option" where
  "go_get xs i = (if 0 \<le> i \<and> i < int (length xs) then Some (xs ! nat i) else None)"

definition go_set :: "'a list \<Rightarrow> int \<Rightarrow> 'a \<Rightarrow> 'a list option" where
  "go_set xs i x = (if 0 \<le> i \<and> i < int (length xs) then Some (xs[nat i := x]) else None)"

definition go_slice :: "'a list \<Rightarrow> int \<Rightarrow> int \<Rightarrow> 'a list option" where
  "go_slice xs lo hi =
     (if 0 \<le> lo \<and> lo \<le> hi \<and> hi \<le> int (length xs)
      then Some (take (nat hi - nat lo) (drop (nat lo) xs)) else None)"

text \<open>
  \<open>copy(dst[lo:hi], src)\<close>: at most \<open>hi - lo\<close> elements of \<open>src\<close> are written into
  \<open>dst\<close> from index \<open>lo\<close> on; the updated \<open>dst\<close> is returned.
\<close>

definition go_copy :: "'a list \<Rightarrow> int \<Rightarrow> int \<Rightarrow> 'a list \<Rightarrow> 'a list option" where
  "go_copy dst lo hi src =
     (if 0 \<le> lo \<and> lo \<le> hi \<and> hi \<le> int (length dst)
      then (let n = min (nat hi - nat lo) (length src)
            in Some (take (nat lo) dst @ take n src @ drop (nat lo + n) dst))
      else None)"

declare go_get_def [go_defs] go_set_def [go_defs] go_slice_def [go_defs] go_copy_def [go_defs]

lemma go_slice_nat:
  "lo \<le> hi \<Longrightarrow> hi \<le> length xs \<Longrightarrow> go_slice xs (int lo) (int hi) = Some (take (hi - lo) (drop lo xs))"
  by (simp add: go_slice_def)

text \<open>Filling a fresh slice by one copy, and by two copies one after the other.\<close>

lemma go_copy_full: "length a = m \<Longrightarrow> go_copy (replicate m z) 0 (int m) a = Some a"
  by (simp add: go_copy_def)

lemma go_copy_fst:
  "length a + k = m \<Longrightarrow>
    go_copy (replicate m z) 0 (int (length a)) a = Some (a @ replicate k z)"
  by (auto simp: go_copy_def)

lemma go_copy_snd:
  "length b = k \<Longrightarrow>
    go_copy (a @ replicate k z) (int (length a)) (int (length a + k)) b = Some (a @ b)"
  by (auto simp: go_copy_def)

section \<open>The last elements of a list\<close>

definition last_n :: "nat \<Rightarrow> 'a list \<Rightarrow> 'a list" where
  "last_n n xs = drop (length xs - n) xs"

lemma length_last_n [simp]: "length (last_n n xs) = min n (length xs)"
  by (simp add: last_n_def)

lemma last_n_all [simp]: "length xs \<le> n \<Longrightarrow> last_n n xs = xs"
  by (simp add: last_n_def)

lemma last_n_0 [simp]: "last_n 0 xs = []"
  by (simp add: last_n_def)

lemma last_n_Nil [simp]: "last_n n [] = []"
  by (simp add: last_n_def)

lemma last_n_last_n [simp]: "last_n m (last_n n xs) = last_n (min m n) xs"
  by (cases "n \<le> length xs") (auto simp: last_n_def min_def)

lemma last_n_snoc_last_n: "last_n n (last_n n xs @ ys) = last_n n (xs @ ys)"
proof (cases "length xs \<le> n")
  case False
  then show ?thesis by (simp add: last_n_def add.commute)
qed simp

lemma last_n_append: "n \<le> length ys \<Longrightarrow> last_n n (xs @ ys) = last_n n ys"
  by (simp add: last_n_def)

lemma last_last_n: "0 < n \<Longrightarrow> xs \<noteq> [] \<Longrightarrow> last (last_n n xs) = last xs"
  by (simp add: last_n_def last_drop)

lemma last_n_eq_Nil [simp]: "last_n n xs = [] \<longleftrightarrow> n = 0 \<or> xs = []"
  by (cases xs) (auto simp: last_n_def)

end
