(* ===== verification/Ring_Buffer.thy ===== *)
theory Ring_Buffer
  imports Sugi_Prelude
begin

text \<open>
  The in-memory time series of \<open>internal/storage/ringbuffer.go\<close>: a circular buffer
  of snapshots.  \<open>'a\<close> is the element type (\<open>model.SystemSnapshot\<close> in the server).
  Every method runs under the buffer's mutex, so it is one atomic function on the
  state.  Indexing, slicing and the remainder can panic (\<open>None\<close>).

  The specification is \<open>bounded_history\<close>: the buffer holds the last \<open>capacity\<close>
  snapshots pushed since it was created or cleared.
\<close>

section \<open>State and operations\<close>

definition DefaultRingBufferCapacity :: int where
  "DefaultRingBufferCapacity = 3600"

record 'a ring_buffer =
  rb_data :: "'a list"
  rb_capacity :: int
  rb_head :: int
  rb_size :: int

text \<open>\<open>zero\<close> is the zero value of the element type, which \<open>make\<close> fills the array with.\<close>

definition NewRingBuffer :: "'a \<Rightarrow> int \<Rightarrow> 'a ring_buffer" where
  "NewRingBuffer zero capacity =
     (let capacity = (if capacity \<le> 0 then DefaultRingBufferCapacity else capacity)
      in \<lparr>rb_data = replicate (nat capacity) zero, rb_capacity = capacity,
          rb_head = 0, rb_size = 0\<rparr>)"

definition Push :: "'a ring_buffer \<Rightarrow> 'a \<Rightarrow> 'a ring_buffer option" where
  "Push r snapshot = do {
     d \<leftarrow> go_set (rb_data r) (rb_head r) snapshot;
     h \<leftarrow> go_mod (rb_head r + 1) (rb_capacity r);
     let r1 = r\<lparr>rb_data := d, rb_head := h\<rparr>;
     Some (if rb_size r1 < rb_capacity r1 then r1\<lparr>rb_size := rb_size r1 + 1\<rparr> else r1)
   }"

text \<open>The outer \<open>option\<close> is the panic, the inner one the \<open>(snapshot, ok)\<close> result.\<close>

definition GetLatest :: "'a ring_buffer \<Rightarrow> 'a option option" where
  "GetLatest r =
     (if rb_size r = 0 then Some None
      else do {
        idx \<leftarrow> go_mod (rb_head r - 1 + rb_capacity r) (rb_capacity r);
        x \<leftarrow> go_get (rb_data r) idx;
        Some (Some x)
      })"

definition GetAll :: "'a \<Rightarrow> 'a ring_buffer \<Rightarrow> 'a list option" where
  "GetAll zero r =
     (if rb_size r = 0 then Some []
      else let result = replicate (nat (rb_size r)) zero in
        if rb_size r < rb_capacity r then do {
          src \<leftarrow> go_slice (rb_data r) 0 (rb_size r);
          go_copy result 0 (int (length result)) src
        } else do {
          let firstChunk = rb_capacity r - rb_head r;
          src1 \<leftarrow> go_slice (rb_data r) (rb_head r) (int (length (rb_data r)));
          result1 \<leftarrow> go_copy result 0 firstChunk src1;
          src2 \<leftarrow> go_slice (rb_data r) 0 (rb_head r);
          go_copy result1 firstChunk (int (length result1)) src2
        })"

definition GetLastN :: "'a \<Rightarrow> 'a ring_buffer \<Rightarrow> int \<Rightarrow> 'a list option" where
  "GetLastN zero r n =
     (if rb_size r = 0 \<or> n \<le> 0 then Some []
      else let n = (if n > rb_size r then rb_size r else n);
               result = replicate (nat n) zero in do {
        startIdx \<leftarrow> go_mod (rb_head r - n + rb_capacity r) (rb_capacity r);
        if startIdx + n \<le> rb_capacity r then do {
          src \<leftarrow> go_slice (rb_data r) startIdx (startIdx + n);
          go_copy result 0 (int (length result)) src
        } else do {
          let firstChunk = rb_capacity r - startIdx;
          src1 \<leftarrow> go_slice (rb_data r) startIdx (int (length (rb_data r)));
          result1 \<leftarrow> go_copy result 0 firstChunk src1;
          src2 \<leftarrow> go_slice (rb_data r) 0 (n - firstChunk);
          go_copy result1 firstChunk (int (length result1)) src2
        }
      })"

definition rb_Size :: "'a ring_buffer \<Rightarrow> int" where
  "rb_Size r = rb_size r"

definition rb_Capacity :: "'a ring_buffer \<Rightarrow> int" where
  "rb_Capacity r = rb_capacity r"

definition rb_Clear :: "'a ring_buffer \<Rightarrow> 'a ring_buffer" where
  "rb_Clear r = r\<lparr>rb_head := 0, rb_size := 0\<rparr>"

section \<open>The contract: a bounded history\<close>

text \<open>
  What the HTTP handlers and the sampling loop rely on.  \<open>contents\<close> is the stored
  sequence, oldest first, and \<open>bound\<close> its maximal length.
\<close>

locale bounded_history =
  fixes push :: "'s \<Rightarrow> 'a \<Rightarrow> 's option"
    and clear :: "'s \<Rightarrow> 's"
    and latest :: "'s \<Rightarrow> 'a option option"
    and all :: "'s \<Rightarrow> 'a list option"
    and recent :: "'s \<Rightarrow> int \<Rightarrow> 'a list option"
    and invar :: "'s \<Rightarrow> bool"
    and contents :: "'s \<Rightarrow> 'a list"
    and bound :: "'s \<Rightarrow> nat"
  assumes push: "invar s \<Longrightarrow> \<exists>s'. push s x = Some s' \<and> invar s' \<and> bound s' = bound s \<and>
      contents s' = last_n (bound s) (contents s @ [x])"
    and clear: "invar s \<Longrightarrow> invar (clear s)" "bound (clear s) = bound s" "contents (clear s) = []"
    and latest: "invar s \<Longrightarrow>
      latest s = Some (if contents s = [] then None else Some (last (contents s)))"
    and all: "invar s \<Longrightarrow> all s = Some (contents s)"
    and recent: "invar s \<Longrightarrow> recent s n = Some (last_n (nat n) (contents s))"
    and bound_pos: "invar s \<Longrightarrow> 0 < bound s"

datatype 'a rb_op = OpPush 'a | OpClear

fun rb_run :: "('s \<Rightarrow> 'a \<Rightarrow> 's option) \<Rightarrow> ('s \<Rightarrow> 's) \<Rightarrow> 's \<Rightarrow> 'a rb_op list \<Rightarrow> 's option" where
  "rb_run push clear s [] = Some s"
| "rb_run push clear s (OpPush x # ops) = do { s' \<leftarrow> push s x; rb_run push clear s' ops }"
| "rb_run push clear s (OpClear # ops) = rb_run push clear (clear s) ops"

text \<open>The snapshots pushed since the last \<open>Clear\<close>, after \<open>xs\<close>.\<close>

fun live :: "'a list \<Rightarrow> 'a rb_op list \<Rightarrow> 'a list" where
  "live xs [] = xs"
| "live xs (OpPush x # ops) = live (xs @ [x]) ops"
| "live xs (OpClear # ops) = live [] ops"

context bounded_history begin

lemma run_contents:
  assumes "invar s" and "contents s = last_n (bound s) h"
  shows "\<exists>s'. rb_run push clear s ops = Some s' \<and> invar s' \<and> bound s' = bound s \<and>
    contents s' = last_n (bound s) (live h ops)"
  using assms
proof (induction ops arbitrary: s h)
  case Nil
  then show ?case by simp
next
  case (Cons oper ops)
  show ?case
  proof (cases oper)
    case (OpPush x)
    from push [OF Cons.prems(1), of x] obtain s' where s': "push s x = Some s'" "invar s'"
      "bound s' = bound s" "contents s' = last_n (bound s) (contents s @ [x])" by blast
    then have "contents s' = last_n (bound s') (h @ [x])"
      using Cons.prems(2) by (simp add: last_n_snoc_last_n)
    from Cons.IH [OF s'(2) this] show ?thesis using s' OpPush by simp
  next
    case OpClear
    with Cons.IH [OF clear(1) [OF Cons.prems(1)], of "[]"] show ?thesis
      by (simp add: clear)
  qed
qed

lemma latest_is_last_of_all:
  "invar s \<Longrightarrow> all s = Some xs \<Longrightarrow> latest s = Some (if xs = [] then None else Some (last xs))"
  by (simp add: all latest)

lemma recent_is_suffix_of_all:
  "invar s \<Longrightarrow> all s = Some xs \<Longrightarrow> recent s n = Some (last_n (nat n) xs)"
  by (simp add: all recent)

end

section \<open>The circular buffer meets the contract\<close>

definition rb_inv :: "'a ring_buffer \<Rightarrow> bool" where
  "rb_inv r \<longleftrightarrow> 0 < rb_capacity r \<and> length (rb_data r) = nat (rb_capacity r) \<and>
     0 \<le> rb_head r \<and> rb_head r < rb_capacity r \<and> 0 \<le> rb_size r \<and> rb_size r \<le> rb_capacity r \<and>
     (rb_size r < rb_capacity r \<longrightarrow> rb_head r = rb_size r)"

text \<open>Rotated so that the next write position comes first, the newest elements are last.\<close>

definition rb_contents :: "'a ring_buffer \<Rightarrow> 'a list" where
  "rb_contents r = last_n (nat (rb_size r))
     (drop (nat (rb_head r)) (rb_data r) @ take (nat (rb_head r)) (rb_data r))"

lemma rb_inv_nat:
  assumes "rb_inv r"
  obtains c h n where "rb_capacity r = int c" "rb_head r = int h" "rb_size r = int n"
    "length (rb_data r) = c" "h < c" "n \<le> c" "n < c \<longrightarrow> h = n"
proof
  show "rb_capacity r = int (nat (rb_capacity r))" "rb_head r = int (nat (rb_head r))"
    "rb_size r = int (nat (rb_size r))" using assms by (auto simp: rb_inv_def)
qed (use assms in \<open>auto simp: rb_inv_def\<close>)

lemma rb_inv_New: "rb_inv (NewRingBuffer zero c)"
  by (simp add: NewRingBuffer_def rb_inv_def Let_def DefaultRingBufferCapacity_def)

lemma rb_contents_New: "rb_contents (NewRingBuffer zero c) = []"
  by (simp add: NewRingBuffer_def rb_contents_def Let_def)

lemma rotate_update:
  assumes "h < length xs"
  shows "drop (Suc h) (xs[h := x]) @ take (Suc h) (xs[h := x]) =
    tl (drop h xs @ take h xs) @ [x]"
proof -
  have "take (Suc h) (xs[h := x]) = take h xs @ [x]"
    using assms by (simp add: take_Suc_conv_app_nth)
  moreover have "tl (drop h xs @ take h xs) = drop (Suc h) xs @ take h xs"
    using assms by (simp add: tl_append2 tl_drop drop_Suc)
  ultimately show ?thesis by (simp add: drop_update_cancel)
qed

lemma last_n_push:
  assumes "length xs = c" "0 < c" "n \<le> c"
  shows "last_n (min (Suc n) c) (tl xs @ [x]) = last_n c (last_n n xs @ [x])"
proof (cases "n < c")
  case True
  with assms have "drop (c - Suc n) (tl xs) = drop (c - n) xs"
    by (simp add: Suc_diff_Suc flip: drop_Suc)
  with True assms show ?thesis by (simp add: last_n_def min_def)
next
  case False
  with assms show ?thesis by (simp add: last_n_def min_def drop_Suc)
qed

lemma Push_refines:
  assumes inv: "rb_inv r"
  shows "\<exists>r'. Push r x = Some r' \<and> rb_inv r' \<and> rb_capacity r' = rb_capacity r \<and>
    rb_contents r' = last_n (nat (rb_capacity r)) (rb_contents r @ [x])"
proof -
  from inv obtain c h n where r: "rb_capacity r = int c" "rb_head r = int h"
    "rb_size r = int n" "length (rb_data r) = c" and b: "h < c" "n \<le> c" "n < c \<longrightarrow> h = n"
    by (rule rb_inv_nat)
  define h' where "h' = Suc h mod c"
  define d' where "d' = (rb_data r)[h := x]"
  define r' where "r' = r\<lparr>rb_data := d', rb_head := int h', rb_size := int (min (Suc n) c)\<rparr>"
  have h'_int: "(int h + 1) mod int c = int h'"
    by (simp add: h'_def of_nat_mod add.commute)
  have push: "Push r x = Some r'"
    using r b by (auto simp: Push_def go_set_def go_mod_nonneg h'_int d'_def r'_def)
  have "Suc h = c \<or> Suc h < c" using b by auto
  then have rot: "drop h' d' @ take h' d' = tl (drop h (rb_data r) @ take h (rb_data r)) @ [x]"
    using rotate_update [of h "rb_data r" x] r b by (auto simp: h'_def d'_def)
  have "rb_inv r'" using r b by (auto simp: rb_inv_def r'_def d'_def h'_def)
  moreover have "rb_contents r' = last_n c (rb_contents r @ [x])"
    using last_n_push [of "drop h (rb_data r) @ take h (rb_data r)" c n x] r b rot
    by (simp add: rb_contents_def r'_def)
  ultimately show ?thesis using push r by (simp add: r'_def)
qed

lemma Clear_refines:
  "rb_inv r \<Longrightarrow> rb_inv (rb_Clear r)" "rb_contents (rb_Clear r) = []"
  by (auto simp: rb_inv_def rb_Clear_def rb_contents_def)

lemma go_mod_back:
  assumes "m \<le> c" "h < c"
  shows "go_mod (int h - int m + int c) (int c) = Some (int (if m \<le> h then h - m else h + c - m))"
proof -
  have "(int h - int m + int c) mod int c = (int h - int m) mod int c" by simp
  also have "\<dots> = int (if m \<le> h then h - m else h + c - m)"
  proof (cases "m \<le> h")
    case True
    then show ?thesis using assms by simp
  next
    case False
    then have "(int h - int m) mod int c = (int h - int m + int c) mod int c" by simp
    with False assms show ?thesis by (simp del: mod_add_self2)
  qed
  finally show ?thesis using assms by (simp add: go_mod_nonneg)
qed

lemma GetLatest_refines:
  assumes inv: "rb_inv r"
  shows "GetLatest r =
    Some (if rb_contents r = [] then None else Some (last (rb_contents r)))"
proof -
  from inv obtain c h n where r: "rb_capacity r = int c" "rb_head r = int h"
    "rb_size r = int n" "length (rb_data r) = c" and b: "h < c" "n \<le> c" "n < c \<longrightarrow> h = n"
    by (rule rb_inv_nat)
  have idx: "go_mod (int h - 1 + int c) (int c) = Some (int (if 1 \<le> h then h - 1 else h + c - 1))"
    using go_mod_back [of 1 c h] b by simp
  have "last (drop h (rb_data r) @ take h (rb_data r)) =
      rb_data r ! (if 1 \<le> h then h - 1 else h + c - 1)"
  proof (cases "1 \<le> h")
    case True
    then have ne: "take h (rb_data r) \<noteq> []" using r b by auto
    then have "last (take h (rb_data r)) = rb_data r ! (h - 1)"
      using True r b by (subst last_conv_nth) auto
    with ne True show ?thesis by simp
  next
    case False
    then have "rb_data r \<noteq> []" "h = 0" using r b by auto
    then show ?thesis using r by (simp add: last_conv_nth)
  qed
  moreover have ne: "drop h (rb_data r) @ take h (rb_data r) \<noteq> []" using r b by auto
  moreover have contents: "rb_contents r = last_n n (drop h (rb_data r) @ take h (rb_data r))"
    by (simp add: rb_contents_def r)
  ultimately have "rb_contents r \<noteq> [] \<and>
      last (rb_contents r) = rb_data r ! (if 1 \<le> h then h - 1 else h + c - 1)" if "0 < n"
    using last_last_n [OF that ne] that ne contents by (metis last_n_eq_Nil less_irrefl)
  moreover have "GetLatest r = (if n = 0 then Some None
      else Some (Some (rb_data r ! (if 1 \<le> h then h - 1 else h + c - 1))))"
    using idx r b by (auto simp: GetLatest_def go_get_def)
  ultimately show ?thesis by (cases "n = 0") (simp_all add: rb_contents_def r)
qed

text \<open>The stored sequence by its two chunks, as \<open>GetAll\<close> and \<open>GetLastN\<close> copy it.\<close>

lemma last_n_rotation:
  assumes "length xs = c" "h < c" "m \<le> c"
  shows "last_n m (drop h xs @ take h xs) =
    (if m \<le> h then take m (drop (h - m) xs)
     else drop (h + c - m) xs @ take h xs)"
proof (cases "m \<le> h")
  case True
  then show ?thesis using assms by (simp add: last_n_def drop_take)
next
  case False
  then show ?thesis using assms by (simp add: last_n_def add.commute)
qed

lemma rb_contents_unwrapped:
  "rb_inv r \<Longrightarrow> rb_size r < rb_capacity r \<Longrightarrow>
    rb_contents r = take (nat (rb_size r)) (rb_data r)"
  by (auto simp: rb_inv_def rb_contents_def last_n_def)

lemma rb_contents_wrapped:
  "rb_inv r \<Longrightarrow> \<not> rb_size r < rb_capacity r \<Longrightarrow>
    rb_contents r = drop (nat (rb_head r)) (rb_data r) @ take (nat (rb_head r)) (rb_data r)"
  by (auto simp: rb_inv_def rb_contents_def)

lemma copy_two_chunks:
  assumes "length a = k" "k + length b = m"
  shows "do { result1 \<leftarrow> go_copy (replicate m zero) 0 (int k) a;
              go_copy result1 (int k) (int (length result1)) b } = Some (a @ b)"
  using assms go_copy_fst [of a "length b" m zero] go_copy_snd [of b "length b" a zero]
  by simp

lemma GetAll_refines:
  assumes inv: "rb_inv r"
  shows "GetAll zero r = Some (rb_contents r)"
proof -
  from inv obtain c h n where r: "rb_capacity r = int c" "rb_head r = int h"
    "rb_size r = int n" "length (rb_data r) = c" and b: "h < c" "n \<le> c" "n < c \<longrightarrow> h = n"
    by (rule rb_inv_nat)
  show ?thesis
  proof (cases "n < c")
    case True
    then show ?thesis using rb_contents_unwrapped [OF inv] r b go_slice_nat [of 0 n "rb_data r"]
      by (simp add: GetAll_def go_copy_full)
  next
    case False
    then have n: "n = c" and pos: "0 < c" using b by auto
    have s: "go_slice (rb_data r) (int h) (int c) = Some (drop h (rb_data r))"
      "go_slice (rb_data r) 0 (int h) = Some (take h (rb_data r))"
      using go_slice_nat [of h c "rb_data r"] go_slice_nat [of 0 h "rb_data r"] r b by simp_all
    have "int c - int h = int (c - h)" using b by simp
    then show ?thesis
      using copy_two_chunks [of "drop h (rb_data r)" "c - h" "take h (rb_data r)" c zero]
        rb_contents_wrapped [OF inv] r b n pos s
      by (simp add: GetAll_def Let_def del: of_nat_diff)
  qed
qed

lemma GetLastN_clip:
  "0 < rb_size r \<Longrightarrow> rb_size r < k \<Longrightarrow> GetLastN zero r k = GetLastN zero r (rb_size r)"
  by (simp add: GetLastN_def)

lemma GetLastN_refines_inner:
  assumes inv: "rb_inv r" and m: "0 < m" "int m \<le> rb_size r"
  shows "GetLastN zero r (int m) = Some (last_n m (rb_contents r))"
proof -
  from inv obtain c h n where r: "rb_capacity r = int c" "rb_head r = int h"
    "rb_size r = int n" "length (rb_data r) = c" and b: "h < c" "n \<le> c" "n < c \<longrightarrow> h = n"
    by (rule rb_inv_nat)
  define s where "s = (if m \<le> h then h - m else h + c - m)"
  have idx: "go_mod (int h - int m + int c) (int c) = Some (int s)"
    unfolding s_def using m r b by (intro go_mod_back) auto
  have target: "last_n m (rb_contents r) =
      (if m \<le> h then take m (drop s (rb_data r)) else drop s (rb_data r) @ take h (rb_data r))"
    using last_n_rotation [of "rb_data r" c h m] m r b
    by (simp add: rb_contents_def s_def min_def)
  have guard: "\<not> (int n = 0 \<or> int m \<le> 0)" "\<not> int m > int n" using m r by auto
  show ?thesis
  proof (cases "s + m \<le> c")
    case True
    then have "m \<le> h \<or> h = 0 \<and> s + m = c" using m r b by (auto simp: s_def split: if_splits)
    moreover have "go_slice (rb_data r) (int s) (int s + int m) = Some (take m (drop s (rb_data r)))"
      using go_slice_nat [of s "s + m" "rb_data r"] True r by simp
    moreover have "length (take m (drop s (rb_data r))) = m" using True r by simp
    ultimately show ?thesis using True guard
      by (auto simp: GetLastN_def r idx target go_copy_full Let_def)
  next
    case False
    then have w: "\<not> m \<le> h" "s = h + c - m" "s \<le> c" "c - s = m - h"
      using m r b by (auto simp: s_def split: if_splits)
    have sl: "go_slice (rb_data r) (int s) (int c) = Some (drop s (rb_data r))"
      "go_slice (rb_data r) 0 (int (m - (c - s))) = Some (take h (rb_data r))"
      using go_slice_nat [of s c "rb_data r"] go_slice_nat [of 0 h "rb_data r"] r b w by simp_all
    have e: "int c - int s = int (c - s)" "int m - int (c - s) = int (m - (c - s))"
      using w by simp_all
    have len: "length (drop s (rb_data r)) = c - s" "c - s + length (take h (rb_data r)) = m"
      using r b w by simp_all
    note copy = copy_two_chunks [OF len]
    have "\<not> int s + int m \<le> int c" using False by simp
    then have "GetLastN zero r (int m) = Some (drop s (rb_data r) @ take h (rb_data r))"
      using guard copy [of zero] by (simp add: GetLastN_def idx Let_def e sl r(1-3) r(4) del: of_nat_diff)
    then show ?thesis using target w(1) by simp
  qed
qed

lemma GetLastN_refines:
  assumes inv: "rb_inv r"
  shows "GetLastN zero r k = Some (last_n (nat k) (rb_contents r))"
proof -
  have len: "length (rb_contents r) = nat (rb_size r)"
    using inv by (auto simp: rb_contents_def rb_inv_def)
  consider "rb_size r = 0 \<or> k \<le> 0" | "0 < rb_size r" "rb_size r < k"
    | "0 < k" "k \<le> rb_size r" using inv unfolding rb_inv_def by linarith
  then show ?thesis
  proof cases
    case 1
    then show ?thesis by (auto simp: GetLastN_def rb_contents_def)
  next
    case 2
    then show ?thesis using GetLastN_refines_inner [OF inv, of "nat (rb_size r)" zero] len
      by (simp add: GetLastN_clip)
  next
    case 3
    then show ?thesis using GetLastN_refines_inner [OF inv, of "nat k" zero] by simp
  qed
qed

interpretation rb: bounded_history Push rb_Clear GetLatest "GetAll zero" "GetLastN zero"
  rb_inv rb_contents "\<lambda>r. nat (rb_capacity r)" for zero :: 'a
proof unfold_locales
  fix s :: "'a ring_buffer" and x n
  assume inv: "rb_inv s"
  from Push_refines [OF inv, of x]
  show "\<exists>s'. Push s x = Some s' \<and> rb_inv s' \<and> nat (rb_capacity s') = nat (rb_capacity s) \<and>
      rb_contents s' = last_n (nat (rb_capacity s)) (rb_contents s @ [x])" by auto
  show "rb_inv (rb_Clear s)" by (rule Clear_refines(1) [OF inv])
  show "GetLatest s = Some (if rb_contents s = [] then None else Some (last (rb_contents s)))"
    by (rule GetLatest_refines [OF inv])
  show "GetAll zero s = Some (rb_contents s)" by (rule GetAll_refines [OF inv])
  show "GetLastN zero s n = Some (last_n (nat n) (rb_contents s))"
    by (rule GetLastN_refines [OF inv])
  show "0 < nat (rb_capacity s)" using inv by (simp add: rb_inv_def)
next
  fix s :: "'a ring_buffer"
  show "nat (rb_capacity (rb_Clear s)) = nat (rb_capacity s)" by (simp add: rb_Clear_def)
  show "rb_contents (rb_Clear s) = []" by (rule Clear_refines(2))
qed

section \<open>Properties\<close>

lemma length_rb_contents: "rb_inv r \<Longrightarrow> rb_Size r = int (length (rb_contents r))"
  by (auto simp: rb_inv_def rb_Size_def rb_contents_def)

lemma run_from_New:
  obtains r where "rb_run Push rb_Clear (NewRingBuffer zero c) ops = Some r" "rb_inv r"
    "rb_capacity r = (if c \<le> 0 then DefaultRingBufferCapacity else c)"
    "rb_contents r = last_n (nat (rb_capacity r)) (live [] ops)"
proof -
  let ?r0 = "NewRingBuffer zero c"
  have cap: "rb_capacity ?r0 = (if c \<le> 0 then DefaultRingBufferCapacity else c)"
    by (simp add: NewRingBuffer_def Let_def)
  from rb.run_contents [OF rb_inv_New, of zero c "[]" ops]
  obtain r where r: "rb_run Push rb_Clear ?r0 ops = Some r" "rb_inv r"
    "nat (rb_capacity r) = nat (rb_capacity ?r0)"
    "rb_contents r = last_n (nat (rb_capacity ?r0)) (live [] ops)"
    by (auto simp: rb_contents_New)
  have "0 < rb_capacity ?r0" using rb_inv_New [of zero c] by (simp add: rb_inv_def)
  with r(3) have "rb_capacity r = rb_capacity ?r0" by simp
  with r cap that show ?thesis by simp
qed

text \<open>C5. Whatever sequence of \<open>Push\<close> and \<open>Clear\<close> a new ring buffer goes through, no index or
  slice expression of \<open>Push\<close> or \<open>GetAll\<close> panics, and \<open>GetAll\<close> returns exactly the last
  \<open>capacity\<close> snapshots pushed since the last \<open>Clear\<close>, oldest first; \<open>Size\<close> is their number.
  A capacity that is not positive is replaced by 3600.\<close>

theorem ring_buffer_history:
  "\<exists>r. rb_run Push rb_Clear (NewRingBuffer zero c) ops = Some r \<and>
     rb_Capacity r = (if c \<le> 0 then 3600 else c) \<and>
     GetAll zero r = Some (last_n (nat (rb_Capacity r)) (live [] ops)) \<and>
     rb_Size r = int (min (nat (rb_Capacity r)) (length (live [] ops)))"
proof -
  obtain r where r: "rb_run Push rb_Clear (NewRingBuffer zero c) ops = Some r" "rb_inv r"
    "rb_capacity r = (if c \<le> 0 then DefaultRingBufferCapacity else c)"
    "rb_contents r = last_n (nat (rb_capacity r)) (live [] ops)"
    by (rule run_from_New)
  then show ?thesis
    using rb.all [OF r(2), of zero] length_rb_contents [OF r(2)]
    by (intro exI [of _ r]) (simp add: rb_Capacity_def DefaultRingBufferCapacity_def)
qed

text \<open>C22. \<open>GetLastN\<close> and \<open>GetLatest\<close> agree with \<open>GetAll\<close> in every state a ring buffer can
  reach: \<open>GetLastN(n)\<close> is its suffix of length \<open>n\<close> (all of it when \<open>n\<close> is larger, nothing when
  \<open>n\<close> is not positive), whether the suffix is contiguous or wraps around the end of the array,
  and \<open>GetLatest\<close> is its last element; neither panics.\<close>

theorem ring_buffer_reads_agree:
  "\<exists>r xs. rb_run Push rb_Clear (NewRingBuffer zero c) ops = Some r \<and>
     GetAll zero r = Some xs \<and>
     GetLastN zero r n = Some (last_n (nat n) xs) \<and>
     GetLatest r = Some (if xs = [] then None else Some (last xs))"
proof -
  obtain r where r: "rb_run Push rb_Clear (NewRingBuffer zero c) ops = Some r" "rb_inv r"
    by (rule run_from_New)
  then show ?thesis
    using rb.all [OF r(2)] rb.recent_is_suffix_of_all [OF r(2)] rb.latest_is_last_of_all [OF r(2)]
    by (intro exI [of _ r] exI [of _ "rb_contents r"]) simp
qed

end
