(* ===== verification/Go_Float.thy ===== *)
theory Go_Float
  imports Complex_Main Sugi_Prelude "HOL-Library.Log_Nat"
begin

text \<open>
  Go's \<open>float64\<close>.  A finite double is the rational number it denotes, and every
  arithmetic operation of the program is the exact operation followed by \<open>fl\<close>, the
  rounding of IEEE 754 to 53 significant bits, to nearest and ties to even.  The exponent is
  not bounded: all values the program computes are 0 or lie between \<open>10 ^ -11\<close> and
  \<open>10 ^ 35\<close>, far from the under- and overflow of a double.  No operation
  divides by zero, so no NaN or infinity arises, and the sign of a zero is not represented.

  \<open>fl\<close> is executable.  The locale \<open>rounding\<close> states what the proofs about percentages
  and rates use of it: it is monotone, exact on small integers and has a relative error of at
  most \<open>2 ^ -53\<close>.
\<close>

section \<open>Rounding to 53 bits\<close>

type_synonym f64 = rat

definition pow2 :: "int \<Rightarrow> rat" where
  "pow2 k = (if 0 \<le> k then 2 ^ nat k else 1 / 2 ^ nat (- k))"

text \<open>\<open>binexp x\<close> is the binary exponent of a positive \<open>x\<close>: \<open>2 ^ e \<le> x < 2 ^ (e + 1)\<close>.\<close>

definition binexp :: "rat \<Rightarrow> int" where
  "binexp x = (case quotient_of x of (p, q) \<Rightarrow>
     let k = bitlen p - bitlen q in if pow2 k \<le> x then k else k - 1)"

text \<open>Nearest integer, ties to even.\<close>

definition rne :: "rat \<Rightarrow> int" where
  "rne x = (let f = \<lfloor>x\<rfloor>; d = x - of_int f
     in if d < 1 / 2 then f else if d > 1 / 2 then f + 1 else if even f then f else f + 1)"

definition fl :: "rat \<Rightarrow> f64" where
  "fl x = (if x = 0 then 0
     else let u = pow2 (binexp \<bar>x\<bar> - 52) in of_int (rne (x / u)) * u)"

definition f64_of_u64 :: "u64 \<Rightarrow> f64" where
  "f64_of_u64 w = fl (of_nat (unat w))"

definition f64_of_int :: "int \<Rightarrow> f64" where
  "f64_of_int i = fl (of_int i)"

definition f64_add :: "f64 \<Rightarrow> f64 \<Rightarrow> f64" where "f64_add a b = fl (a + b)"
definition f64_sub :: "f64 \<Rightarrow> f64 \<Rightarrow> f64" where "f64_sub a b = fl (a - b)"
definition f64_mul :: "f64 \<Rightarrow> f64 \<Rightarrow> f64" where "f64_mul a b = fl (a * b)"
definition f64_div :: "f64 \<Rightarrow> f64 \<Rightarrow> f64" where "f64_div a b = fl (a / b)"

text \<open>\<open>math.Round\<close>: to the nearest integer, halves away from zero.  Its result is a double.\<close>

definition math_Round :: "f64 \<Rightarrow> f64" where
  "math_Round x = of_int (if 0 \<le> x then \<lfloor>x + 1 / 2\<rfloor> else - \<lfloor>- x + 1 / 2\<rfloor>)"

section \<open>Powers of two and binary exponents\<close>

lemma pow2_powi: "pow2 k = 2 powi k"
  by (simp add: pow2_def power_int_def inverse_eq_divide power_one_over)

lemma pow2_pos [simp]: "0 < pow2 k"
  by (simp add: pow2_powi)

lemma pow2_nonneg [simp]: "0 \<le> pow2 k"
  using pow2_pos [of k] by (simp only: order_less_imp_le)

lemma pow2_neq_0 [simp]: "pow2 k \<noteq> 0"
  using pow2_pos [of k] by linarith

lemma pow2_add: "pow2 (a + b) = pow2 a * pow2 b"
  by (simp add: pow2_powi power_int_add)

lemma pow2_diff: "pow2 (a - b) = pow2 a / pow2 b"
  by (simp add: pow2_powi power_int_diff)

lemma pow2_mono: "a \<le> b \<Longrightarrow> pow2 a \<le> pow2 b"
  by (simp add: pow2_powi power_int_increasing)

lemma pow2_less_iff: "pow2 a < pow2 b \<longleftrightarrow> a < b"
  by (metis linorder_not_le nle_le pow2_mono pow2_powi power_int_strict_increasing one_less_numeral_iff semiring_norm(76))

lemma pow2_nat: "pow2 (int n) = 2 ^ n"
  by (simp add: pow2_def)

lemma bitlen_bounds_rat:
  assumes "0 < p"
  shows "pow2 (bitlen p - 1) \<le> of_int p" "(of_int p :: rat) < pow2 (bitlen p)"
proof -
  have b: "2 ^ nat (bitlen p - 1) \<le> p" "p < 2 ^ nat (bitlen p)"
    using bitlen_bounds [OF assms] by auto
  have "1 \<le> bitlen p" using assms bitlen_nonneg [of p] bitlen_eq_zero_iff [of p] by linarith
  then have e: "pow2 (bitlen p - 1) = of_int (2 ^ nat (bitlen p - 1))"
    "pow2 (bitlen p) = of_int (2 ^ nat (bitlen p))" by (simp_all add: pow2_def)
  from b show "pow2 (bitlen p - 1) \<le> of_int p" "(of_int p :: rat) < pow2 (bitlen p)"
    unfolding e by (simp_all only: of_int_le_iff of_int_less_iff)
qed

lemma binexp_bounds:
  assumes "0 < x"
  shows "pow2 (binexp x) \<le> x" "x < pow2 (binexp x + 1)"
proof -
  obtain p q where pq: "quotient_of x = (p, q)" by (cases "quotient_of x")
  have q: "0 < q" using quotient_of_denom_pos [OF pq] .
  have x: "x = of_int p / of_int q" using quotient_of_div [OF pq] .
  have p: "0 < p" using assms q by (simp add: x zero_less_divide_iff)
  define k where "k = bitlen p - bitlen q"
  note bp = bitlen_bounds_rat [OF p] and bq = bitlen_bounds_rat [OF q]
  have "pow2 (bitlen p - 1) / pow2 (bitlen q) \<le> x"
    unfolding x using bp(1) bq(2) q p by (intro frac_le) auto
  then have lo: "pow2 (k - 1) \<le> x" by (simp add: k_def algebra_simps flip: pow2_diff)
  have "x < pow2 (bitlen p) / pow2 (bitlen q - 1)"
    unfolding x using bp(2) bq(1) q p by (intro frac_less) auto
  then have hi: "x < pow2 (k + 1)" by (simp add: k_def algebra_simps flip: pow2_diff)
  have "binexp x = (if pow2 k \<le> x then k else k - 1)" by (simp add: binexp_def pq k_def Let_def)
  then show "pow2 (binexp x) \<le> x" "x < pow2 (binexp x + 1)" using lo hi by auto
qed

lemma binexp_le: "0 < x \<Longrightarrow> x < pow2 (k + 1) \<Longrightarrow> binexp x \<le> k"
  using binexp_bounds(1) [of x] pow2_less_iff [of "binexp x" "k + 1"] by force

lemma binexp_mono: "0 < x \<Longrightarrow> x \<le> y \<Longrightarrow> binexp x \<le> binexp y"
  using binexp_bounds(2) [of y] by (intro binexp_le) auto

section \<open>Rounding to the nearest integer\<close>

lemma rne_of_int [simp]: "rne (of_int n) = n"
  by (simp add: rne_def)

lemma rne_error: "\<bar>of_int (rne x) - x\<bar> \<le> 1 / 2"
  unfolding rne_def Let_def by (auto simp: abs_if) linarith+

lemma rne_floor: "\<lfloor>x\<rfloor> \<le> rne x" "rne x \<le> \<lfloor>x\<rfloor> + 1"
  by (simp_all add: rne_def Let_def)

lemma rne_mono: "x \<le> y \<Longrightarrow> rne x \<le> rne y"
proof -
  assume le: "x \<le> y"
  show ?thesis
  proof (cases "\<lfloor>x\<rfloor> = \<lfloor>y\<rfloor>")
    case True
    with le show ?thesis by (auto simp: rne_def Let_def)
  next
    case False
    with floor_mono [OF le] have "\<lfloor>x\<rfloor> + 1 \<le> \<lfloor>y\<rfloor>" by linarith
    with rne_floor [of x] rne_floor [of y] show ?thesis by linarith
  qed
qed

lemma rne_minus: "rne (- x) = - rne x"
proof (cases "x = of_int \<lfloor>x\<rfloor>")
  case True
  then show ?thesis by (metis of_int_minus rne_of_int)
next
  case False
  then have "\<lfloor>- x\<rfloor> = - \<lfloor>x\<rfloor> - 1"
    by (intro floor_unique) (auto, linarith+)
  then show ?thesis by (auto simp: rne_def Let_def)
qed

section \<open>Properties of fl\<close>

lemma fl_0 [simp]: "fl 0 = 0"
  by (simp add: fl_def)

lemma fl_minus: "fl (- x) = - fl x"
  by (simp add: fl_def Let_def rne_minus minus_divide_left [symmetric])

lemma fl_pos_unfold: "0 < x \<Longrightarrow> fl x = of_int (rne (x / pow2 (binexp x - 52))) * pow2 (binexp x - 52)"
  by (simp add: fl_def Let_def)

lemma fl_error: "\<bar>fl x - x\<bar> \<le> pow2 (-53) * \<bar>x\<bar>"
proof -
  have pos: "\<bar>fl x - x\<bar> \<le> pow2 (-53) * \<bar>x\<bar>" if x: "0 < x" for x
  proof -
    let ?u = "pow2 (binexp x - 52)"
    have "fl x - x = (of_int (rne (x / ?u)) - x / ?u) * ?u"
      using x by (simp add: fl_pos_unfold algebra_simps)
    then have "\<bar>fl x - x\<bar> = \<bar>of_int (rne (x / ?u)) - x / ?u\<bar> * ?u" by (simp add: abs_mult)
    also have "\<dots> \<le> 1 / 2 * ?u" by (intro mult_right_mono rne_error) simp
    also have "\<dots> = pow2 (-53) * pow2 (binexp x)"
      by (simp add: pow2_diff) (simp add: pow2_def)
    also have "\<dots> \<le> pow2 (-53) * \<bar>x\<bar>"
      using binexp_bounds(1) [OF x] x by (intro mult_left_mono) auto
    finally show ?thesis .
  qed
  consider "x = 0" | "0 < x" | "0 < - x" by linarith
  then show ?thesis
  proof cases
    case 3
    from pos [OF this] show ?thesis by (simp add: fl_minus)
  next
    case 2
    then show ?thesis by (rule pos)
  qed simp
qed

lemma fl_exact_scaled:
  assumes "\<bar>m\<bar> < 2 ^ 53"
  shows "fl (of_int m * pow2 k) = of_int m * pow2 k"
proof -
  have pos: "fl (of_int m * pow2 k) = of_int m * pow2 k" if m: "0 < m" "m < 2 ^ 53" for m
  proof -
    let ?x = "of_int m * pow2 k"
    have x: "0 < ?x" using m by simp
    have "(of_int m :: rat) < of_int (2 ^ 53)" using m(2) by (simp only: of_int_less_iff)
    also have "\<dots> = pow2 53" by (simp add: pow2_def)
    finally have "?x < pow2 53 * pow2 k" by simp
    then have "?x < pow2 (k + 52 + 1)" by (simp add: add.commute flip: pow2_add)
    then have "binexp ?x \<le> k + 52" by (rule binexp_le [OF x])
    then have j: "0 \<le> k - (binexp ?x - 52)" by simp
    let ?j = "nat (k - (binexp ?x - 52))"
    have "?x / pow2 (binexp ?x - 52) = of_int m * pow2 (k - (binexp ?x - 52))"
      by (simp only: pow2_diff) simp
    also have "\<dots> = of_int (m * 2 ^ ?j)" using j by (simp add: pow2_def)
    finally have N: "?x / pow2 (binexp ?x - 52) = of_int (m * 2 ^ ?j)" .
    have "fl ?x = ?x / pow2 (binexp ?x - 52) * pow2 (binexp ?x - 52)"
      by (simp only: fl_pos_unfold [OF x] N rne_of_int)
    then show ?thesis by simp
  qed
  consider "m = 0" | "0 < m" | "0 < - m" by linarith
  then show ?thesis
  proof cases
    case 3
    with assms pos [of "- m"] show ?thesis by (simp add: fl_minus)
  qed (use assms pos in auto)
qed

lemma fl_of_int: "\<bar>m\<bar> < 2 ^ 53 \<Longrightarrow> fl (of_int m) = of_int m"
  using fl_exact_scaled [of m 0] by (simp add: pow2_def)

lemma fl_pos_bounds:
  assumes x: "0 < x"
  shows "pow2 (binexp x) \<le> fl x" "fl x \<le> pow2 (binexp x + 1)"
proof -
  let ?u = "pow2 (binexp x - 52)"
  have u: "pow2 (binexp x) = of_int (2 ^ 52) * ?u" "pow2 (binexp x + 1) = of_int (2 ^ 53) * ?u"
    by (simp_all add: pow2_diff pow2_add) (simp_all add: pow2_def)
  have "of_int (2 ^ 52) \<le> x / ?u" "x / ?u \<le> of_int (2 ^ 53)"
    using binexp_bounds [OF x] unfolding u by (simp_all add: divide_simps)
  then have "2 ^ 52 \<le> rne (x / ?u)" "rne (x / ?u) \<le> 2 ^ 53"
    using rne_mono [of "of_int (2 ^ 52)" "x / ?u"] rne_mono [of "x / ?u" "of_int (2 ^ 53)"]
    by (simp_all only: rne_of_int)
  then have "(of_int (2 ^ 52) :: rat) \<le> of_int (rne (x / ?u))"
    "of_int (rne (x / ?u)) \<le> (of_int (2 ^ 53) :: rat)" by (simp_all only: of_int_le_iff)
  then show "pow2 (binexp x) \<le> fl x" "fl x \<le> pow2 (binexp x + 1)"
    unfolding u fl_pos_unfold [OF x] by (intro mult_right_mono; simp)+
qed

lemma fl_mono_pos:
  assumes "0 < x" "x \<le> y"
  shows "fl x \<le> fl y"
proof (cases "binexp x = binexp y")
  case True
  have "rne (x / pow2 (binexp y - 52)) \<le> rne (y / pow2 (binexp y - 52))"
    using assms by (intro rne_mono divide_right_mono) auto
  with True assms show ?thesis by (simp add: fl_pos_unfold)
next
  case False
  with binexp_mono [OF assms] have "binexp x + 1 \<le> binexp y" by simp
  then have "pow2 (binexp x + 1) \<le> pow2 (binexp y)" by (rule pow2_mono)
  with fl_pos_bounds(2) [OF assms(1)] fl_pos_bounds(1) [of y] assms show ?thesis by linarith
qed

lemma fl_nonneg: "0 \<le> x \<Longrightarrow> 0 \<le> fl x"
proof (cases "x = 0")
  case False
  assume "0 \<le> x"
  with False have "0 < x" by simp
  from order_trans [OF pow2_nonneg fl_pos_bounds(1) [OF this]] show ?thesis .
qed simp

lemma fl_mono: "x \<le> y \<Longrightarrow> fl x \<le> fl y"
proof -
  assume le: "x \<le> y"
  consider "0 < x" | "x \<le> 0" "0 \<le> y" | "y < 0" by linarith
  then show ?thesis
  proof cases
    case 2
    then show ?thesis using fl_nonneg [of y] fl_nonneg [of "- x"] by (simp add: fl_minus)
  next
    case 3
    then show ?thesis using fl_mono_pos [of "- y" "- x"] le by (simp add: fl_minus)
  next
    case 1
    then show ?thesis using le by (rule fl_mono_pos)
  qed
qed

section \<open>The contract of a rounding\<close>

locale rounding =
  fixes rnd :: "rat \<Rightarrow> rat"
  assumes mono: "x \<le> y \<Longrightarrow> rnd x \<le> rnd y"
    and error: "\<bar>rnd x - x\<bar> \<le> 1 / 2 ^ 53 * \<bar>x\<bar>"
    and exact: "\<bar>m\<bar> < 2 ^ 53 \<Longrightarrow> rnd (of_int m) = of_int m"
begin

lemma rnd_0: "rnd 0 = 0"
  using exact [of 0] by simp

lemma rnd_nonneg: "0 \<le> x \<Longrightarrow> 0 \<le> rnd x"
  using mono [of 0 x] by (simp add: rnd_0)

lemma rnd_le_int: "x \<le> of_int m \<Longrightarrow> \<bar>m\<bar> < 2 ^ 53 \<Longrightarrow> rnd x \<le> of_int m"
  using mono [of x "of_int m"] exact [of m] by simp

lemma rnd_ge_int: "of_int m \<le> x \<Longrightarrow> \<bar>m\<bar> < 2 ^ 53 \<Longrightarrow> of_int m \<le> rnd x"
  using mono [of "of_int m" x] exact [of m] by simp

text \<open>The share of a part in a whole stays between 0 and 1, and its percentage between 0
  and 100, without any clamping.\<close>

lemma rnd_share:
  assumes "0 \<le> a" "a \<le> b"
  shows "0 \<le> rnd (a / b)" "rnd (a / b) \<le> 1"
  using assms rnd_nonneg [of "a / b"] rnd_le_int [of "a / b" 1]
  by (cases "b = 0"; auto simp: divide_le_eq_1 rnd_0)+

lemma rnd_percent:
  assumes "0 \<le> q" "q \<le> 1"
  shows "0 \<le> rnd (q * 100)" "rnd (q * 100) \<le> 100"
  using assms rnd_nonneg [of "q * 100"] rnd_le_int [of "q * 100" 100] by auto

text \<open>An error bound that can be chained: rounding a value within \<open>d\<close> of the exact one.\<close>

lemma rnd_close:
  assumes "\<bar>x - t\<bar> \<le> d" "\<bar>t\<bar> + d \<le> B" "d + B / 2 ^ 53 \<le> e"
  shows "\<bar>rnd x - t\<bar> \<le> e"
proof -
  have "\<bar>x\<bar> \<le> B" using assms(1,2) by linarith
  then have "1 / 2 ^ 53 * \<bar>x\<bar> \<le> B / 2 ^ 53" by simp
  with error [of x] have "\<bar>rnd x - x\<bar> \<le> B / 2 ^ 53" by linarith
  with assms(1,3) show ?thesis by linarith
qed

lemma quotient_close:
  fixes a b A B :: rat
  assumes b: "0 < b" and a: "0 \<le> a" "a \<le> b"
    and A: "\<bar>A - a\<bar> \<le> 4 / 2 ^ 53 * b" and B: "\<bar>B - b\<bar> \<le> 1 / 2 ^ 53 * b"
  shows "0 < B" "\<bar>A / B - a / b\<bar> \<le> 10 / 2 ^ 53"
proof -
  have "b - B \<le> 1 / 2 ^ 53 * b" using abs_le_D2 [OF B] by simp
  with b have half: "b / 2 \<le> B" by simp
  with b show B0: "0 < B" by linarith
  have "A * b - a * B = (A - a) * b - a * (B - b)" by (simp add: algebra_simps)
  then have "\<bar>A * b - a * B\<bar> \<le> \<bar>A - a\<bar> * b + a * \<bar>B - b\<bar>"
    using a b by (metis abs_mult abs_of_nonneg abs_of_pos abs_triangle_ineq4)
  also have "\<dots> \<le> 4 / 2 ^ 53 * b * b + b * (1 / 2 ^ 53 * b)"
    using A B a b by (intro add_mono mult_mono) auto
  also have "\<dots> = 10 / 2 ^ 53 * (b / 2 * b)" by simp
  also have "\<dots> \<le> 10 / 2 ^ 53 * (B * b)" using half b by (intro mult_left_mono mult_right_mono) auto
  finally have le: "\<bar>A * b - a * B\<bar> \<le> 10 / 2 ^ 53 * (B * b)" .
  have "\<bar>A / B - a / b\<bar> = \<bar>A * b - a * B\<bar> / (B * b)"
    using b B0 by (simp add: diff_frac_eq abs_divide abs_mult)
  also have "\<dots> \<le> 10 / 2 ^ 53" using le b B0 by (simp add: pos_divide_le_eq)
  finally show "\<bar>A / B - a / b\<bar> \<le> 10 / 2 ^ 53" .
qed

lemma scale_close: "\<bar>x - t\<bar> \<le> d \<Longrightarrow> \<bar>x * 100 - 100 * t\<bar> \<le> 100 * (d :: rat)"
  by (simp add: abs_le_iff)

text \<open>The three roundings between a quotient and its percentage in hundredths.\<close>

lemma hundredths_close:
  assumes "\<bar>q - t\<bar> \<le> 10 / 2 ^ 53" "0 \<le> t" "t \<le> 1"
  shows "\<bar>rnd (rnd (rnd q * 100) * 100) - 10000 * t\<bar> \<le> 160000 / 2 ^ 53"
proof -
  have "\<bar>rnd q - t\<bar> \<le> 12 / 2 ^ 53" by (rule rnd_close [OF assms(1), of 2]) (use assms in auto)
  from scale_close [OF this] have "\<bar>rnd q * 100 - 100 * t\<bar> \<le> 1200 / 2 ^ 53" by simp
  then have "\<bar>rnd (rnd q * 100) - 100 * t\<bar> \<le> 1400 / 2 ^ 53"
    by (rule rnd_close [of _ _ _ 200]) (use assms in auto)
  from scale_close [OF this] have "\<bar>rnd (rnd q * 100) * 100 - 10000 * t\<bar> \<le> 140000 / 2 ^ 53" by simp
  then show ?thesis by (rule rnd_close [of _ _ _ 20000]) (use assms in auto)
qed

end

interpretation f64: rounding fl
  by unfold_locales (use fl_mono fl_error fl_of_int in \<open>auto simp: pow2_def\<close>)

section \<open>Durations\<close>

text \<open>
  \<open>time.Time\<close> is the number of nanoseconds since the Unix epoch; \<open>time.Duration\<close> is a
  signed 64-bit number of nanoseconds, and \<open>Sub\<close> saturates.  The program calls \<open>UTC()\<close> on
  every reading of the clock, which drops the monotonic part, so differences may be negative.
\<close>

type_synonym go_time = int
type_synonym go_duration = int

definition Nanosecond :: go_duration where "Nanosecond = 1"
definition Millisecond :: go_duration where "Millisecond = 1000000"
definition Second :: go_duration where "Second = 1000000000"
definition Hour :: go_duration where "Hour = 3600 * Second"

text \<open>The zero value of \<open>time.Time\<close> is the first instant of year 1.\<close>

definition zero_time :: go_time where "zero_time = - 62135596800 * Second"

definition maxDuration :: go_duration where "maxDuration = 2 ^ 63 - 1"
definition minDuration :: go_duration where "minDuration = - (2 ^ 63)"

definition time_Sub :: "go_time \<Rightarrow> go_time \<Rightarrow> go_duration" where
  "time_Sub t u = max minDuration (min maxDuration (t - u))"

definition duration_Seconds :: "go_duration \<Rightarrow> f64" where
  "duration_Seconds d =
     f64_add (f64_of_int (d sdiv Second)) (f64_div (f64_of_int (d smod Second)) 1000000000)"

lemma time_Sub_bounds: "minDuration \<le> time_Sub t u" "time_Sub t u \<le> maxDuration"
  by (auto simp: time_Sub_def minDuration_def maxDuration_def)

end
