(* ===== verification/Go_Strings.thy ===== *)
theory Go_Strings
  imports Sugi_Prelude "HOL-Library.List_Lexorder" "HOL-Library.Char_ord"
begin

text \<open>
  What the program uses of Go's \<open>strings\<close>, \<open>strconv\<close> and \<open>bufio\<close>.  A Go string is a
  sequence of bytes, and so is a \<open>string\<close> here (a \<open>char\<close> is a byte).

  White space is \<open>unicode.IsSpace\<close>, recognised on the UTF-8 encoding: the lead bytes of
  the multi-byte spaces never occur inside another rune, so scanning bytes and scanning
  runes give the same result.  \<open>ToLower\<close> and \<open>ToUpper\<close> are exact where the result is
  ASCII (which includes the four runes outside ASCII whose case mapping is an ASCII letter);
  other runes are kept, where Go maps them to runes that are again outside ASCII.  No
  \<open>strings.Contains\<close> of the program can see the difference, since all its patterns are ASCII.
\<close>

section \<open>Bytes and white space\<close>

abbreviation byte :: "char \<Rightarrow> nat" where
  "byte c \<equiv> of_char c"

definition ascii_space :: "char \<Rightarrow> bool" where
  "ascii_space c \<longleftrightarrow> byte c = 32 \<or> (9 \<le> byte c \<and> byte c \<le> 13)"

text \<open>The number of bytes of the white-space rune a string starts with; 0 if there is none.\<close>

definition space3 :: "nat \<Rightarrow> nat \<Rightarrow> nat \<Rightarrow> bool" where
  "space3 a b c \<longleftrightarrow>
     a = 0xE1 \<and> b = 0x9A \<and> c = 0x80 \<or>
     a = 0xE2 \<and> b = 0x80 \<and> (0x80 \<le> c \<and> c \<le> 0x8A \<or> c = 0xA8 \<or> c = 0xA9 \<or> c = 0xAF) \<or>
     a = 0xE2 \<and> b = 0x81 \<and> c = 0x9F \<or>
     a = 0xE3 \<and> b = 0x80 \<and> c = 0x80"

definition space2 :: "nat \<Rightarrow> nat \<Rightarrow> bool" where
  "space2 a b \<longleftrightarrow> a = 0xC2 \<and> (b = 0x85 \<or> b = 0xA0)"

definition space_len :: "string \<Rightarrow> nat" where
  "space_len s = (case s of
       [] \<Rightarrow> 0
     | a # t \<Rightarrow> if ascii_space a then 1 else (case t of
           [] \<Rightarrow> 0
         | b # u \<Rightarrow> if space2 (byte a) (byte b) then 2 else (case u of
               [] \<Rightarrow> 0
             | c # _ \<Rightarrow> if space3 (byte a) (byte b) (byte c) then 3 else 0)))"

text \<open>The same at the end of a string, which is given reversed.\<close>

definition space_len_rev :: "string \<Rightarrow> nat" where
  "space_len_rev s = (case s of
       [] \<Rightarrow> 0
     | a # t \<Rightarrow> if ascii_space a then 1 else (case t of
           [] \<Rightarrow> 0
         | b # u \<Rightarrow> if space2 (byte b) (byte a) then 2 else (case u of
               [] \<Rightarrow> 0
             | c # _ \<Rightarrow> if space3 (byte c) (byte b) (byte a) then 3 else 0)))"

section \<open>The package strings\<close>

fun trim_while :: "(string \<Rightarrow> nat) \<Rightarrow> string \<Rightarrow> string" where
  "trim_while f [] = []"
| "trim_while f (c # cs) = (case f (c # cs) of 0 \<Rightarrow> c # cs | Suc k \<Rightarrow> trim_while f (drop k cs))"

definition TrimSpace :: "string \<Rightarrow> string" where
  "TrimSpace s = rev (trim_while space_len_rev (rev (trim_while space_len s)))"

definition flush_field :: "string \<Rightarrow> string list" where
  "flush_field acc = (if acc = [] then [] else [acc])"

fun fields_go :: "string \<Rightarrow> string \<Rightarrow> string list" where
  "fields_go acc [] = flush_field acc"
| "fields_go acc (c # cs) = (case space_len (c # cs) of
     0 \<Rightarrow> fields_go (acc @ [c]) cs
   | Suc k \<Rightarrow> flush_field acc @ fields_go [] (drop k cs))"

definition Fields :: "string \<Rightarrow> string list" where
  "Fields s = fields_go [] s"

definition HasPrefix :: "string \<Rightarrow> string \<Rightarrow> bool" where
  "HasPrefix s p \<longleftrightarrow> take (length p) s = p"

definition TrimPrefix :: "string \<Rightarrow> string \<Rightarrow> string" where
  "TrimPrefix s p = (if HasPrefix s p then drop (length p) s else s)"

definition TrimSuffix :: "string \<Rightarrow> string \<Rightarrow> string" where
  "TrimSuffix s p =
     (if length p \<le> length s \<and> drop (length s - length p) s = p
      then take (length s - length p) s else s)"

fun Contains :: "string \<Rightarrow> string \<Rightarrow> bool" where
  "Contains [] p = (p = [])"
| "Contains (c # cs) p = (HasPrefix (c # cs) p \<or> Contains cs p)"

text \<open>\<open>None\<close> is Go's \<open>-1\<close>.\<close>

fun IndexByte :: "string \<Rightarrow> char \<Rightarrow> nat option" where
  "IndexByte [] b = None"
| "IndexByte (c # cs) b = (if c = b then Some 0 else map_option Suc (IndexByte cs b))"

fun Split :: "string \<Rightarrow> char \<Rightarrow> string list" where
  "Split [] b = [[]]"
| "Split (c # cs) b =
     (if c = b then [] # Split cs b
      else (case Split cs b of [] \<Rightarrow> [[c]] | w # ws \<Rightarrow> (c # w) # ws))"

fun Join :: "string list \<Rightarrow> string \<Rightarrow> string" where
  "Join [] sep = []"
| "Join [w] sep = w"
| "Join (w # v # ws) sep = w @ sep @ Join (v # ws) sep"

text \<open>\<open>strings.TrimRight(s, cutset)\<close> for an ASCII cutset.\<close>

definition TrimRight :: "string \<Rightarrow> char list \<Rightarrow> string" where
  "TrimRight s cutset = rev (dropWhile (\<lambda>c. c \<in> set cutset) (rev s))"

definition lower_byte :: "char \<Rightarrow> char" where
  "lower_byte c = (if 65 \<le> byte c \<and> byte c \<le> 90 then char_of (byte c + 32) else c)"

definition upper_byte :: "char \<Rightarrow> char" where
  "upper_byte c = (if 97 \<le> byte c \<and> byte c \<le> 122 then char_of (byte c - 32) else c)"

text \<open>\<open>U+0130\<close> is lowered to \<open>i\<close> and \<open>U+212A\<close> to \<open>k\<close>.\<close>

fun ToLower :: "string \<Rightarrow> string" where
  "ToLower [] = []"
| "ToLower (a # s) =
     (case s of
        b # t \<Rightarrow>
          if byte a = 0xC4 \<and> byte b = 0xB0 then CHR ''i'' # ToLower t
          else (case t of
            c # u \<Rightarrow>
              if byte a = 0xE2 \<and> byte b = 0x84 \<and> byte c = 0xAA then CHR ''k'' # ToLower u
              else lower_byte a # ToLower s
          | [] \<Rightarrow> lower_byte a # ToLower s)
      | [] \<Rightarrow> [lower_byte a])"

text \<open>\<open>U+0131\<close> is raised to \<open>I\<close> and \<open>U+017F\<close> to \<open>S\<close>.\<close>

fun ToUpper :: "string \<Rightarrow> string" where
  "ToUpper [] = []"
| "ToUpper (a # s) =
     (case s of
        b # t \<Rightarrow>
          if byte a = 0xC4 \<and> byte b = 0xB1 then CHR ''I'' # ToUpper t
          else if byte a = 0xC5 \<and> byte b = 0xBF then CHR ''S'' # ToUpper t
          else upper_byte a # ToUpper s
      | [] \<Rightarrow> [upper_byte a])"

section \<open>The package strconv\<close>

datatype num_error = ErrSyntax | ErrRange

text \<open>The digits of a base-10 number, read left to right; overflow is noticed before the
  next byte is looked at.\<close>

fun parse_digits :: "nat \<Rightarrow> string \<Rightarrow> nat \<times> num_error option" where
  "parse_digits n [] = (n, None)"
| "parse_digits n (c # cs) =
     (if 48 \<le> byte c \<and> byte c \<le> 57 then
        (let n' = 10 * n + (byte c - 48)
         in if n' \<ge> 2 ^ 64 then (2 ^ 64 - 1, Some ErrRange) else parse_digits n' cs)
      else (0, Some ErrSyntax))"

text \<open>\<open>strconv.ParseUint(s, 10, 64)\<close>: the value is 0 after a syntax error and the largest
  \<open>uint64\<close> after an overflow.\<close>

definition ParseUint :: "string \<Rightarrow> u64 \<times> num_error option" where
  "ParseUint s =
     (if s = [] then (0, Some ErrSyntax)
      else (case parse_digits 0 s of (n, e) \<Rightarrow> (of_nat n, e)))"

text \<open>\<open>strconv.Atoi\<close> with a 64-bit \<open>int\<close>.\<close>

definition parse_signed :: "bool \<Rightarrow> string \<Rightarrow> int \<times> num_error option" where
  "parse_signed neg s =
     (if s = [] then (0, Some ErrSyntax)
      else (case parse_digits 0 s of (n, e) \<Rightarrow>
        if e = Some ErrSyntax then (0, e)
        else if \<not> neg \<and> n \<ge> 2 ^ 63 then (2 ^ 63 - 1, Some ErrRange)
        else if neg \<and> n > 2 ^ 63 then (- (2 ^ 63), Some ErrRange)
        else (if neg then - int n else int n, None)))"

definition Atoi :: "string \<Rightarrow> int \<times> num_error option" where
  "Atoi s = (case s of
       [] \<Rightarrow> (0, Some ErrSyntax)
     | c # cs \<Rightarrow>
         if c = CHR ''-'' then parse_signed True cs
         else if c = CHR ''+'' then parse_signed False cs
         else parse_signed False s)"

section \<open>bufio.Scanner over lines\<close>

text \<open>A reader is the bytes it delivers and whether it then fails (rather than ending).\<close>

type_synonym reader = "string \<times> bool"

datatype scan_error = ErrTooLong | ErrRead

definition MaxScanTokenSize :: nat where
  "MaxScanTokenSize = 65536"

text \<open>\<open>bufio.ScanLines\<close>: the pieces between newlines; an empty piece after the last newline
  is not a line.\<close>

definition raw_lines :: "string \<Rightarrow> string list" where
  "raw_lines s = (let ls = Split s (CHR 0x0A) in if last ls = [] then butlast ls else ls)"

definition drop_cr :: "string \<Rightarrow> string" where
  "drop_cr l = (if l \<noteq> [] \<and> last l = CHR 0x0D then butlast l else l)"

text \<open>The lines \<open>Scan\<close> delivers and what \<open>Err\<close> returns afterwards.  A line that does not fit
  the 64 KiB buffer ends the scan with an error.\<close>

definition Scan :: "reader \<Rightarrow> string list \<times> scan_error option" where
  "Scan rd =
     (let ls = raw_lines (fst rd);
          short = takeWhile (\<lambda>l. length l < MaxScanTokenSize) ls
      in (map drop_cr short,
          if length short < length ls then Some ErrTooLong
          else if snd rd then Some ErrRead else None))"

section \<open>Lemmas: prefixes and substrings\<close>

lemma HasPrefix_iff: "HasPrefix s p \<longleftrightarrow> (\<exists>t. s = p @ t)"
proof
  assume "HasPrefix s p"
  then have "s = p @ drop (length p) s" by (metis HasPrefix_def append_take_drop_id)
  then show "\<exists>t. s = p @ t" ..
qed (auto simp: HasPrefix_def)

lemma HasPrefix_append [simp]: "HasPrefix (p @ t) p"
  by (simp add: HasPrefix_def)

lemma HasPrefix_Nil [simp]: "HasPrefix s []"
  by (simp add: HasPrefix_def)

lemma Contains_iff: "Contains s p \<longleftrightarrow> (\<exists>a b. s = a @ p @ b)"
proof (induction s)
  case Nil
  then show ?case by auto
next
  case (Cons c cs)
  have "(\<exists>a b. c # cs = a @ p @ b) \<longleftrightarrow> (\<exists>b. c # cs = p @ b) \<or> (\<exists>a b. cs = a @ p @ b)"
    by (metis Cons_eq_append_conv append_Cons append_Nil)
  with Cons.IH show ?case by (simp add: HasPrefix_iff)
qed

lemma Contains_single: "Contains s [c] \<longleftrightarrow> c \<in> set s"
  by (auto simp: Contains_iff in_set_conv_decomp)

lemma IndexByte_None: "IndexByte s b = None \<longleftrightarrow> b \<notin> set s"
  by (induction s) auto

lemma IndexByte_append: "b \<notin> set p \<Longrightarrow> IndexByte (p @ b # t) b = Some (length p)"
  by (induction p) auto

lemma IndexByte_Some:
  "IndexByte s b = Some i \<Longrightarrow> i < length s \<and> s ! i = b \<and> b \<notin> set (take i s)"
  by (induction s arbitrary: i) (auto split: if_splits)

section \<open>Lemmas: words and white space\<close>

text \<open>A plain word is a non-empty sequence of printing ASCII characters.\<close>

definition plain_char :: "char \<Rightarrow> bool" where
  "plain_char c \<longleftrightarrow> 32 < byte c \<and> byte c < 127"

definition plain_word :: "string \<Rightarrow> bool" where
  "plain_word w \<longleftrightarrow> w \<noteq> [] \<and> list_all plain_char w"

lemma space_len_plain [simp]: "plain_char c \<Longrightarrow> space_len (c # cs) = 0"
  by (auto simp: space_len_def plain_char_def ascii_space_def space2_def space3_def
      split: list.splits)

lemma space_len_rev_plain [simp]: "plain_char c \<Longrightarrow> space_len_rev (c # cs) = 0"
  by (auto simp: space_len_rev_def plain_char_def ascii_space_def space2_def space3_def
      split: list.splits)

lemma space_len_blank [simp]: "space_len (CHR '' '' # cs) = Suc 0"
  by (simp add: space_len_def ascii_space_def)

lemma space_len_rev_blank [simp]: "space_len_rev (CHR '' '' # cs) = Suc 0"
  by (simp add: space_len_rev_def ascii_space_def)

lemma fields_go_plain:
  "list_all plain_char w \<Longrightarrow> fields_go acc (w @ s) = fields_go (acc @ w) s"
  by (induction w arbitrary: acc) auto

lemma fields_go_blank: "fields_go acc (CHR '' '' # s) = flush_field acc @ fields_go [] s"
  by simp

lemma Fields_words: "list_all plain_word ws \<Longrightarrow> Fields (Join ws '' '') = ws"
proof (induction ws rule: induct_list012)
  case (2 w)
  then show ?case using fields_go_plain [of w "[]" "[]"]
    by (simp add: Fields_def plain_word_def flush_field_def)
next
  case (3 w v ws)
  then have "fields_go [] (w @ CHR '' '' # Join (v # ws) '' '') =
      w # fields_go [] (Join (v # ws) '' '')"
    using fields_go_plain [of w "[]" "CHR '' '' # Join (v # ws) '' ''"]
    by (simp add: plain_word_def flush_field_def del: fields_go.simps(2) add: fields_go_blank)
  with 3 show ?case by (simp add: Fields_def)
qed (simp add: Fields_def flush_field_def)

lemma fields_go_nonempty: "\<forall>w \<in> set (fields_go acc s). w \<noteq> []"
  by (induction acc s rule: fields_go.induct) (auto simp: flush_field_def split: nat.splits)

lemma Fields_nonempty: "w \<in> set (Fields s) \<Longrightarrow> w \<noteq> []"
  using fields_go_nonempty by (auto simp: Fields_def)

lemma trim_while_plain: "plain_char c \<Longrightarrow> trim_while space_len (c # cs) = c # cs"
  by simp

lemma TrimSpace_plain:
  assumes "s \<noteq> []" "plain_char (hd s)" "plain_char (last s)"
  shows "TrimSpace s = s"
proof -
  obtain c cs where s: "s = c # cs" using assms(1) by (cases s) auto
  obtain d ds where r: "rev s = d # ds" using assms(1) by (cases "rev s") auto
  have "plain_char d" using assms r by (metis hd_rev list.sel(1))
  with r s assms(2) show ?thesis unfolding TrimSpace_def
    by (metis list.sel(1) nat.simps(4) rev_rev_ident space_len_plain space_len_rev_plain trim_while.simps(2))
qed

lemma trim_while_blank: "trim_while space_len (CHR '' '' # s) = trim_while space_len s"
  by simp

lemma TrimSpace_blank: "TrimSpace (CHR '' '' # s) = TrimSpace s"
  by (simp add: TrimSpace_def)

lemma plain_word_hd: "plain_word w \<Longrightarrow> plain_char (hd w)"
  by (cases w) (auto simp: plain_word_def)

lemma plain_word_last: "plain_word w \<Longrightarrow> plain_char (last w)"
  by (auto simp: plain_word_def list_all_iff)

lemma hd_Join: "w \<noteq> [] \<Longrightarrow> hd (Join (w # ws) sep) = hd w"
  by (cases ws) auto

lemma Join_eq_Nil: "w \<noteq> [] \<Longrightarrow> Join (w # ws) sep \<noteq> []"
  by (cases ws) auto

lemma last_Join: "list_all (\<lambda>w. w \<noteq> []) ws \<Longrightarrow> ws \<noteq> [] \<Longrightarrow> last (Join ws sep) = last (last ws)"
  by (induction ws rule: induct_list012) (auto simp: Join_eq_Nil)

lemma TrimSpace_words:
  assumes "list_all plain_word ws"
  shows "TrimSpace (Join ws '' '') = Join ws '' ''"
proof (cases ws)
  case Nil
  then show ?thesis by (simp add: TrimSpace_def)
next
  case (Cons w vs)
  have ne: "list_all (\<lambda>w. w \<noteq> []) ws" using assms by (auto simp: list_all_iff plain_word_def)
  have "plain_word w" "plain_word (last ws)" using assms Cons by (auto simp: list_all_iff)
  then show ?thesis using Cons ne
    by (intro TrimSpace_plain)
      (auto simp: Join_eq_Nil hd_Join plain_word_hd plain_word_last last_Join simp del: Join.simps)
qed

section \<open>Lemmas: decimal numbers\<close>

text \<open>The kernel's \<open>%llu\<close>.\<close>

fun show_nat :: "nat \<Rightarrow> string" where
  "show_nat n = (if n < 10 then [char_of (48 + n)]
     else show_nat (n div 10) @ [char_of (48 + n mod 10)])"

definition show_int :: "int \<Rightarrow> string" where
  "show_int n = (if n < 0 then ''-'' @ show_nat (nat (- n)) else show_nat (nat n))"

declare show_nat.simps [simp del]

lemma byte_char_of: "d < 256 \<Longrightarrow> byte (char_of d) = (d :: nat)"
  by (simp add: of_char_of)

lemma parse_digits_snoc:
  assumes "parse_digits n s = (m, None)" "d < 10" "10 * m + d < 2 ^ 64"
  shows "parse_digits n (s @ [char_of (48 + d)]) = (10 * m + d, None)"
  using assms
proof (induction s arbitrary: n)
  case Nil
  then show ?case by (simp add: byte_char_of Let_def)
next
  case (Cons c cs)
  then show ?case by (auto simp: Let_def split: if_splits)
qed

lemma parse_digits_show: "n < 2 ^ 64 \<Longrightarrow> parse_digits 0 (show_nat n) = (n, None)"
proof (induction n rule: show_nat.induct)
  case (1 n)
  show ?case
  proof (cases "n < 10")
    case True
    then show ?thesis by (simp add: show_nat.simps [of n] byte_char_of)
  next
    case False
    then have "parse_digits 0 (show_nat (n div 10)) = (n div 10, None)"
      using 1 by (simp add: div_less_dividend order_le_less_trans)
    then have "parse_digits 0 (show_nat (n div 10) @ [char_of (48 + n mod 10)]) =
        (10 * (n div 10) + n mod 10, None)"
      by (rule parse_digits_snoc) (use 1 in auto)
    with False show ?thesis by (simp add: show_nat.simps [of n])
  qed
qed

lemma show_nat_plain: "plain_word (show_nat n)"
proof (induction n rule: show_nat.induct)
  case (1 n)
  have "plain_char (char_of (48 + d))" if "d < 10" for d :: nat
    using that by (simp add: plain_char_def byte_char_of)
  with 1 show ?case
    by (cases "n < 10") (simp_all add: show_nat.simps [of n] plain_word_def)
qed

lemma ParseUint_show: "ParseUint (show_nat (unat w)) = (w, None)"
proof -
  have "unat w < 2 ^ 64" using unsigned_less [of w] by simp
  moreover have "show_nat (unat w) \<noteq> []" using show_nat_plain by (simp add: plain_word_def)
  ultimately show ?thesis by (simp add: ParseUint_def parse_digits_show)
qed

text \<open>What \<open>ParseUint\<close> does on any input.\<close>

lemma parse_digits_cases:
  "parse_digits n s = (m, e) \<Longrightarrow> n < 2 ^ 64 \<Longrightarrow>
    e = None \<and> m < 2 ^ 64 \<or> e = Some ErrSyntax \<and> m = 0 \<or> e = Some ErrRange \<and> m = 2 ^ 64 - 1"
  by (induction s arbitrary: n) (auto simp: Let_def split: if_splits)

section \<open>Lemmas: lines\<close>

definition unlines :: "string list \<Rightarrow> string" where
  "unlines ls = concat (map (\<lambda>l. l @ [CHR 0x0A]) ls)"

lemma unlines_Cons: "unlines (l # ls) = l @ CHR 0x0A # unlines ls"
  by (simp add: unlines_def)

lemma Split_nonempty [simp]: "Split s b \<noteq> []"
  by (induction s) (auto split: list.splits)

lemma Split_append: "b \<notin> set l \<Longrightarrow> Split (l @ b # s) b = l # Split s b"
  by (induction l) auto

lemma Split_unlines:
  "\<forall>l \<in> set ls. CHR 0x0A \<notin> set l \<Longrightarrow> Split (unlines ls) (CHR 0x0A) = ls @ [[]]"
  by (induction ls) (auto simp: unlines_Cons Split_append, simp add: unlines_def)

lemma raw_lines_unlines:
  "\<forall>l \<in> set ls. CHR 0x0A \<notin> set l \<Longrightarrow> raw_lines (unlines ls) = ls"
  by (simp add: raw_lines_def Split_unlines)

definition text_line :: "string \<Rightarrow> bool" where
  "text_line l \<longleftrightarrow> CHR 0x0A \<notin> set l \<and> CHR 0x0D \<notin> set l \<and> length l < MaxScanTokenSize"

lemma Scan_unlines:
  assumes "\<forall>l \<in> set ls. text_line l"
  shows "Scan (unlines ls, False) = (ls, None)"
proof -
  have "raw_lines (unlines ls) = ls"
    using assms by (intro raw_lines_unlines) (auto simp: text_line_def)
  moreover have "takeWhile (\<lambda>l. length l < MaxScanTokenSize) ls = ls"
    using assms by (auto simp: text_line_def takeWhile_eq_all_conv)
  moreover have "map drop_cr ls = ls"
    using assms last_in_set by (intro map_idI) (fastforce simp: drop_cr_def text_line_def)
  ultimately show ?thesis by (simp only: Scan_def Let_def fst_conv snd_conv less_irrefl if_False)
qed

section \<open>Lemmas: rendered lines\<close>

lemma Fields_blank: "Fields (CHR '' '' # s) = Fields s"
  by (simp add: Fields_def flush_field_def)

lemma TrimSpace_blanks: "TrimSpace (replicate n (CHR '' '') @ s) = TrimSpace s"
  by (induction n) (auto simp: TrimSpace_blank)

lemma TrimSpace_plain_word: "plain_word w \<Longrightarrow> TrimSpace w = w"
  using TrimSpace_words [of "[w]"] by simp

lemma Fields_blanks: "Fields (replicate n (CHR '' '') @ s) = Fields s"
  by (induction n) (simp_all add: Fields_blank)

lemma Fields_word_blank: "plain_word w \<Longrightarrow> Fields (w @ CHR '' '' # s) = w # Fields s"
  using fields_go_plain [of w "[]" "CHR '' '' # s"]
  by (simp add: Fields_def flush_field_def plain_word_def)

lemma plain_char_not_newline: "plain_char c \<Longrightarrow> c \<noteq> CHR 0x0A \<and> c \<noteq> CHR 0x0D"
  by (auto simp: plain_char_def)

lemma plain_word_newline: "plain_word w \<Longrightarrow> CHR 0x0A \<notin> set w \<and> CHR 0x0D \<notin> set w"
  using plain_char_not_newline by (fastforce simp: plain_word_def list_all_iff)

lemma set_Join: "set (Join ws sep) \<subseteq> \<Union> (set ` set ws) \<union> set sep"
  by (induction ws sep rule: Join.induct) auto

lemma Join_newline:
  assumes "list_all plain_word ws"
  shows "CHR 0x0A \<notin> set (Join ws '' '') \<and> CHR 0x0D \<notin> set (Join ws '' '')"
  using assms plain_word_newline set_Join [of ws "'' ''"] by (fastforce simp: list_all_iff)

lemma length_Join:
  "\<forall>w \<in> set ws. length w \<le> k \<Longrightarrow> length (Join ws '' '') \<le> length ws * Suc k"
  by (induction ws rule: induct_list012) auto

lemma length_show_nat: "n < 10 ^ Suc k \<Longrightarrow> length (show_nat n) \<le> Suc k"
proof (induction k arbitrary: n)
  case 0
  then show ?case by (simp add: show_nat.simps [of n])
next
  case (Suc k)
  show ?case
  proof (cases "n < 10")
    case False
    have "n div 10 < 10 ^ Suc k" using Suc.prems by (simp add: less_mult_imp_div_less mult.commute)
    from Suc.IH [OF this] False show ?thesis by (simp add: show_nat.simps [of n])
  qed (simp add: show_nat.simps [of n])
qed

lemma length_show_u64: "length (show_nat (unat w)) \<le> 20" for w :: u64
proof -
  have "unat w < 2 ^ 64" using unsigned_less [of w] by simp
  also have "(2 :: nat) ^ 64 < 10 ^ Suc 19" by simp
  finally show ?thesis using length_show_nat [of "unat w" 19] by simp
qed

lemma hd_show_nat: "48 \<le> byte (hd (show_nat n)) \<and> byte (hd (show_nat n)) \<le> 57"
proof (induction n rule: show_nat.induct)
  case (1 n)
  then show ?case using show_nat_plain [of "n div 10"]
    by (cases "n < 10") (simp_all add: show_nat.simps [of n] byte_char_of plain_word_def)
qed

lemma Atoi_show_nat: "n < 2 ^ 63 \<Longrightarrow> Atoi (show_nat n) = (int n, None)"
proof -
  assume n: "n < 2 ^ 63"
  obtain c cs where s: "show_nat n = c # cs"
    using show_nat_plain [of n] by (cases "show_nat n") (auto simp: plain_word_def)
  then have "c \<noteq> CHR ''-''" "c \<noteq> CHR ''+''" using hd_show_nat [of n] by auto
  then have "Atoi (show_nat n) = parse_signed False (show_nat n)" by (simp add: Atoi_def s)
  also have "\<dots> = (int n, None)"
    using n parse_digits_show [of n] by (simp add: parse_signed_def s)
  finally show ?thesis .
qed

lemma show_nat_digits: "c \<in> set (show_nat n) \<Longrightarrow> 48 \<le> byte c \<and> byte c \<le> 57"
proof (induction n arbitrary: c rule: show_nat.induct)
  case (1 n)
  have d: "n mod 10 < 10" by simp
  show ?case
  proof (cases "n < 10")
    case True
    then have "c = char_of (48 + n)" using "1.prems" by (subst (asm) show_nat.simps) simp
    then show ?thesis using True by (simp add: byte_char_of)
  next
    case False
    then have "c \<in> set (show_nat (n div 10)) \<or> c = char_of (48 + n mod 10)"
      using "1.prems" by (subst (asm) show_nat.simps) auto
    then show ?thesis using "1.IH" [OF False] d by (auto simp: byte_char_of)
  qed
qed

lemma show_nat_nonempty: "show_nat n \<noteq> []"
  using show_nat_plain [of n] by (simp add: plain_word_def)

lemma last_show_nat: "48 \<le> byte (last (show_nat n)) \<and> byte (last (show_nat n)) \<le> 57"
  by (rule show_nat_digits [of _ n]) (simp add: show_nat_nonempty del: show_nat.simps)

lemma show_nat_no_p: "CHR ''p'' \<notin> set (show_nat n)"
  using show_nat_digits [of "CHR ''p''" n] by auto

end
