(* ===== verification/Metrics_Model.thy ===== *)
theory Metrics_Model
  imports Go_Float Go_Strings "HOL-Library.AList"
begin

text \<open>
  The data of \<open>internal/model\<close>: the structures that collectors, storage and API exchange.
  \<open>float64\<close> is \<open>f64\<close>, \<open>uint64\<close> is \<open>u64\<close>, \<open>time.Time\<close> is \<open>go_time\<close>.

  A Go map with string keys is an association list with distinct keys.  Iterating over a map
  visits the keys in an unspecified order: a function that does so takes that order as an
  argument, a list \<open>ord\<close> with \<open>range_order ord m\<close>.
\<close>

section \<open>CPU\<close>

record cpu_ticks =
  ct_ID :: string
  ct_User :: u64
  ct_Nice :: u64
  ct_System :: u64
  ct_Idle :: u64
  ct_IOWait :: u64
  ct_IRQ :: u64
  ct_SoftIRQ :: u64
  ct_Steal :: u64
  ct_Guest :: u64
  ct_GuestNice :: u64

definition CPU_Total :: "cpu_ticks \<Rightarrow> u64" where
  "CPU_Total c = ct_User c + ct_Nice c + ct_System c + ct_Idle c + ct_IOWait c + ct_IRQ c
     + ct_SoftIRQ c + ct_Steal c"

definition CPU_IdleTotal :: "cpu_ticks \<Rightarrow> u64" where
  "CPU_IdleTotal c = ct_Idle c + ct_IOWait c"

definition CPU_NonIdleTotal :: "cpu_ticks \<Rightarrow> u64" where
  "CPU_NonIdleTotal c = ct_User c + ct_Nice c + ct_System c + ct_IRQ c + ct_SoftIRQ c + ct_Steal c"

record core_usage =
  cu_ID :: string
  cu_TotalUsage :: f64
  cu_UserUsage :: f64
  cu_SystemUsage :: f64
  cu_IOWaitUsage :: f64
  cu_StealUsage :: f64

record cpu_stats =
  cs_Timestamp :: go_time
  cs_TotalUsage :: f64
  cs_UserUsage :: f64
  cs_SystemUsage :: f64
  cs_IOWaitUsage :: f64
  cs_Cores :: "core_usage list"

section \<open>Memory\<close>

record mem_stats =
  ms_Timestamp :: go_time
  ms_TotalBytes :: u64
  ms_FreeBytes :: u64
  ms_AvailableBytes :: u64
  ms_BuffersBytes :: u64
  ms_CachedBytes :: u64
  ms_UsedBytes :: u64
  ms_UsedPercent :: f64
  ms_SwapTotalBytes :: u64
  ms_SwapFreeBytes :: u64
  ms_SwapUsedBytes :: u64
  ms_SwapUsedPercent :: f64

section \<open>Disk\<close>

record raw_disk_stats =
  rd_Major :: int
  rd_Minor :: int
  rd_DeviceName :: string
  rd_ReadsCompleted :: u64
  rd_ReadsMerged :: u64
  rd_SectorsRead :: u64
  rd_ReadTimeMs :: u64
  rd_WritesCompleted :: u64
  rd_WritesMerged :: u64
  rd_SectorsWritten :: u64
  rd_WriteTimeMs :: u64
  rd_IOInProgress :: u64
  rd_IOTimeMs :: u64
  rd_WeightedIOTime :: u64

record disk_device_stats =
  dd_Device :: string
  dd_ReadBytes :: u64
  dd_WriteBytes :: u64
  dd_ReadBytesPerSec :: f64
  dd_WriteBytesPerSec :: f64
  dd_ReadIOPS :: f64
  dd_WriteIOPS :: f64
  dd_IOTimeMs :: u64

record disk_stats =
  ds_Timestamp :: go_time
  ds_TotalReadBytesPerSec :: f64
  ds_TotalWriteBytesPerSec :: f64
  ds_TotalReadIOPS :: f64
  ds_TotalWriteIOPS :: f64
  ds_Devices :: "disk_device_stats list"

section \<open>Network\<close>

record raw_net_stats =
  rn_Interface :: string
  rn_RxBytes :: u64
  rn_RxPackets :: u64
  rn_RxErrors :: u64
  rn_RxDrops :: u64
  rn_TxBytes :: u64
  rn_TxPackets :: u64
  rn_TxErrors :: u64
  rn_TxDrops :: u64

record net_interface_stats =
  ni_Name :: string
  ni_RxBytes :: u64
  ni_TxBytes :: u64
  ni_RxBytesPerSec :: f64
  ni_TxBytesPerSec :: f64
  ni_RxPacketsPerSec :: f64
  ni_TxPacketsPerSec :: f64
  ni_RxErrors :: u64
  ni_TxErrors :: u64
  ni_RxDrops :: u64
  ni_TxDrops :: u64

record net_stats =
  ns_Timestamp :: go_time
  ns_TotalRxBytesPerSec :: f64
  ns_TotalTxBytesPerSec :: f64
  ns_Interfaces :: "net_interface_stats list"

record system_snapshot =
  ss_Timestamp :: go_time
  ss_CPU :: cpu_stats
  ss_Memory :: mem_stats
  ss_Disk :: disk_stats
  ss_Network :: net_stats

section \<open>Logs\<close>

record log_entry =
  le_ID :: int
  le_Timestamp :: go_time
  le_Level :: string
  le_Service :: string
  le_Message :: string
  le_Attributes :: "(string \<times> string) list"

record log_filter =
  lf_StartTime :: "go_time option"
  lf_EndTime :: "go_time option"
  lf_Level :: string
  lf_Service :: string
  lf_Search :: string
  lf_Limit :: int
  lf_Offset :: int

section \<open>Maps\<close>

definition range_order :: "'k list \<Rightarrow> ('k \<times> 'v) list \<Rightarrow> bool" where
  "range_order ord m \<longleftrightarrow> distinct ord \<and> set ord = fst ` set m"

text \<open>Reading a missing key yields the zero value of the element type.\<close>

definition map_get :: "'v \<Rightarrow> ('k \<times> 'v) list \<Rightarrow> 'k \<Rightarrow> 'v" where
  "map_get zero m k = (case map_of m k of None \<Rightarrow> zero | Some v \<Rightarrow> v)"

lemma range_order_keys: "distinct (map fst m) \<Longrightarrow> range_order (map fst m) m"
  by (simp add: range_order_def)

lemma range_order_length:
  "range_order ord m \<Longrightarrow> distinct (map fst m) \<Longrightarrow> length ord = length m"
  using distinct_card [of ord] distinct_card [of "map fst m"]
  by (simp add: range_order_def)

lemma range_order_map_of: "range_order ord m \<Longrightarrow> k \<in> set ord \<Longrightarrow> \<exists>v. map_of m k = Some v"
  by (metis image_iff map_of_eq_None_iff not_Some_eq range_order_def)

lemma set_update_subset: "set (AList.update k v m) \<subseteq> insert (k, v) (set m)"
  by (induction m) auto

lemma update_fresh: "k \<notin> fst ` set m \<Longrightarrow> AList.update k v m = m @ [(k, v)]"
  by (induction m) auto

lemma sort_key_map: "sort_key f (map g xs) = map g (sort_key (\<lambda>x. f (g x)) xs)"
proof (induction xs)
  case (Cons x xs)
  have "insort_key f (g x) (map g ys) = map g (insort_key (\<lambda>x. f (g x)) x ys)" for ys
    by (induction ys) auto
  with Cons show ?case by simp
qed simp

text \<open>The errors the collectors return.\<close>

datatype collect_error =
    OpenFailed
  | ScanFailed scan_error
  | NoCpuMetrics
  | NoMemMetrics
  | MemTotalZero

text \<open>A file of the proc file system: \<open>None\<close> when \<open>Open\<close> fails.\<close>

type_synonym proc_file = "reader option"

lemma CPU_Total_split: "CPU_Total c = CPU_IdleTotal c + CPU_NonIdleTotal c"
  by (simp add: CPU_Total_def CPU_IdleTotal_def CPU_NonIdleTotal_def algebra_simps)

end
