(* ===== verification/Percent.thy ===== *)
theory Percent
  imports Go_Float
begin

text \<open>
  \<open>roundFloat\<close> and \<open>clampPercentage\<close> of \<open>internal/collector/cpu.go\<close>, which all collectors
  use, with their bounds and their accuracy.
\<close>

text \<open>\<open>math.Pow(10, precision)\<close> is exact for the precisions in use.\<close>

definition roundFloat :: "f64 \<Rightarrow> nat \<Rightarrow> f64" where
  "roundFloat val precision =
     (let ratio = 10 ^ precision in f64_div (math_Round (f64_mul val ratio)) ratio)"

definition clampPercentage :: "f64 \<Rightarrow> f64" where
  "clampPercentage v = (if v < 0 then 0 else if v > 100 then 100 else v)"

lemma clampPercentage_bounds: "0 \<le> clampPercentage v" "clampPercentage v \<le> 100"
  by (simp_all add: clampPercentage_def)

lemma clampPercentage_id: "0 \<le> v \<Longrightarrow> v \<le> 100 \<Longrightarrow> clampPercentage v = v"
  by (simp add: clampPercentage_def)

lemma clampPercentage_nonpos: "v \<le> 0 \<Longrightarrow> clampPercentage v = 0"
  by (simp add: clampPercentage_def)

lemma clampPercentage_close:
  "0 \<le> t \<Longrightarrow> t \<le> 100 \<Longrightarrow> \<bar>v - t\<bar> \<le> e \<Longrightarrow> \<bar>clampPercentage v - t\<bar> \<le> e"
  by (auto simp: clampPercentage_def)

lemma math_Round_error: "\<bar>math_Round x - x\<bar> \<le> 1 / 2"
proof -
  have "\<bar>of_int \<lfloor>y + 1 / 2\<rfloor> - y\<bar> \<le> 1 / 2" for y :: rat
    using floor_correct [of "y + 1 / 2"] by (intro abs_leI) linarith+
  note near = abs_le_D1 [OF this] abs_le_D2 [OF this]
  from near [of x] near [of "- x"] show ?thesis
    unfolding math_Round_def by (cases "0 \<le> x") (intro abs_leI; simp)+
qed

lemma math_Round_mono: "x \<le> y \<Longrightarrow> math_Round x \<le> math_Round y"
proof -
  assume le: "x \<le> y"
  have nonneg: "0 \<le> \<lfloor>y + 1 / 2\<rfloor>" if "0 \<le> y" for y :: rat using that by simp
  have "- \<lfloor>- x + 1 / 2\<rfloor> \<le> \<lfloor>y + 1 / 2\<rfloor>" if "x < 0" "0 \<le> y"
    using nonneg [of "- x"] nonneg [of y] that by linarith
  with le show ?thesis unfolding math_Round_def
    by (auto simp: of_int_le_iff intro!: floor_mono)
qed

lemma math_Round_of_int [simp]: "math_Round (of_int n) = of_int n"
proof -
  have "\<lfloor>of_int m + 1 / 2 :: rat\<rfloor> = m" for m by (intro floor_unique) auto
  from this [of n] this [of "- n"] show ?thesis by (simp add: math_Round_def)
qed

lemma roundFloat_mono: "x \<le> y \<Longrightarrow> roundFloat x p \<le> roundFloat y p"
  by (auto simp: roundFloat_def f64_div_def f64_mul_def Let_def
      intro!: fl_mono divide_right_mono math_Round_mono mult_right_mono)

lemma roundFloat_0 [simp]: "roundFloat 0 p = 0"
  using math_Round_of_int [of 0] by (simp add: roundFloat_def f64_div_def f64_mul_def Let_def)

lemma roundFloat_nonneg: "0 \<le> x \<Longrightarrow> 0 \<le> roundFloat x p"
  using roundFloat_mono [of 0 x p] by simp

lemma roundFloat_nonpos: "x \<le> 0 \<Longrightarrow> roundFloat x p \<le> 0"
  using roundFloat_mono [of x 0 p] by simp

text \<open>Rounding to two decimals, from a value within \<open>d\<close> of the exact one.\<close>

lemma roundFloat_100: "roundFloat 100 2 = 100"
  by code_simp

section \<open>Percentages\<close>

text \<open>
  \<open>percent q\<close> is the expression the program writes for a quotient \<open>q\<close>; its error is half of
  the last printed digit plus the roundings of the arithmetic.
\<close>

abbreviation percent :: "rat \<Rightarrow> f64" where
  "percent q \<equiv> clampPercentage (roundFloat (f64_mul (fl q) 100) 2)"

lemma unscale_close: "\<bar>x - 10000 * t\<bar> \<le> 100 * d \<Longrightarrow> \<bar>x / 100 - 100 * t\<bar> \<le> (d :: rat)"
  by (simp add: abs_le_iff)

lemma percent_close:
  assumes q: "\<bar>q - t\<bar> \<le> 10 / 2 ^ 53" and t: "0 \<le> t" "t \<le> 1"
  shows "\<bar>percent q - 100 * t\<bar> \<le> 1 / 200 + 2000 / 2 ^ 53"
proof -
  define h where "h = fl (fl (fl q * 100) * 100)"
  have "\<bar>h - 10000 * t\<bar> \<le> 160000 / 2 ^ 53"
    unfolding h_def using q t by (rule f64.hundredths_close)
  with math_Round_error [of h] have "\<bar>math_Round h - 10000 * t\<bar> \<le> 1 / 2 + 160000 / 2 ^ 53"
    by linarith
  then have "\<bar>math_Round h / 100 - 100 * t\<bar> \<le> 1 / 200 + 1600 / 2 ^ 53"
    by (intro unscale_close) simp
  then have "\<bar>fl (math_Round h / 100) - 100 * t\<bar> \<le> 1 / 200 + 2000 / 2 ^ 53"
    by (rule f64.rnd_close [of _ _ _ 200]) (use t in auto)
  moreover have "roundFloat (f64_mul (fl q) 100) 2 = fl (math_Round h / 100)"
    by (simp add: roundFloat_def f64_mul_def f64_div_def h_def)
  ultimately show ?thesis using t by (intro clampPercentage_close) auto
qed

text \<open>Two 64-bit counters, a part and the whole.\<close>

lemma f64_of_u64_close: "\<bar>f64_of_u64 w - of_nat (unat w)\<bar> \<le> 1 / 2 ^ 53 * of_nat (unat w)"
  using f64.error [of "of_nat (unat w)"] by (simp only: f64_of_u64_def abs_of_nat)

lemma u64_rat_pos: "0 < w \<Longrightarrow> 0 < (of_nat (unat w) :: rat)" for w :: u64
  by (simp only: of_nat_0_less_iff unat_gt_0 word_greater_zero_iff simp_thms)

lemma u64_pos: "0 < unat w \<Longrightarrow> 0 < w" for w :: u64
  by (simp only: unat_gt_0 word_greater_zero_iff simp_thms)

lemma u64_rat_le: "v \<le> w \<Longrightarrow> (of_nat (unat v) :: rat) \<le> of_nat (unat w)" for v w :: u64
  by (simp only: of_nat_le_iff word_le_nat_alt)

lemma u64_rat_nonneg: "0 \<le> (of_nat (unat w) :: rat)" for w :: u64
  by (rule of_nat_0_le_iff)

lemma f64_of_u64_nonneg: "0 \<le> f64_of_u64 w"
  unfolding f64_of_u64_def by (rule fl_nonneg) (rule u64_rat_nonneg)

lemma f64_of_u64_pos: "0 < w \<Longrightarrow> 0 < f64_of_u64 w"
  using less_le_trans [OF pow2_pos fl_pos_bounds(1) [OF u64_rat_pos]]
  by (simp only: f64_of_u64_def)

lemma percent_of_counters:
  assumes "0 < b" "a \<le> b"
  shows "\<bar>percent (f64_of_u64 a / f64_of_u64 b) - 100 * (of_nat (unat a) / of_nat (unat b))\<bar>
    \<le> 1 / 200 + 2000 / 2 ^ 53"
proof -
  let ?a = "of_nat (unat a) :: rat" and ?b = "of_nat (unat b) :: rat"
  have ab: "0 < ?b" "0 \<le> ?a" "?a \<le> ?b"
    using assms by (simp_all only: u64_rat_pos u64_rat_le u64_rat_nonneg)
  have "1 / 2 ^ 53 * ?a \<le> 4 / 2 ^ 53 * ?b" using ab by (intro mult_mono) auto
  with f64_of_u64_close [of a] have "\<bar>f64_of_u64 a - ?a\<bar> \<le> 4 / 2 ^ 53 * ?b"
    by (rule order_trans)
  from f64.quotient_close(2) [OF ab this f64_of_u64_close]
  show ?thesis by (rule percent_close) (use ab in auto)
qed

text \<open>The whole less a part, as the total CPU usage is computed.\<close>

lemma percent_of_rest:
  assumes "0 < b" "a \<le> b"
  shows "\<bar>percent (f64_sub (f64_of_u64 b) (f64_of_u64 a) / f64_of_u64 b)
     - 100 * (of_nat (unat b - unat a) / of_nat (unat b))\<bar> \<le> 1 / 200 + 2000 / 2 ^ 53"
proof -
  let ?a = "of_nat (unat a) :: rat" and ?b = "of_nat (unat b) :: rat"
  let ?A = "f64_of_u64 a" and ?B = "f64_of_u64 b"
  have nat: "unat a \<le> unat b" using assms by (simp add: word_le_nat_alt)
  have ab: "0 < ?b" "0 \<le> ?a" "?a \<le> ?b"
    using assms by (simp_all only: u64_rat_pos u64_rat_le u64_rat_nonneg)
  have "1 / 2 ^ 53 * ?a \<le> 1 / 2 ^ 53 * ?b" using ab by (intro mult_left_mono) auto
  with f64_of_u64_close [of a] have A: "\<bar>?A - ?a\<bar> \<le> 1 / 2 ^ 53 * ?b" by (rule order_trans)
  have "(?B - ?A) - (?b - ?a) = (?B - ?b) - (?A - ?a)" by simp
  then have "\<bar>(?B - ?A) - (?b - ?a)\<bar> \<le> \<bar>?B - ?b\<bar> + \<bar>?A - ?a\<bar>"
    by (metis abs_triangle_ineq4)
  also have "\<dots> \<le> 1 / 2 ^ 53 * ?b + 1 / 2 ^ 53 * ?b" by (intro add_mono f64_of_u64_close A)
  finally have "\<bar>(?B - ?A) - (?b - ?a)\<bar> \<le> 2 / 2 ^ 53 * ?b" by simp
  then have "\<bar>fl (?B - ?A) - (?b - ?a)\<bar> \<le> 4 / 2 ^ 53 * ?b"
    by (rule f64.rnd_close [of _ _ _ "2 * ?b"]) (use ab in auto)
  then have "\<bar>f64_sub ?B ?A - of_nat (unat b - unat a)\<bar> \<le> 4 / 2 ^ 53 * ?b"
    using nat by (simp add: f64_sub_def)
  from f64.quotient_close(2) [OF ab(1) _ _ this f64_of_u64_close]
  show ?thesis by (rule percent_close) (use ab nat in auto)
qed

end
