(* ===== verification/Delta_Collector.thy ===== *)
theory Delta_Collector
  imports Metrics_Model
begin

text \<open>
  The contract that the CPU, disk and network collectors share.  A collector keeps the last
  snapshot it has parsed.  \<open>Collect\<close> either fails and changes nothing, or returns a baseline
  (first success) or the delta against the last snapshot, and keeps the new one.

  \<open>'env\<close> is what a call reads from its environment: the clock and the iteration order of
  the parsed map.  \<open>parse f env\<close> is the error or the snapshot of the file, and \<open>env_ok s env\<close>
  says that the environment's iteration order fits the snapshot.  The outer option of
  \<open>collect\<close> is \<open>None\<close> for a panic.
\<close>

fun collect_run ::
  "('st \<Rightarrow> 'file \<Rightarrow> 'env \<Rightarrow> (('err + 'out) \<times> 'st) option) \<Rightarrow> 'st \<Rightarrow> ('file \<times> 'env) list \<Rightarrow>
    (('err + 'out) list \<times> 'st) option" where
  "collect_run collect st [] = Some ([], st)"
| "collect_run collect st ((f, env) # ins) = do {
     (out, st1) \<leftarrow> collect st f env;
     (outs, st2) \<leftarrow> collect_run collect st1 ins;
     Some (out # outs, st2)
   }"

text \<open>What the calls return, given the last snapshot: each success is compared with the
  most recent success before it.\<close>

fun delta_outs ::
  "('file \<Rightarrow> 'env \<Rightarrow> 'err + 'snap) \<Rightarrow> ('env \<Rightarrow> 'snap \<Rightarrow> 'out) \<Rightarrow> ('env \<Rightarrow> 'snap \<Rightarrow> 'snap \<Rightarrow> 'out) \<Rightarrow>
    'snap option \<Rightarrow> ('file \<times> 'env) list \<Rightarrow> ('err + 'out) list" where
  "delta_outs parse baseline delta prior [] = []"
| "delta_outs parse baseline delta prior ((f, env) # ins) = (case parse f env of
     Inl e \<Rightarrow> Inl e # delta_outs parse baseline delta prior ins
   | Inr s \<Rightarrow> Inr (case prior of None \<Rightarrow> baseline env s | Some p \<Rightarrow> delta env p s)
       # delta_outs parse baseline delta (Some s) ins)"

definition inputs_ok :: "('file \<Rightarrow> 'env \<Rightarrow> 'err + 'snap) \<Rightarrow> ('snap \<Rightarrow> 'env \<Rightarrow> bool) \<Rightarrow>
    ('file \<times> 'env) list \<Rightarrow> bool" where
  "inputs_ok parse env_ok ins \<longleftrightarrow>
     (\<forall>(f, env) \<in> set ins. \<forall>s. parse f env = Inr s \<longrightarrow> env_ok s env)"

locale delta_collector =
  fixes collect :: "'st \<Rightarrow> 'file \<Rightarrow> 'env \<Rightarrow> (('err + 'out) \<times> 'st) option"
    and prior :: "'st \<Rightarrow> 'snap option"
    and parse :: "'file \<Rightarrow> 'env \<Rightarrow> 'err + 'snap"
    and env_ok :: "'snap \<Rightarrow> 'env \<Rightarrow> bool"
    and baseline :: "'env \<Rightarrow> 'snap \<Rightarrow> 'out"
    and delta :: "'env \<Rightarrow> 'snap \<Rightarrow> 'snap \<Rightarrow> 'out"
  assumes failing: "parse f env = Inl e \<Longrightarrow> collect st f env = Some (Inl e, st)"
    and first: "parse f env = Inr s \<Longrightarrow> env_ok s env \<Longrightarrow> prior st = None \<Longrightarrow>
      \<exists>st'. collect st f env = Some (Inr (baseline env s), st') \<and> prior st' = Some s"
    and further: "parse f env = Inr s \<Longrightarrow> env_ok s env \<Longrightarrow> prior st = Some p \<Longrightarrow>
      \<exists>st'. collect st f env = Some (Inr (delta env p s), st') \<and> prior st' = Some s"
begin

lemma success:
  assumes "parse f env = Inr s" "env_ok s env"
  shows "\<exists>st'. collect st f env =
      Some (Inr (case prior st of None \<Rightarrow> baseline env s | Some p \<Rightarrow> delta env p s), st') \<and>
    prior st' = Some s"
  using first [OF assms] further [OF assms] by (cases "prior st") auto

lemma run_outs:
  assumes "inputs_ok parse env_ok ins"
  shows "\<exists>st'. collect_run collect st ins = Some (delta_outs parse baseline delta (prior st) ins, st')"
  using assms
proof (induction ins arbitrary: st)
  case Nil
  then show ?case by simp
next
  case (Cons i ins)
  obtain f env where i: "i = (f, env)" by (cases i)
  have rest: "inputs_ok parse env_ok ins" using Cons.prems by (simp add: inputs_ok_def)
  show ?case
  proof (cases "parse f env")
    case (Inl e)
    with Cons.IH [OF rest, of st] show ?thesis by (auto simp: i failing)
  next
    case (Inr s)
    with Cons.prems have "env_ok s env" by (simp add: inputs_ok_def i)
    from success [OF Inr this, of st] obtain st1 where st1:
      "collect st f env =
        Some (Inr (case prior st of None \<Rightarrow> baseline env s | Some p \<Rightarrow> delta env p s), st1)"
      "prior st1 = Some s" by blast
    from Cons.IH [OF rest, of st1] st1 Inr show ?thesis by (auto simp: i)
  qed
qed

end

section \<open>Files and iteration orders\<close>

text \<open>A collector reads a file (\<open>None\<close> when it cannot be opened); its snapshot is the parsed map with
  the time of the call.  \<open>fits\<close> says that the iteration order handed to the call is one of the
  parsed map.\<close>

definition parse_file :: "('r \<Rightarrow> collect_error + 'm) \<Rightarrow> 'r option \<Rightarrow> go_time \<times> 'k list \<Rightarrow>
    collect_error + (go_time \<times> 'm)" where
  "parse_file parse file env = (case file of
     None \<Rightarrow> Inl OpenFailed
   | Some r \<Rightarrow> (case parse r of Inl e \<Rightarrow> Inl e | Inr m \<Rightarrow> Inr (fst env, m)))"

definition fits :: "go_time \<times> ('k \<times> 'v) list \<Rightarrow> go_time \<times> 'k list \<Rightarrow> bool" where
  "fits s env \<longleftrightarrow> range_order (snd env) (snd s)"

end
