(* ===== verification/Cpu_Collector.thy ===== *)
theory Cpu_Collector
  imports Metrics_Model Percent Delta_Collector
begin

text \<open>
  The CPU collector, \<open>internal/collector/cpu.go\<close>: the parser of \<open>/proc/stat\<close>, the delta
  between two tick snapshots and the stateful \<open>Collect\<close>.
\<close>

section \<open>Parsing /proc/stat\<close>

definition isCoreLabel :: "string \<Rightarrow> bool" where
  "isCoreLabel s \<longleftrightarrow> \<not> (\<not> HasPrefix s ''cpu'' \<or> length s \<le> 3) \<and> snd (Atoi (drop 3 s)) = None"

definition parseField :: "string list \<Rightarrow> nat \<Rightarrow> u64" where
  "parseField fs idx = (if idx < length fs then fst (ParseUint (fs ! idx)) else 0)"

text \<open>One line of the loop; \<open>None\<close> is \<open>continue\<close>.\<close>

definition parse_stat_line :: "string \<Rightarrow> cpu_ticks option" where
  "parse_stat_line line =
     (if \<not> HasPrefix line ''cpu'' then None
      else let fs = Fields line in
        if length fs < 5 then None
        else let id = fs ! 0 in
          if id \<noteq> ''cpu'' \<and> \<not> isCoreLabel id then None
          else Some \<lparr>ct_ID = id, ct_User = parseField fs 1, ct_Nice = parseField fs 2,
                 ct_System = parseField fs 3, ct_Idle = parseField fs 4,
                 ct_IOWait = parseField fs 5, ct_IRQ = parseField fs 6,
                 ct_SoftIRQ = parseField fs 7, ct_Steal = parseField fs 8,
                 ct_Guest = parseField fs 9, ct_GuestNice = parseField fs 10\<rparr>)"

fun stat_loop :: "string list \<Rightarrow> (string \<times> cpu_ticks) list \<Rightarrow> (string \<times> cpu_ticks) list" where
  "stat_loop [] result = result"
| "stat_loop (line # ls) result = (case parse_stat_line line of
     None \<Rightarrow> stat_loop ls result
   | Some t \<Rightarrow> stat_loop ls (AList.update (ct_ID t) t result))"

definition ParseProcStat :: "reader \<Rightarrow> collect_error + (string \<times> cpu_ticks) list" where
  "ParseProcStat r = (case Scan r of (ls, err) \<Rightarrow>
     let result = stat_loop ls [] in
     (case err of
        Some e \<Rightarrow> Inl (ScanFailed e)
      | None \<Rightarrow> if length result = 0 then Inl NoCpuMetrics else Inr result))"

section \<open>Usage between two snapshots\<close>

text \<open>\<open>s[3:]\<close> panics on a string of less than three bytes.\<close>

definition coreIndex :: "string \<Rightarrow> int option" where
  "coreIndex s =
     (if s = ''cpu'' then Some (- 1)
      else do {
        t \<leftarrow> go_slice s 3 (int (length s));
        case Atoi t of (idx, err) \<Rightarrow> Some (if err \<noteq> None then 999999 else idx)
      })"

definition zero_ticks :: cpu_ticks where
  "zero_ticks = \<lparr>ct_ID = [], ct_User = 0, ct_Nice = 0, ct_System = 0, ct_Idle = 0, ct_IOWait = 0,
     ct_IRQ = 0, ct_SoftIRQ = 0, ct_Steal = 0, ct_Guest = 0, ct_GuestNice = 0\<rparr>"

definition zero_usage :: core_usage where
  "zero_usage = \<lparr>cu_ID = [], cu_TotalUsage = 0, cu_UserUsage = 0, cu_SystemUsage = 0,
     cu_IOWaitUsage = 0, cu_StealUsage = 0\<rparr>"

definition counter_usage :: "u64 \<Rightarrow> u64 \<Rightarrow> f64 \<Rightarrow> f64" where
  "counter_usage prev cur deltaTotal =
     (if cur \<ge> prev
      then clampPercentage (roundFloat
             (f64_mul (f64_div (f64_of_u64 (cur - prev)) deltaTotal) 100) 2)
      else 0)"

definition calculateDelta :: "cpu_ticks \<Rightarrow> cpu_ticks \<Rightarrow> core_usage" where
  "calculateDelta prev cur =
     (let usage = zero_usage\<lparr>cu_ID := ct_ID cur\<rparr>;
          prevIdle = CPU_IdleTotal prev; currIdle = CPU_IdleTotal cur;
          prevTotal = CPU_Total prev; currTotal = CPU_Total cur
      in if currTotal \<le> prevTotal then usage
         else let deltaTotal = f64_of_u64 (currTotal - prevTotal);
                  deltaIdle = f64_of_u64 (currIdle - prevIdle);
                  totalUsage = f64_mul (f64_div (f64_sub deltaTotal deltaIdle) deltaTotal) 100
           in usage\<lparr>
             cu_TotalUsage := clampPercentage (roundFloat totalUsage 2),
             cu_UserUsage := counter_usage (ct_User prev) (ct_User cur) deltaTotal,
             cu_SystemUsage := counter_usage (ct_System prev) (ct_System cur) deltaTotal,
             cu_IOWaitUsage := counter_usage (ct_IOWait prev) (ct_IOWait cur) deltaTotal,
             cu_StealUsage := counter_usage (ct_Steal prev) (ct_Steal cur) deltaTotal\<rparr>)"

text \<open>
  \<open>sort.Slice\<close> by core index.  The sort is not stable, and it runs on keys that were
  collected in an unspecified order: a stable sort of an arbitrary order gives exactly the
  same set of results.  With at least two elements every element is compared, so a key that
  is too short panics.
\<close>

definition sort_cores :: "('a \<Rightarrow> string) \<Rightarrow> 'a list \<Rightarrow> 'a list option" where
  "sort_cores label xs =
     (if 2 \<le> length xs \<and> (\<exists>x \<in> set xs. coreIndex (label x) = None) then None
      else Some (sort_key (\<lambda>x. the (coreIndex (label x))) xs))"

definition aggregate_usage ::
  "go_time \<Rightarrow> (string \<times> cpu_ticks) list \<Rightarrow> (string \<times> cpu_ticks) list \<Rightarrow> cpu_stats"
where
  "aggregate_usage now prev cur =
     (let stats = \<lparr>cs_Timestamp = now, cs_TotalUsage = 0, cs_UserUsage = 0,
            cs_SystemUsage = 0, cs_IOWaitUsage = 0, cs_Cores = []\<rparr>
      in case map_of cur ''cpu'' of
           None \<Rightarrow> stats
         | Some currAgg \<Rightarrow> (case map_of prev ''cpu'' of
             None \<Rightarrow> stats
           | Some prevAgg \<Rightarrow> let aggUsage = calculateDelta prevAgg currAgg in
               stats\<lparr>cs_TotalUsage := cu_TotalUsage aggUsage,
                     cs_UserUsage := cu_UserUsage aggUsage,
                     cs_SystemUsage := cu_SystemUsage aggUsage,
                     cs_IOWaitUsage := cu_IOWaitUsage aggUsage\<rparr>))"

text \<open>Reading \<open>curr[id]\<close> of a missing key would give the zero value; every \<open>id\<close> is a key.\<close>

fun core_entries :: "(string \<times> cpu_ticks) list \<Rightarrow> (string \<times> cpu_ticks) list \<Rightarrow> string list \<Rightarrow>
    core_usage list" where
  "core_entries prev cur [] = []"
| "core_entries prev cur (i # ids) =
     (let currCore = map_get zero_ticks cur i in case map_of prev i of
        Some prevCore \<Rightarrow> calculateDelta prevCore currCore # core_entries prev cur ids
      | None \<Rightarrow> core_entries prev cur ids)"

definition CalculateCPUUsage ::
  "go_time \<Rightarrow> string list \<Rightarrow> (string \<times> cpu_ticks) list \<Rightarrow> (string \<times> cpu_ticks) list \<Rightarrow> cpu_stats option"
where
  "CalculateCPUUsage now ord prev cur = do {
     let stats = aggregate_usage now prev cur;
     coreIDs \<leftarrow> sort_cores id (filter (\<lambda>i. i \<noteq> ''cpu'') ord);
     Some (stats\<lparr>cs_Cores := core_entries prev cur coreIDs\<rparr>)
   }"

section \<open>The collector\<close>

record cpu_collector =
  cc_lastTicks :: "(string \<times> cpu_ticks) list option"
  cc_lastTime :: go_time

definition NewCPUCollector :: cpu_collector where
  "NewCPUCollector = \<lparr>cc_lastTicks = None, cc_lastTime = zero_time\<rparr>"

definition zero_cpu_stats :: cpu_stats where
  "zero_cpu_stats = \<lparr>cs_Timestamp = zero_time, cs_TotalUsage = 0, cs_UserUsage = 0, cs_SystemUsage = 0,
     cs_IOWaitUsage = 0, cs_Cores = []\<rparr>"

text \<open>The clock \<open>now\<close> and the iteration order \<open>ord\<close> of the parsed map are inputs.\<close>

definition cpu_Collect :: "cpu_collector \<Rightarrow> proc_file \<Rightarrow> go_time \<Rightarrow> string list \<Rightarrow>
    ((collect_error + cpu_stats) \<times> cpu_collector) option" where
  "cpu_Collect c file now ord = (case file of
     None \<Rightarrow> Some (Inl OpenFailed, c)
   | Some r \<Rightarrow> (case ParseProcStat r of
       Inl e \<Rightarrow> Some (Inl e, c)
     | Inr currTicks \<Rightarrow> (case cc_lastTicks c of
         None \<Rightarrow> do {
           cores \<leftarrow> sort_cores cu_ID
             (map (\<lambda>i. zero_usage\<lparr>cu_ID := i\<rparr>) (filter (\<lambda>i. i \<noteq> ''cpu'') ord));
           Some (Inr (zero_cpu_stats\<lparr>cs_Timestamp := now, cs_Cores := cores\<rparr>),
             c\<lparr>cc_lastTicks := Some currTicks, cc_lastTime := now\<rparr>)
         }
       | Some lastTicks \<Rightarrow> do {
           stats \<leftarrow> CalculateCPUUsage now ord lastTicks currTicks;
           Some (Inr (stats\<lparr>cs_Timestamp := now\<rparr>),
             c\<lparr>cc_lastTicks := Some currTicks, cc_lastTime := now\<rparr>)
         })))"

section \<open>Lemmas: usage\<close>

lemma unat_diff_u64: "v \<le> w \<Longrightarrow> unat (w - v) = unat w - unat v" for v w :: u64
  by (simp add: unat_sub_if' word_le_nat_alt)

lemma counter_usage_bounds: "0 \<le> counter_usage p c d" "counter_usage p c d \<le> 100"
  by (simp_all add: counter_usage_def clampPercentage_bounds)

lemma calculateDelta_ID [simp]: "cu_ID (calculateDelta prev cur) = ct_ID cur"
  by (simp add: calculateDelta_def Let_def zero_usage_def)

lemma calculateDelta_TotalUsage:
  assumes "CPU_Total prev < CPU_Total cur"
  shows "cu_TotalUsage (calculateDelta prev cur) =
    percent (f64_sub (f64_of_u64 (CPU_Total cur - CPU_Total prev))
        (f64_of_u64 (CPU_IdleTotal cur - CPU_IdleTotal prev))
      / f64_of_u64 (CPU_Total cur - CPU_Total prev))"
proof -
  have "\<not> CPU_Total cur \<le> CPU_Total prev" using assms by (simp only: not_le)
  then show ?thesis by (simp add: calculateDelta_def Let_def f64_div_def)
qed

section \<open>Lemmas: the parser\<close>

definition cpu_label :: "string \<Rightarrow> bool" where
  "cpu_label s \<longleftrightarrow> s = ''cpu'' \<or> isCoreLabel s"

lemma coreIndex_label: "cpu_label s \<Longrightarrow> coreIndex s \<noteq> None"
  by (auto simp: cpu_label_def isCoreLabel_def coreIndex_def go_slice_def split: prod.splits)

lemma parse_stat_line_label: "parse_stat_line l = Some t \<Longrightarrow> cpu_label (ct_ID t)"
  by (auto simp: parse_stat_line_def Let_def cpu_label_def split: if_splits)

definition ticks_map :: "(string \<times> cpu_ticks) list \<Rightarrow> bool" where
  "ticks_map m \<longleftrightarrow> distinct (map fst m) \<and> (\<forall>(k, t) \<in> set m. ct_ID t = k \<and> cpu_label k)"

lemma ticks_map_update:
  "ticks_map m \<Longrightarrow> cpu_label (ct_ID t) \<Longrightarrow> ticks_map (AList.update (ct_ID t) t m)"
  using set_update_subset [of "ct_ID t" t m] by (auto simp: ticks_map_def distinct_update)

lemma stat_loop_ticks_map: "ticks_map m \<Longrightarrow> ticks_map (stat_loop ls m)"
  by (induction ls m rule: stat_loop.induct)
    (auto split: option.splits dest: parse_stat_line_label intro: ticks_map_update)

lemma ParseProcStat_ticks_map: "ParseProcStat r = Inr m \<Longrightarrow> ticks_map m"
  using stat_loop_ticks_map [of "[]" "fst (Scan r)"]
  by (auto simp: ParseProcStat_def Let_def ticks_map_def split: prod.splits option.splits if_splits)

lemma sort_cores_labels:
  "\<forall>x \<in> set xs. cpu_label (label x) \<Longrightarrow>
    sort_cores label xs = Some (sort_key (\<lambda>x. the (coreIndex (label x))) xs)"
  using coreIndex_label by (fastforce simp: sort_cores_def)

lemma range_order_labels:
  "ticks_map m \<Longrightarrow> range_order ord m \<Longrightarrow> k \<in> set ord \<Longrightarrow> cpu_label k"
  by (auto simp: ticks_map_def range_order_def)

definition sorted_cores :: "string list \<Rightarrow> string list" where
  "sorted_cores ord = sort_key (\<lambda>i. the (coreIndex i)) (filter (\<lambda>i. i \<noteq> ''cpu'') ord)"

lemma CalculateCPUUsage_eq:
  assumes "ticks_map cur" "range_order ord cur"
  shows "CalculateCPUUsage now ord prev cur =
    Some ((aggregate_usage now prev cur)\<lparr>cs_Cores := core_entries prev cur (sorted_cores ord)\<rparr>)"
  using sort_cores_labels [of "filter (\<lambda>i. i \<noteq> ''cpu'') ord" id] range_order_labels [OF assms]
  by (simp add: CalculateCPUUsage_def sorted_cores_def)

lemma core_entries_eq:
  assumes "ticks_map cur" "set ids \<subseteq> fst ` set cur"
  shows "map cu_ID (core_entries prev cur ids) = filter (\<lambda>i. map_of prev i \<noteq> None) ids"
  using assms(2)
proof (induction ids)
  case (Cons i ids)
  then obtain t where "map_of cur i = Some t"
    by (metis image_subset_iff insert_subset list.simps(15) map_of_eq_None_iff not_Some_eq)
  moreover from this have "ct_ID t = i"
    using assms(1) by (auto simp: ticks_map_def dest: map_of_SomeD)
  ultimately show ?case using Cons by (auto simp: map_get_def split: option.splits)
qed simp

lemma CalculateCPUUsage_cores:
  assumes cur: "ticks_map cur" "range_order ord cur"
    and stats: "CalculateCPUUsage now ord prev cur = Some stats"
  shows "map cu_ID (cs_Cores stats) = filter (\<lambda>i. map_of prev i \<noteq> None) (sorted_cores ord)"
proof -
  have "set (sorted_cores ord) \<subseteq> fst ` set cur"
    using cur(2) by (auto simp: sorted_cores_def range_order_def)
  from core_entries_eq [OF cur(1) this] show ?thesis
    using stats CalculateCPUUsage_eq [OF cur, of now prev] by auto
qed

lemma sorted_filter_key: "sorted (map f xs) \<Longrightarrow> sorted (map f (filter P xs))"
  by (induction xs) auto

section \<open>The collector meets the contract\<close>

text \<open>A snapshot is the parsed map with the time at which it was taken.\<close>

definition cpu_prior :: "cpu_collector \<Rightarrow> (go_time \<times> (string \<times> cpu_ticks) list) option" where
  "cpu_prior c = map_option (\<lambda>m. (cc_lastTime c, m)) (cc_lastTicks c)"

definition cpu_baseline :: "go_time \<times> string list \<Rightarrow> go_time \<times> (string \<times> cpu_ticks) list \<Rightarrow> cpu_stats" where
  "cpu_baseline env s = zero_cpu_stats\<lparr>cs_Timestamp := fst env,
     cs_Cores := map (\<lambda>i. zero_usage\<lparr>cu_ID := i\<rparr>) (sorted_cores (snd env))\<rparr>"

definition cpu_delta :: "go_time \<times> string list \<Rightarrow> go_time \<times> (string \<times> cpu_ticks) list \<Rightarrow>
    go_time \<times> (string \<times> cpu_ticks) list \<Rightarrow> cpu_stats" where
  "cpu_delta env p s =
     (aggregate_usage (fst env) (snd p) (snd s))\<lparr>cs_Cores := core_entries (snd p) (snd s)
        (sorted_cores (snd env))\<rparr>"

lemma baseline_cores:
  assumes "ticks_map m" "range_order ord m"
  shows "sort_cores cu_ID (map (\<lambda>i. zero_usage\<lparr>cu_ID := i\<rparr>) (filter (\<lambda>i. i \<noteq> ''cpu'') ord)) =
    Some (map (\<lambda>i. zero_usage\<lparr>cu_ID := i\<rparr>) (sorted_cores ord))"
  using range_order_labels [OF assms]
  by (subst sort_cores_labels) (auto simp: sorted_cores_def sort_key_map)

lemma aggregate_usage_Timestamp: "(aggregate_usage now p s)\<lparr>cs_Timestamp := now\<rparr> = aggregate_usage now p s"
  by (simp add: aggregate_usage_def Let_def split: option.split)

interpretation cpu: delta_collector
  "\<lambda>c file env. cpu_Collect c file (fst env) (snd env)" cpu_prior
  "parse_file ParseProcStat" fits cpu_baseline cpu_delta
proof unfold_locales
  fix f :: proc_file and env :: "go_time \<times> string list" and e s st p
  show "cpu_Collect st f (fst env) (snd env) = Some (Inl e, st)"
    if "parse_file ParseProcStat f env = Inl e"
    using that by (auto simp: parse_file_def cpu_Collect_def split: option.splits sum.splits)
  assume "parse_file ParseProcStat f env = Inr s" and ok: "fits s env"
  then obtain r m where f: "f = Some r" "ParseProcStat r = Inr m" "s = (fst env, m)"
    by (auto simp: parse_file_def split: option.splits sum.splits)
  have m: "ticks_map m" "range_order (snd env) m"
    using f ok ParseProcStat_ticks_map by (auto simp: fits_def)
  show "\<exists>st'. cpu_Collect st f (fst env) (snd env) = Some (Inr (cpu_baseline env s), st') \<and>
      cpu_prior st' = Some s" if "cpu_prior st = None"
    using that f by (simp add: cpu_Collect_def cpu_prior_def baseline_cores [OF m] cpu_baseline_def)
  show "\<exists>st'. cpu_Collect st f (fst env) (snd env) = Some (Inr (cpu_delta env p s), st') \<and>
      cpu_prior st' = Some s" if "cpu_prior st = Some p"
    using that f CalculateCPUUsage_eq [OF m]
    by (auto simp: cpu_Collect_def cpu_prior_def cpu_delta_def aggregate_usage_Timestamp)
       (metis (no_types) aggregate_usage_Timestamp cpu_stats.surjective cpu_stats.update_convs)
qed

section \<open>The format of the kernel\<close>

text \<open>The lines the kernel prints for the aggregate (two blanks after the label) and a core.\<close>

definition render_ticks :: "cpu_ticks \<Rightarrow> string" where
  "render_ticks t = ct_ID t @ (if ct_ID t = ''cpu'' then ''  '' else '' '') @
     Join (map (\<lambda>w. show_nat (unat w)) [ct_User t, ct_Nice t, ct_System t, ct_Idle t, ct_IOWait t,
       ct_IRQ t, ct_SoftIRQ t, ct_Steal t, ct_Guest t, ct_GuestNice t]) '' ''"

definition kernel_label :: "string \<Rightarrow> bool" where
  "kernel_label s \<longleftrightarrow> s = ''cpu'' \<or> (\<exists>n < 2 ^ 63. s = ''cpu'' @ show_nat n)"

lemma plain_word_append: "plain_word v \<Longrightarrow> plain_word w \<Longrightarrow> plain_word (v @ w)"
  by (auto simp: plain_word_def)

lemma plain_cpu: "plain_word ''cpu''"
  by (simp add: plain_word_def plain_char_def)

lemma kernel_label_plain: "kernel_label s \<Longrightarrow> plain_word s"
  using plain_word_append [OF plain_cpu show_nat_plain] plain_cpu
  by (auto simp: kernel_label_def)

lemma kernel_label_core: "kernel_label s \<Longrightarrow> s = ''cpu'' \<or> isCoreLabel s"
proof -
  have "isCoreLabel (''cpu'' @ show_nat n)" if "n < 2 ^ 63" for n
    using Atoi_show_nat [OF that] show_nat_plain [of n]
    by (simp add: isCoreLabel_def HasPrefix_def plain_word_def)
  then show "kernel_label s \<Longrightarrow> s = ''cpu'' \<or> isCoreLabel s" by (auto simp: kernel_label_def)
qed

lemma kernel_label_length: "kernel_label s \<Longrightarrow> length s \<le> 23"
proof -
  have "length (show_nat n) \<le> 20" if "n < 2 ^ 63" for n
  proof -
    note that
    also have "(2 :: nat) ^ 63 < 10 ^ Suc 19" by simp
    finally show ?thesis using length_show_nat [of n 19] by simp
  qed
  then show "kernel_label s \<Longrightarrow> length s \<le> 23" by (auto simp: kernel_label_def)
qed

lemma Fields_render_ticks:
  assumes "kernel_label (ct_ID t)"
  shows "Fields (render_ticks t) = ct_ID t # map (\<lambda>w. show_nat (unat w)) [ct_User t, ct_Nice t,
    ct_System t, ct_Idle t, ct_IOWait t, ct_IRQ t, ct_SoftIRQ t, ct_Steal t, ct_Guest t, ct_GuestNice t]"
    (is "_ = _ # ?nums")
proof -
  have nums: "Fields (Join ?nums '' '') = ?nums"
    by (rule Fields_words) (simp add: show_nat_plain)
  note word = Fields_word_blank [OF kernel_label_plain [OF assms]]
  show ?thesis unfolding render_ticks_def
    by (cases "ct_ID t = ''cpu''") (use word nums in \<open>simp_all add: Fields_blank del: Join.simps list.map\<close>)
qed

lemma parse_render_ticks:
  assumes "kernel_label (ct_ID t)"
  shows "parse_stat_line (render_ticks t) = Some t"
proof -
  have "HasPrefix (render_ticks t) ''cpu''"
    using assms by (auto simp: kernel_label_def render_ticks_def HasPrefix_def)
  moreover have "ct_ID t = ''cpu'' \<or> isCoreLabel (ct_ID t)" by (rule kernel_label_core [OF assms])
  ultimately show ?thesis
    by (auto simp: parse_stat_line_def Fields_render_ticks [OF assms] parseField_def ParseUint_show)
qed

lemma render_ticks_text_line:
  assumes "kernel_label (ct_ID t)"
  shows "text_line (render_ticks t)"
proof -
  let ?nums = "map (\<lambda>w. show_nat (unat w)) [ct_User t, ct_Nice t, ct_System t, ct_Idle t,
    ct_IOWait t, ct_IRQ t, ct_SoftIRQ t, ct_Steal t, ct_Guest t, ct_GuestNice t]"
  have "length (Join ?nums '' '') \<le> length ?nums * Suc 20"
    by (rule length_Join) (use length_show_u64 in auto)
  then have "length (render_ticks t) \<le> 300"
    using kernel_label_length [OF assms] by (simp add: render_ticks_def del: Join.simps)
  moreover have "CHR 0x0A \<notin> set (Join ?nums '' '') \<and> CHR 0x0D \<notin> set (Join ?nums '' '')"
    by (rule Join_newline) (simp add: show_nat_plain)
  ultimately show ?thesis
    using plain_word_newline [OF kernel_label_plain [OF assms]]
    by (simp add: text_line_def render_ticks_def MaxScanTokenSize_def del: Join.simps)
qed

lemma stat_loop_append: "stat_loop (xs @ ys) m = stat_loop ys (stat_loop xs m)"
  by (induction xs m rule: stat_loop.induct) (auto split: option.splits)

lemma stat_loop_skip:
  "\<forall>l \<in> set ls. \<not> HasPrefix l ''cpu'' \<Longrightarrow> stat_loop ls m = m"
  by (induction ls) (auto simp: parse_stat_line_def)

lemma stat_loop_render:
  assumes "\<forall>t \<in> set ts. kernel_label (ct_ID t)" "distinct (map fst m @ map ct_ID ts)"
  shows "stat_loop (map render_ticks ts) m = m @ map (\<lambda>t. (ct_ID t, t)) ts"
  using assms
proof (induction ts arbitrary: m)
  case (Cons t ts)
  then have "AList.update (ct_ID t) t m = m @ [(ct_ID t, t)]"
    by (intro update_fresh) auto
  with Cons show ?case by (simp add: parse_render_ticks)
qed simp

section \<open>Properties\<close>

text \<open>C19. Parsing what the kernel prints gives back the counters: for any non-empty list of CPU lines
  with distinct labels (the aggregate \<open>cpu\<close> and cores \<open>cpuN\<close>), surrounded by any other lines
  of \<open>/proc/stat\<close> that do not start with \<open>cpu\<close>, \<open>ParseProcStat\<close> succeeds and maps every label
  to exactly its ten 64-bit counters.\<close>

theorem parse_proc_stat_roundtrip:
  assumes "\<forall>t \<in> set ts. kernel_label (ct_ID t)" "distinct (map ct_ID ts)" "ts \<noteq> []"
    and "\<forall>l \<in> set pre \<union> set post. text_line l \<and> \<not> HasPrefix l ''cpu''"
  shows "ParseProcStat (unlines (pre @ map render_ticks ts @ post), False) =
    Inr (map (\<lambda>t. (ct_ID t, t)) ts)"
proof -
  have "Scan (unlines (pre @ map render_ticks ts @ post), False) = (pre @ map render_ticks ts @ post, None)"
    using assms(1,4) by (intro Scan_unlines) (auto intro: render_ticks_text_line)
  moreover have "stat_loop (pre @ map render_ticks ts @ post) [] = map (\<lambda>t. (ct_ID t, t)) ts"
    using assms stat_loop_skip [of pre] stat_loop_skip [of post] stat_loop_render [of ts "[]"]
    by (simp add: stat_loop_append)
  ultimately show ?thesis using assms(3) by (simp add: ParseProcStat_def)
qed

definition sample_ticks :: "string \<Rightarrow> u64 \<Rightarrow> u64 \<Rightarrow> u64 \<Rightarrow> cpu_ticks" where
  "sample_ticks i user idle iowait = zero_ticks\<lparr>ct_ID := i, ct_User := user, ct_Idle := idle,
     ct_IOWait := iowait\<rparr>"

lemma sample_ticks_sel [simp]:
  "ct_ID (sample_ticks i u d w) = i" "CPU_Total (sample_ticks i u d w) = u + d + w"
  "CPU_IdleTotal (sample_ticks i u d w) = d + w" "ct_User (sample_ticks i u d w) = u"
  by (simp_all add: sample_ticks_def zero_ticks_def CPU_Total_def CPU_IdleTotal_def)

theorem parse_proc_stat_roundtrip_witness:
  "ParseProcStat (unlines ([''btime 5''] @ map render_ticks
      [sample_ticks ''cpu'' 7 8 9, sample_ticks (''cpu'' @ show_nat 0) 7 8 9] @ [''intr 1 2'']), False) =
    Inr (map (\<lambda>t. (ct_ID t, t)) [sample_ticks ''cpu'' 7 8 9, sample_ticks (''cpu'' @ show_nat 0) 7 8 9])"
proof (rule parse_proc_stat_roundtrip)
  show "\<forall>t \<in> set [sample_ticks ''cpu'' 7 8 9, sample_ticks (''cpu'' @ show_nat 0) 7 8 9].
      kernel_label (ct_ID t)"
    by (auto simp: kernel_label_def intro!: exI [of _ 0])
  show "distinct (map ct_ID [sample_ticks ''cpu'' 7 8 9, sample_ticks (''cpu'' @ show_nat 0) 7 8 9])"
    using show_nat_plain [of 0] by (auto simp: plain_word_def)
qed (auto simp: text_line_def MaxScanTokenSize_def HasPrefix_def)

lemma total_usage_accurate:
  assumes "CPU_Total prev < CPU_Total cur" and "CPU_IdleTotal prev \<le> CPU_IdleTotal cur"
    and "unat (CPU_IdleTotal cur) - unat (CPU_IdleTotal prev) \<le>
      unat (CPU_Total cur) - unat (CPU_Total prev)"
  shows "\<bar>cu_TotalUsage (calculateDelta prev cur) -
      100 * (of_nat ((unat (CPU_Total cur) - unat (CPU_Total prev)) -
                     (unat (CPU_IdleTotal cur) - unat (CPU_IdleTotal prev))) /
             of_nat (unat (CPU_Total cur) - unat (CPU_Total prev)))\<bar>
    \<le> 1 / 200 + 2000 / 2 ^ 53"
proof -
  let ?t = "CPU_Total cur - CPU_Total prev" and ?i = "CPU_IdleTotal cur - CPU_IdleTotal prev"
  have t: "unat ?t = unat (CPU_Total cur) - unat (CPU_Total prev)"
    by (rule unat_diff_u64) (use assms(1) in auto)
  have i: "unat ?i = unat (CPU_IdleTotal cur) - unat (CPU_IdleTotal prev)"
    by (rule unat_diff_u64) (rule assms(2))
  have "0 < unat ?t" using assms(1) by (simp only: t word_less_nat_alt zero_less_diff)
  then have "0 < ?t" by (rule u64_pos)
  moreover have "?i \<le> ?t" using assms(3) by (simp only: word_le_nat_alt t i)
  ultimately show ?thesis
    using percent_of_rest [of ?t ?i] calculateDelta_TotalUsage [OF assms(1)] by (simp only: t i)
qed

lemma counter_usage_accurate:
  assumes "(usage, counter) \<in> {(cu_UserUsage, ct_User), (cu_SystemUsage, ct_System),
      (cu_IOWaitUsage, ct_IOWait), (cu_StealUsage, ct_Steal)}"
    and "CPU_Total prev < CPU_Total cur" and "counter prev \<le> counter cur"
    and "unat (counter cur) - unat (counter prev) \<le> unat (CPU_Total cur) - unat (CPU_Total prev)"
  shows "\<bar>usage (calculateDelta prev cur) -
      100 * (of_nat (unat (counter cur) - unat (counter prev)) /
             of_nat (unat (CPU_Total cur) - unat (CPU_Total prev)))\<bar> \<le> 1 / 200 + 2000 / 2 ^ 53"
proof -
  let ?t = "CPU_Total cur - CPU_Total prev" and ?c = "counter cur - counter prev"
  have t: "unat ?t = unat (CPU_Total cur) - unat (CPU_Total prev)"
    by (rule unat_diff_u64) (use assms(2) in auto)
  have c: "unat ?c = unat (counter cur) - unat (counter prev)"
    by (rule unat_diff_u64) (rule assms(3))
  have "0 < unat ?t" using assms(2) by (simp only: t word_less_nat_alt zero_less_diff)
  then have "0 < ?t" by (rule u64_pos)
  moreover have "?c \<le> ?t" using assms(4) by (simp only: word_le_nat_alt t c)
  moreover have "\<not> CPU_Total cur \<le> CPU_Total prev" using assms(2) by (simp only: not_le)
  then have "usage (calculateDelta prev cur) = percent (f64_of_u64 ?c / f64_of_u64 ?t)"
    using assms(1,3) by (auto simp: calculateDelta_def counter_usage_def Let_def f64_div_def)
  ultimately show ?thesis using percent_of_counters [of ?t ?c] by (simp only: t c)
qed

text \<open>C18. The CPU usage is accurate: when the total advanced, every reported percentage differs from the
  exact one by at most half of the last printed digit (0.005), plus \<open>2000 / 2 ^ 53\<close> for the rounding
  of the 64-bit counters and of the floating-point arithmetic.  This holds for the total usage (busy
  ticks) when the idle counters have not gone backwards and grew by no more than the total did, and
  for user, system, I/O-wait and steal when their counter has not gone backwards and grew by no more
  than the total.\<close>

theorem cpu_usage_accurate:
  assumes "CPU_Total prev < CPU_Total cur"
  defines "ticks \<equiv> unat (CPU_Total cur) - unat (CPU_Total prev)"
  shows "(CPU_IdleTotal prev \<le> CPU_IdleTotal cur \<and>
      unat (CPU_IdleTotal cur) - unat (CPU_IdleTotal prev) \<le> ticks \<longrightarrow>
    \<bar>cu_TotalUsage (calculateDelta prev cur) -
      100 * (of_nat (ticks - (unat (CPU_IdleTotal cur) - unat (CPU_IdleTotal prev))) / of_nat ticks)\<bar>
    \<le> 1 / 200 + 2000 / 2 ^ 53) \<and>
    (\<forall>(usage, counter) \<in> {(cu_UserUsage, ct_User), (cu_SystemUsage, ct_System),
        (cu_IOWaitUsage, ct_IOWait), (cu_StealUsage, ct_Steal)}.
      counter prev \<le> counter cur \<and> unat (counter cur) - unat (counter prev) \<le> ticks \<longrightarrow>
      \<bar>usage (calculateDelta prev cur) - 100 * (of_nat (unat (counter cur) - unat (counter prev)) / of_nat ticks)\<bar>
      \<le> 1 / 200 + 2000 / 2 ^ 53)"
  using total_usage_accurate [OF assms(1)] counter_usage_accurate [OF _ assms(1)] unfolding ticks_def by auto

theorem cpu_usage_accurate_witness:
  "\<bar>cu_TotalUsage (calculateDelta (sample_ticks ''cpu'' 10 20 5) (sample_ticks ''cpu'' 11 21 6)) -
      100 * (of_nat ((38 - 35) - (27 - 25)) / of_nat (38 - 35))\<bar> \<le> 1 / 200 + 2000 / 2 ^ 53 \<and>
   \<bar>cu_UserUsage (calculateDelta (sample_ticks ''cpu'' 10 20 5) (sample_ticks ''cpu'' 11 21 6)) -
      100 * (of_nat (11 - 10) / of_nat (38 - 35))\<bar> \<le> 1 / 200 + 2000 / 2 ^ 53"
  using cpu_usage_accurate [of "sample_ticks ''cpu'' 10 20 5" "sample_ticks ''cpu'' 11 21 6"] by simp

text \<open>A step back of the idle counters hides all load: the unsigned difference wraps around, and the
  total usage is reported as 0 percent.\<close>

lemma cpu_idle_step_back_reports_zero:
  assumes "CPU_Total prev < CPU_Total cur" and "CPU_IdleTotal cur < CPU_IdleTotal prev"
    and "unat (CPU_Total cur) - unat (CPU_Total prev) \<le> 2 ^ 63"
    and "unat (CPU_IdleTotal prev) - unat (CPU_IdleTotal cur) \<le> 2 ^ 63"
  shows "cu_TotalUsage (calculateDelta prev cur) = 0"
proof -
  let ?t = "CPU_Total cur - CPU_Total prev" and ?i = "CPU_IdleTotal cur - CPU_IdleTotal prev"
  have "unat ?t \<le> 2 ^ 63"
    using assms(1,3) by (simp add: unat_diff_u64)
  moreover have "2 ^ 63 \<le> unat ?i"
    using assms(2,4) by (simp add: unat_sub_if' word_less_nat_alt)
  ultimately have "unat ?t \<le> unat ?i" by (rule order_trans)
  then have "(of_nat (unat ?t) :: rat) \<le> of_nat (unat ?i)" by (simp only: of_nat_le_iff)
  then have le: "f64_of_u64 ?t \<le> f64_of_u64 ?i" by (simp only: f64_of_u64_def fl_mono)
  have "0 \<le> f64_of_u64 ?t" by (rule f64_of_u64_nonneg)
  then have "f64_sub (f64_of_u64 ?t) (f64_of_u64 ?i) / f64_of_u64 ?t \<le> 0"
    using le fl_mono [of "f64_of_u64 ?t - f64_of_u64 ?i" 0]
    by (intro divide_nonpos_nonneg) (simp_all add: f64_sub_def)
  then have "fl (f64_sub (f64_of_u64 ?t) (f64_of_u64 ?i) / f64_of_u64 ?t) \<le> 0"
    using fl_mono [of _ 0] by fastforce
  then have "f64_mul (fl (f64_sub (f64_of_u64 ?t) (f64_of_u64 ?i) / f64_of_u64 ?t)) 100 \<le> 0"
    unfolding f64_mul_def using fl_mono [of "_ * 100" 0] by fastforce
  from clampPercentage_nonpos [OF roundFloat_nonpos [OF this]] show ?thesis
    unfolding calculateDelta_TotalUsage [OF assms(1)] .
qed

text \<open>The list of cores is sorted by number and holds exactly the cores of both snapshots.\<close>

lemma cpu_usage_cores:
  assumes "ParseProcStat r1 = Inr prev" "ParseProcStat r2 = Inr cur" "range_order ord cur"
  shows "\<exists>stats. CalculateCPUUsage now ord prev cur = Some stats \<and>
    sorted (map (\<lambda>u. the (coreIndex (cu_ID u))) (cs_Cores stats)) \<and>
    distinct (map cu_ID (cs_Cores stats)) \<and>
    set (map cu_ID (cs_Cores stats)) = fst ` set prev \<inter> fst ` set cur - {''cpu''}"
proof -
  note cur = ParseProcStat_ticks_map [OF assms(2)] assms(3)
  from CalculateCPUUsage_eq [OF cur] obtain stats where
    stats: "CalculateCPUUsage now ord prev cur = Some stats" by blast
  note ids = CalculateCPUUsage_cores [OF cur this]
  have "map (\<lambda>u. the (coreIndex (cu_ID u))) (cs_Cores stats) =
      map (\<lambda>i. the (coreIndex i)) (filter (\<lambda>i. map_of prev i \<noteq> None) (sorted_cores ord))"
    by (simp only: ids [symmetric] map_map comp_def)
  moreover have "sorted (map (\<lambda>i. the (coreIndex i)) (sorted_cores ord))"
    by (simp add: sorted_cores_def)
  ultimately have "sorted (map (\<lambda>u. the (coreIndex (cu_ID u))) (cs_Cores stats))"
    by (simp only: sorted_filter_key)
  moreover have "distinct (map cu_ID (cs_Cores stats))"
    using assms(3) by (simp add: ids sorted_cores_def range_order_def)
  moreover have "set (map cu_ID (cs_Cores stats)) = fst ` set prev \<inter> fst ` set cur - {''cpu''}"
    using assms(3) by (auto simp: ids sorted_cores_def range_order_def map_of_eq_None_iff)
  ultimately show ?thesis using stats by blast
qed

text \<open>C17. Over any sequence of calls of \<open>Collect\<close>, with any files, clock readings and iteration
  orders: no call panics, a call whose file cannot be opened or parsed returns its error and
  leaves no trace, the first success returns the zero baseline for every core, and every later
  success returns the usage between the most recent earlier success and itself.\<close>

theorem cpu_collect_history:
  assumes "inputs_ok (parse_file ParseProcStat) fits ins"
  shows "\<exists>c. collect_run (\<lambda>c file env. cpu_Collect c file (fst env) (snd env)) NewCPUCollector ins =
    Some (delta_outs (parse_file ParseProcStat) cpu_baseline cpu_delta None ins, c)"
  using cpu.run_outs [OF assms, of NewCPUCollector] by (simp add: cpu_prior_def NewCPUCollector_def)

theorem cpu_collect_history_witness:
  "\<exists>c. collect_run (\<lambda>c file env. cpu_Collect c file (fst env) (snd env)) NewCPUCollector
      [(None, (1, [])), (Some (''cpu0 1 0 0 1'', False), (2, [''cpu0'']))] =
    Some (delta_outs (parse_file ParseProcStat) cpu_baseline cpu_delta None
      [(None, (1, [])), (Some (''cpu0 1 0 0 1'', False), (2, [''cpu0'']))], c)"
proof (rule cpu_collect_history)
  have "ParseProcStat (''cpu0 1 0 0 1'', False) = Inr [(''cpu0'', sample_ticks ''cpu0'' 1 1 0)]"
    by code_simp
  then show "inputs_ok (parse_file ParseProcStat) fits
      [(None, (1, [])), (Some (''cpu0 1 0 0 1'', False), (2, [''cpu0'']))]"
    by (auto simp: inputs_ok_def parse_file_def fits_def range_order_def)
qed

end
