(* ===== verification/Mem_Collector.thy ===== *)
theory Mem_Collector
  imports Metrics_Model Percent
begin

text \<open>
  The memory collector, \<open>internal/collector/mem.go\<close>: a stateless parser of
  \<open>/proc/meminfo\<close> that derives byte counts and percentages.  The Go function returns its
  structure together with the error, also when it fails; so does the model.
\<close>

section \<open>The lines\<close>

text \<open>One line of the loop: the key and its number, or \<open>None\<close> for \<open>continue\<close>.\<close>

definition parse_meminfo_line :: "string \<Rightarrow> (string \<times> u64) option" where
  "parse_meminfo_line line = (case IndexByte line (CHR '':'') of
     None \<Rightarrow> None
   | Some idx \<Rightarrow>
       (let key = TrimSpace (take idx line);
            valPart = TrimSpace (drop (idx + 1) line);
            fs = Fields valPart
        in if length fs = 0 then None
           else case ParseUint (fs ! 0) of (val, err) \<Rightarrow>
             if err \<noteq> None then None else Some (key, val)))"

fun meminfo_loop :: "string list \<Rightarrow> (string \<times> u64) list \<Rightarrow> (string \<times> u64) list" where
  "meminfo_loop [] rawKB = rawKB"
| "meminfo_loop (line # ls) rawKB = (case parse_meminfo_line line of
     None \<Rightarrow> meminfo_loop ls rawKB
   | Some (key, val) \<Rightarrow> meminfo_loop ls (AList.update key val rawKB))"

section \<open>The statistics\<close>

definition zero_mem_stats :: mem_stats where
  "zero_mem_stats = \<lparr>ms_Timestamp = zero_time, ms_TotalBytes = 0, ms_FreeBytes = 0,
     ms_AvailableBytes = 0, ms_BuffersBytes = 0, ms_CachedBytes = 0, ms_UsedBytes = 0,
     ms_UsedPercent = 0, ms_SwapTotalBytes = 0, ms_SwapFreeBytes = 0, ms_SwapUsedBytes = 0,
     ms_SwapUsedPercent = 0\<rparr>"

definition kbToBytes :: u64 where "kbToBytes = 1024"

text \<open>Dividing by a total of 0 would give NaN in Go, which \<open>f64\<close> does not have.  The callers rule it out
  for memory; for swap it needs a \<open>SwapTotal\<close> of a multiple of \<open>2 ^ 54\<close> kB, whose conversion wraps
  around to 0, and the lemmas below say nothing about that percentage.\<close>

definition bytes_percent :: "u64 \<Rightarrow> u64 \<Rightarrow> f64" where
  "bytes_percent used whole =
     clampPercentage (roundFloat (f64_mul (f64_div (f64_of_u64 used) (f64_of_u64 whole)) 100) 2)"

text \<open>\<open>UsedBytes\<close> and \<open>AvailableBytes\<close>, from \<open>MemAvailable\<close> or by the formula for old kernels.\<close>

definition available_branch :: "u64 \<Rightarrow> mem_stats \<Rightarrow> mem_stats" where
  "available_branch availKB stats =
     (let stats = stats\<lparr>ms_AvailableBytes := availKB * kbToBytes\<rparr>
      in if ms_TotalBytes stats \<ge> ms_AvailableBytes stats
         then stats\<lparr>ms_UsedBytes := ms_TotalBytes stats - ms_AvailableBytes stats\<rparr>
         else stats)"

definition legacy_branch :: "mem_stats \<Rightarrow> mem_stats" where
  "legacy_branch stats =
     (let nonUsed = ms_FreeBytes stats + ms_BuffersBytes stats + ms_CachedBytes stats
      in if ms_TotalBytes stats \<ge> nonUsed
         then stats\<lparr>ms_UsedBytes := ms_TotalBytes stats - nonUsed, ms_AvailableBytes := nonUsed\<rparr>
         else stats\<lparr>ms_UsedBytes := 0, ms_AvailableBytes := ms_TotalBytes stats\<rparr>)"

definition swap_branch :: "(string \<times> u64) list \<Rightarrow> mem_stats \<Rightarrow> mem_stats" where
  "swap_branch rawKB stats = (case map_of rawKB ''SwapTotal'' of
     None \<Rightarrow> stats
   | Some swapTotalKB \<Rightarrow>
       if swapTotalKB > 0 then
         (let stats = stats\<lparr>ms_SwapTotalBytes := swapTotalKB * kbToBytes,
                ms_SwapFreeBytes := map_get 0 rawKB ''SwapFree'' * kbToBytes\<rparr>
          in if ms_SwapTotalBytes stats \<ge> ms_SwapFreeBytes stats
             then let used = ms_SwapTotalBytes stats - ms_SwapFreeBytes stats in
               stats\<lparr>ms_SwapUsedBytes := used,
                 ms_SwapUsedPercent := bytes_percent used (ms_SwapTotalBytes stats)\<rparr>
             else stats)
       else stats)"

definition base_bytes :: "(string \<times> u64) list \<Rightarrow> mem_stats \<Rightarrow> mem_stats" where
  "base_bytes rawKB stats = stats\<lparr>
     ms_TotalBytes := map_get 0 rawKB ''MemTotal'' * kbToBytes,
     ms_FreeBytes := map_get 0 rawKB ''MemFree'' * kbToBytes,
     ms_BuffersBytes := map_get 0 rawKB ''Buffers'' * kbToBytes,
     ms_CachedBytes := map_get 0 rawKB ''Cached'' * kbToBytes\<rparr>"

definition used_branch :: "(string \<times> u64) list \<Rightarrow> mem_stats \<Rightarrow> mem_stats" where
  "used_branch rawKB stats = (case map_of rawKB ''MemAvailable'' of
     None \<Rightarrow> legacy_branch stats
   | Some availKB \<Rightarrow>
       if availKB > 0 then available_branch availKB stats else legacy_branch stats)"

definition meminfo_stats :: "(string \<times> u64) list \<Rightarrow> mem_stats \<Rightarrow> mem_stats \<times> collect_error option" where
  "meminfo_stats rawKB stats =
     (let stats = base_bytes rawKB stats
      in if ms_TotalBytes stats = 0 then (stats, Some MemTotalZero)
         else
           let stats = used_branch rawKB stats;
               stats = stats\<lparr>ms_UsedPercent := bytes_percent (ms_UsedBytes stats) (ms_TotalBytes stats)\<rparr>
           in (swap_branch rawKB stats, None))"

definition ParseProcMeminfo :: "go_time \<Rightarrow> reader \<Rightarrow> mem_stats \<times> collect_error option" where
  "ParseProcMeminfo now r = (case Scan r of (ls, err) \<Rightarrow>
     let stats = zero_mem_stats\<lparr>ms_Timestamp := now\<rparr>;
         rawKB = meminfo_loop ls []
     in case err of
          Some e \<Rightarrow> (stats, Some (ScanFailed e))
        | None \<Rightarrow> if length rawKB = 0 then (stats, Some NoMemMetrics) else meminfo_stats rawKB stats)"

definition mem_Collect :: "proc_file \<Rightarrow> go_time \<Rightarrow> mem_stats \<times> collect_error option" where
  "mem_Collect file now = (case file of
     None \<Rightarrow> (zero_mem_stats, Some OpenFailed)
   | Some r \<Rightarrow> ParseProcMeminfo now r)"

section \<open>Lemmas: percentages of byte counts\<close>

lemma bytes_percent_bounds: "0 \<le> bytes_percent u w" "bytes_percent u w \<le> 100"
  by (simp_all add: bytes_percent_def clampPercentage_bounds)

lemma bytes_percent_close:
  "0 < w \<Longrightarrow> u \<le> w \<Longrightarrow>
    \<bar>bytes_percent u w - 100 * (of_nat (unat u) / of_nat (unat w))\<bar> \<le> 1 / 200 + 2000 / 2 ^ 53"
  using percent_of_counters by (simp add: bytes_percent_def f64_div_def)

section \<open>Lemmas: the accounting invariant\<close>

text \<open>What holds of used and available memory, and of swap, after a successful parse.\<close>

definition mem_balanced :: "mem_stats \<Rightarrow> bool" where
  "mem_balanced s \<longleftrightarrow>
     ms_UsedBytes s \<le> ms_TotalBytes s \<and>
     (if ms_AvailableBytes s \<le> ms_TotalBytes s
      then unat (ms_UsedBytes s) + unat (ms_AvailableBytes s) = unat (ms_TotalBytes s)
      else ms_UsedBytes s = 0)"

definition swap_balanced :: "mem_stats \<Rightarrow> bool" where
  "swap_balanced s \<longleftrightarrow>
     ms_SwapUsedBytes s \<le> ms_SwapTotalBytes s \<and>
     (if ms_SwapFreeBytes s \<le> ms_SwapTotalBytes s
      then unat (ms_SwapUsedBytes s) + unat (ms_SwapFreeBytes s) = unat (ms_SwapTotalBytes s)
      else ms_SwapUsedBytes s = 0)"

lemma word_rest_le: "v \<le> w \<Longrightarrow> w - v \<le> w" for v w :: u64
  by (simp add: word_le_nat_alt unat_sub_if')

lemma word_rest_sum: "v \<le> w \<Longrightarrow> unat (w - v) + unat v = unat w" for v w :: u64
  by (simp add: word_le_nat_alt unat_sub_if')

lemma unat_diff_bytes: "v \<le> w \<Longrightarrow> unat (w - v) = unat w - unat v" for v w :: u64
  by (simp add: unat_sub_if' word_le_nat_alt)

lemma available_branch_balanced:
  "ms_UsedBytes s = 0 \<Longrightarrow> mem_balanced (available_branch a s)"
  by (auto simp: available_branch_def mem_balanced_def Let_def word_rest_le word_rest_sum)

lemma legacy_branch_balanced: "mem_balanced (legacy_branch s)"
  by (auto simp: legacy_branch_def mem_balanced_def Let_def word_rest_le word_rest_sum)

lemma swap_branch_balanced:
  "ms_SwapTotalBytes s = 0 \<Longrightarrow> ms_SwapFreeBytes s = 0 \<Longrightarrow> ms_SwapUsedBytes s = 0 \<Longrightarrow>
    swap_balanced (swap_branch raw s)"
  by (auto simp: swap_branch_def swap_balanced_def Let_def word_rest_le word_rest_sum
      split: option.splits)

lemma branch_frame [simp]:
  "ms_TotalBytes (available_branch a s) = ms_TotalBytes s"
  "ms_TotalBytes (legacy_branch s) = ms_TotalBytes s"
  "ms_SwapTotalBytes (available_branch a s) = ms_SwapTotalBytes s"
  "ms_SwapTotalBytes (legacy_branch s) = ms_SwapTotalBytes s"
  "ms_SwapFreeBytes (available_branch a s) = ms_SwapFreeBytes s"
  "ms_SwapFreeBytes (legacy_branch s) = ms_SwapFreeBytes s"
  "ms_SwapUsedBytes (available_branch a s) = ms_SwapUsedBytes s"
  "ms_SwapUsedBytes (legacy_branch s) = ms_SwapUsedBytes s"
  "ms_SwapUsedPercent (available_branch a s) = ms_SwapUsedPercent s"
  "ms_SwapUsedPercent (legacy_branch s) = ms_SwapUsedPercent s"
  by (simp_all add: available_branch_def legacy_branch_def Let_def)

lemma swap_branch_frame [simp]:
  "ms_TotalBytes (swap_branch raw s) = ms_TotalBytes s"
  "ms_UsedBytes (swap_branch raw s) = ms_UsedBytes s"
  "ms_AvailableBytes (swap_branch raw s) = ms_AvailableBytes s"
  "ms_UsedPercent (swap_branch raw s) = ms_UsedPercent s"
  by (simp_all add: swap_branch_def Let_def split: option.split)

lemma bytes_percent_0 [simp]: "bytes_percent 0 w = 0"
  by (simp add: bytes_percent_def f64_of_u64_def f64_div_def f64_mul_def clampPercentage_def)

lemma swap_percent:
  "ms_SwapUsedPercent s = 0 \<Longrightarrow> ms_SwapUsedBytes s = 0 \<Longrightarrow>
    ms_SwapUsedPercent (swap_branch raw s) =
      bytes_percent (ms_SwapUsedBytes (swap_branch raw s)) (ms_SwapTotalBytes (swap_branch raw s))"
  by (simp add: swap_branch_def Let_def split: option.split)

text \<open>A successful run goes through one of the two branches, then through the swap part.\<close>

lemma ParseProcMeminfo_success:
  assumes "ParseProcMeminfo now r = (s, None)"
  obtains raw s1 where "s = swap_branch raw
      (s1\<lparr>ms_UsedPercent := bytes_percent (ms_UsedBytes s1) (ms_TotalBytes s1)\<rparr>)"
    "mem_balanced s1" "ms_TotalBytes s1 \<noteq> 0" "ms_SwapTotalBytes s1 = 0" "ms_SwapFreeBytes s1 = 0"
    "ms_SwapUsedBytes s1 = 0" "ms_SwapUsedPercent s1 = 0"
proof -
  obtain ls where raw: "meminfo_stats (meminfo_loop ls []) (zero_mem_stats\<lparr>ms_Timestamp := now\<rparr>) = (s, None)"
    using assms by (auto simp: ParseProcMeminfo_def Let_def split: prod.splits option.splits if_splits)
  let ?raw = "meminfo_loop ls []"
  define s0 where "s0 = base_bytes ?raw (zero_mem_stats\<lparr>ms_Timestamp := now\<rparr>)"
  define s1 where "s1 = used_branch ?raw s0"
  have zero: "ms_UsedBytes s0 = 0" "ms_SwapTotalBytes s0 = 0" "ms_SwapFreeBytes s0 = 0"
    "ms_SwapUsedBytes s0 = 0" "ms_SwapUsedPercent s0 = 0"
    by (simp_all add: s0_def base_bytes_def zero_mem_stats_def)
  have nz: "ms_TotalBytes s0 \<noteq> 0" and s: "s = swap_branch ?raw
      (s1\<lparr>ms_UsedPercent := bytes_percent (ms_UsedBytes s1) (ms_TotalBytes s1)\<rparr>)"
    using raw by (auto simp: meminfo_stats_def Let_def s1_def simp flip: s0_def split: if_splits)
  show ?thesis
    by (rule that [OF s])
      (use zero nz available_branch_balanced [OF zero(1)] legacy_branch_balanced
        in \<open>auto simp: s1_def used_branch_def split: option.split\<close>)
qed

section \<open>The format of the kernel\<close>

text \<open>A key, a colon, blanks, the number and the unit.\<close>

fun render_meminfo :: "string \<times> nat \<times> u64 \<Rightarrow> string" where
  "render_meminfo (k, pad, w) =
     k @ CHR '':'' # replicate pad (CHR '' '') @ Join [show_nat (unat w), ''kB''] '' ''"

definition meminfo_entry :: "string \<times> nat \<times> u64 \<Rightarrow> bool" where
  "meminfo_entry e \<longleftrightarrow> (case e of (k, pad, w) \<Rightarrow>
     plain_word k \<and> CHR '':'' \<notin> set k \<and> length k \<le> 100 \<and> pad \<le> 100)"

lemma plain_kB: "plain_word ''kB''"
  by (simp add: plain_word_def plain_char_def)

lemma parse_render_meminfo:
  "meminfo_entry (k, pad, w) \<Longrightarrow> parse_meminfo_line (render_meminfo (k, pad, w)) = Some (k, w)"
proof -
  assume e: "meminfo_entry (k, pad, w)"
  let ?ws = "[show_nat (unat w), ''kB'']"
  have ws: "list_all plain_word ?ws" by (simp add: show_nat_plain plain_kB)
  have k: "plain_word k" "CHR '':'' \<notin> set k" using e by (simp_all add: meminfo_entry_def)
  have "Fields (TrimSpace (replicate pad (CHR '' '') @ Join ?ws '' '')) = ?ws"
    by (simp only: TrimSpace_blanks TrimSpace_words [OF ws] Fields_words [OF ws])
  then show ?thesis
    using k by (simp add: parse_meminfo_line_def IndexByte_append TrimSpace_plain_word ParseUint_show
        del: Join.simps)
qed

lemma render_meminfo_text_line: "meminfo_entry e \<Longrightarrow> text_line (render_meminfo e)"
proof -
  obtain k pad w where e: "e = (k, pad, w)" by (cases e)
  assume entry: "meminfo_entry e"
  let ?ws = "[show_nat (unat w), ''kB'']"
  have ws: "list_all plain_word ?ws" by (simp add: show_nat_plain plain_kB)
  have "length (Join ?ws '' '') \<le> length ?ws * Suc 20"
    by (rule length_Join) (use length_show_u64 in auto)
  then have "length (render_meminfo e) < MaxScanTokenSize"
    using entry by (simp add: e meminfo_entry_def MaxScanTokenSize_def del: Join.simps)
  then show ?thesis
    using Join_newline [OF ws] entry plain_word_newline [of k]
    by (auto simp: text_line_def e meminfo_entry_def simp del: Join.simps)
qed

lemma meminfo_loop_render:
  "\<forall>e \<in> set es. meminfo_entry e \<Longrightarrow> distinct (map fst m @ map fst es) \<Longrightarrow>
    meminfo_loop (map render_meminfo es) m = m @ map (\<lambda>(k, _, w). (k, w)) es"
proof (induction es arbitrary: m)
  case (Cons e es)
  obtain k pad w where e: "e = (k, pad, w)" by (cases e)
  have "k \<notin> fst ` set m" using Cons.prems(2) by (auto simp: e)
  then have "AList.update k w m = m @ [(k, w)]" by (induction m) auto
  with Cons parse_render_meminfo [of k pad w] show ?case by (simp add: e del: render_meminfo.simps)
qed simp

lemma raw_lookup:
  "distinct (map fst es) \<Longrightarrow> (k, p, w) \<in> set es \<Longrightarrow> map_of (map (\<lambda>(k, _, w). (k, w)) es) k = Some w"
  by (induction es) force+

lemma kb_bytes: "unat w < 2 ^ 54 \<Longrightarrow> unat (w * kbToBytes) = 1024 * unat w"
  by (simp add: kbToBytes_def unat_word_ariths)

section \<open>Properties\<close>

lemma bytes_accounting:
  assumes "ParseProcMeminfo now r = (s, None)"
  shows "ms_TotalBytes s \<noteq> 0 \<and> mem_balanced s \<and> swap_balanced s"
proof -
  from ParseProcMeminfo_success [OF assms] obtain raw s1 where s: "s = swap_branch raw
      (s1\<lparr>ms_UsedPercent := bytes_percent (ms_UsedBytes s1) (ms_TotalBytes s1)\<rparr>)"
    and s1: "mem_balanced s1" "ms_TotalBytes s1 \<noteq> 0" "ms_SwapTotalBytes s1 = 0"
      "ms_SwapFreeBytes s1 = 0" "ms_SwapUsedBytes s1 = 0" by metis
  have "swap_balanced s" unfolding s by (rule swap_branch_balanced) (simp_all add: s1)
  then show ?thesis using s1 by (simp add: s mem_balanced_def)
qed

lemma percent_accurate:
  assumes "ParseProcMeminfo now r = (s, None)"
  shows "\<bar>ms_UsedPercent s - 100 * (of_nat (unat (ms_UsedBytes s)) / of_nat (unat (ms_TotalBytes s)))\<bar>
      \<le> 1 / 200 + 2000 / 2 ^ 53 \<and>
    ms_UsedPercent s \<in> {0..100} \<and>
    (0 < ms_SwapTotalBytes s \<longrightarrow>
      \<bar>ms_SwapUsedPercent s - 100 * (of_nat (unat (ms_SwapUsedBytes s)) / of_nat (unat (ms_SwapTotalBytes s)))\<bar>
        \<le> 1 / 200 + 2000 / 2 ^ 53 \<and> ms_SwapUsedPercent s \<in> {0..100})"
proof -
  from ParseProcMeminfo_success [OF assms] obtain raw s1 where s: "s = swap_branch raw
      (s1\<lparr>ms_UsedPercent := bytes_percent (ms_UsedBytes s1) (ms_TotalBytes s1)\<rparr>)"
    and s1: "mem_balanced s1" "ms_TotalBytes s1 \<noteq> 0" "ms_SwapTotalBytes s1 = 0"
      "ms_SwapFreeBytes s1 = 0" "ms_SwapUsedBytes s1 = 0" "ms_SwapUsedPercent s1 = 0" by metis
  have pct: "ms_UsedPercent s = bytes_percent (ms_UsedBytes s) (ms_TotalBytes s)" by (simp add: s)
  have swap: "ms_SwapUsedPercent s = bytes_percent (ms_SwapUsedBytes s) (ms_SwapTotalBytes s)"
    unfolding s by (rule swap_percent) (simp_all add: s1)
  have "swap_balanced s" unfolding s by (rule swap_branch_balanced) (simp_all add: s1)
  then have le: "ms_SwapUsedBytes s \<le> ms_SwapTotalBytes s" by (simp add: swap_balanced_def)
  have used: "0 < ms_TotalBytes s" "ms_UsedBytes s \<le> ms_TotalBytes s"
    using s1 by (simp_all add: s mem_balanced_def word_greater_zero_iff)
  show ?thesis unfolding pct swap
    using bytes_percent_close [OF used] bytes_percent_close [OF _ le] bytes_percent_bounds by simp
qed

text \<open>C20. The accounting of memory holds for every input on which the parser succeeds, whatever the
  file contains (missing lines, old kernels without \<open>MemAvailable\<close>, counters so large that the
  conversion to bytes wraps around): the total is not 0, used memory never exceeds it, used and
  available add up to it without overflow, and if the file claims more available memory than
  there is, used is 0; swap obeys the same law.  The reported percentages of used memory, and of
  used swap when there is any, differ from the exact ratio of the byte counts by at most half of the
  last printed digit plus the floating-point rounding, and lie between 0 and 100.\<close>

theorem mem_accounting:
  assumes "ParseProcMeminfo now r = (s, None)"
  shows "ms_TotalBytes s \<noteq> 0 \<and> mem_balanced s \<and> swap_balanced s \<and>
    \<bar>ms_UsedPercent s - 100 * (of_nat (unat (ms_UsedBytes s)) / of_nat (unat (ms_TotalBytes s)))\<bar>
      \<le> 1 / 200 + 2000 / 2 ^ 53 \<and>
    ms_UsedPercent s \<in> {0..100} \<and>
    (0 < ms_SwapTotalBytes s \<longrightarrow>
      \<bar>ms_SwapUsedPercent s - 100 * (of_nat (unat (ms_SwapUsedBytes s)) / of_nat (unat (ms_SwapTotalBytes s)))\<bar>
        \<le> 1 / 200 + 2000 / 2 ^ 53 \<and> ms_SwapUsedPercent s \<in> {0..100})"
  using bytes_accounting [OF assms] percent_accurate [OF assms] by blast

theorem mem_accounting_witness:
  "\<exists>s. ParseProcMeminfo 0 (''MemTotal: 8 kB'' @ CHR 0x0A # ''MemFree: 3 kB'', False) = (s, None) \<and>
    ms_TotalBytes s \<noteq> 0 \<and> mem_balanced s \<and> swap_balanced s \<and>
    \<bar>ms_UsedPercent s - 100 * (of_nat (unat (ms_UsedBytes s)) / of_nat (unat (ms_TotalBytes s)))\<bar>
      \<le> 1 / 200 + 2000 / 2 ^ 53"
proof -
  let ?p = "ParseProcMeminfo 0 (''MemTotal: 8 kB'' @ CHR 0x0A # ''MemFree: 3 kB'', False)"
  have "snd ?p = None" by code_simp
  then have p: "?p = (fst ?p, None)" by (metis prod.collapse)
  with mem_accounting [OF p] show ?thesis by blast
qed

text \<open>What the kernel prints is parsed to 1024 times the printed numbers.\<close>

lemma meminfo_kernel_format:
  assumes "\<forall>e \<in> set es. meminfo_entry e" "distinct (map fst es)"
    and "(''MemTotal'', p1, t) \<in> set es" "(''MemAvailable'', p2, a) \<in> set es"
    and "0 < a" "a \<le> t" "unat t < 2 ^ 54"
  shows "\<exists>s. ParseProcMeminfo now (unlines (map render_meminfo es), False) = (s, None) \<and>
    unat (ms_TotalBytes s) = 1024 * unat t \<and> unat (ms_AvailableBytes s) = 1024 * unat a \<and>
    unat (ms_UsedBytes s) = 1024 * (unat t - unat a)"
proof -
  let ?raw = "map (\<lambda>(k, _, w). (k, w)) es"
  have scan: "Scan (unlines (map render_meminfo es), False) = (map render_meminfo es, None)"
    using assms(1) render_meminfo_text_line by (intro Scan_unlines) auto
  have loop: "meminfo_loop (map render_meminfo es) [] = ?raw"
    using meminfo_loop_render [of es "[]"] assms(1,2) by simp
  note lookup = raw_lookup [OF assms(2,3)] raw_lookup [OF assms(2,4)]
  have "0 < unat a" using assms(5) by (simp only: unat_gt_0 word_greater_zero_iff simp_thms)
  then have ab: "unat a \<le> unat t" "0 < unat t" "unat a < 2 ^ 54"
    using assms(6,7) by (simp_all only: word_le_nat_alt)
  then have le: "a * kbToBytes \<le> t * kbToBytes" and nz: "t * kbToBytes \<noteq> 0"
    using kb_bytes [OF assms(7)] kb_bytes [of a] by (auto simp: word_le_nat_alt)
  have "?raw \<noteq> []" using assms(3) by auto
  then have "ParseProcMeminfo now (unlines (map render_meminfo es), False) =
      meminfo_stats ?raw (zero_mem_stats\<lparr>ms_Timestamp := now\<rparr>)"
    by (simp add: ParseProcMeminfo_def scan loop)
  moreover have "\<exists>s. meminfo_stats ?raw (zero_mem_stats\<lparr>ms_Timestamp := now\<rparr>) = (s, None) \<and>
      ms_TotalBytes s = t * kbToBytes \<and> ms_AvailableBytes s = a * kbToBytes \<and>
      ms_UsedBytes s = t * kbToBytes - a * kbToBytes"
    using le nz assms(5) by (simp add: meminfo_stats_def base_bytes_def used_branch_def lookup map_get_def
        available_branch_def)
  ultimately show ?thesis
    using kb_bytes [OF assms(7)] kb_bytes [OF ab(3)] unat_diff_bytes [OF le] by auto
qed

end
