(* ===== verification/Rates.thy ===== *)
theory Rates
  imports Metrics_Model Percent Delta_Collector
begin

text \<open>
  What \<open>internal/collector/disk.go\<close> and \<open>internal/collector/net.go\<close> share: the elapsed
  time in seconds, the rate of a counter, totals, and the ordered list of keys.
\<close>

section \<open>Elapsed time\<close>

definition elapsed_seconds :: "go_duration \<Rightarrow> f64" where
  "elapsed_seconds duration =
     (let seconds = duration_Seconds duration in if seconds \<le> 0 then 1 else seconds)"

lemma duration_parts:
  "0 \<le> d \<Longrightarrow> d sdiv Second = d div Second \<and> d smod Second = d mod Second"
  by (simp add: signed_divide_int_def signed_modulo_int_def Second_def sgn_if minus_div_mult_eq_mod)

lemma f64_of_int_exact: "\<bar>m\<bar> < 2 ^ 53 \<Longrightarrow> f64_of_int m = of_int m"
  by (simp add: f64_of_int_def fl_of_int)

lemma duration_Seconds_close:
  assumes "0 \<le> d" "d \<le> maxDuration"
  shows "\<bar>duration_Seconds d - of_int d / 1000000000\<bar> \<le> 3 / 2 ^ 53 * (of_int d / 1000000000)"
proof -
  let ?s = "d div 1000000000" and ?n = "d mod 1000000000"
  let ?x = "of_int ?n / 1000000000 :: rat" and ?t = "of_int d / 1000000000 :: rat"
  have n: "0 \<le> ?n" "?n < 1000000000" by simp_all
  have s: "0 \<le> ?s" "?s < 2 ^ 53" using assms by (auto simp: maxDuration_def)
  have "(of_int (?s * 1000000000 + ?n) :: rat) = of_int ?s * 1000000000 + of_int ?n"
    by (simp only: of_int_add of_int_mult of_int_numeral)
  then have "(of_int d :: rat) = of_int ?s * 1000000000 + of_int ?n"
    by (simp only: div_mult_mod_eq)
  then have t: "?t = of_int ?s + ?x"
    by (simp only: add_divide_distrib)
  have x: "0 \<le> ?x" using n(1) by simp
  have s0: "0 \<le> (of_int ?s :: rat)" using s(1) by (simp only: of_int_0_le_iff)
  have secs: "duration_Seconds d = fl (of_int ?s + fl ?x)"
    using n s assms(1) duration_parts [of d]
    by (simp add: duration_Seconds_def f64_add_def f64_div_def f64_of_int_exact Second_def)
  have "\<bar>fl ?x - ?x\<bar> \<le> 1 / 2 ^ 53 * ?x" using f64.error [of ?x] x by simp
  then have "\<bar>(of_int ?s + fl ?x) - ?t\<bar> \<le> 1 / 2 ^ 53 * ?x" by (simp only: t) simp
  moreover have "1 / 2 ^ 53 * ?x \<le> 1 / 2 ^ 53 * ?t" using s0 by (intro mult_left_mono) (simp_all add: t)
  ultimately have "\<bar>(of_int ?s + fl ?x) - ?t\<bar> \<le> 1 / 2 ^ 53 * ?t" by (rule order_trans)
  then show ?thesis unfolding secs
    by (rule f64.rnd_close [of _ _ _ "2 * ?t"]) (use assms(1) in auto)
qed

lemma duration_Seconds_nonpos: "d \<le> 0 \<Longrightarrow> duration_Seconds d \<le> 0"
proof -
  assume d: "d \<le> 0"
  have "d sdiv Second \<le> 0" "d smod Second \<le> 0"
    using d by (auto simp: signed_divide_int_def signed_modulo_int_def Second_def sgn_if
        minus_div_mult_eq_mod [symmetric] pos_imp_zdiv_nonneg_iff)
  then have "f64_of_int (d sdiv Second) \<le> 0" "f64_of_int (d smod Second) \<le> 0"
    using fl_mono [of "of_int _" 0] by (auto simp: f64_of_int_def)
  then have "f64_of_int (d sdiv Second) + f64_div (f64_of_int (d smod Second)) 1000000000 \<le> 0"
    using fl_mono [of "_ / 1000000000" 0] by (fastforce simp: f64_div_def)
  from fl_mono [OF this] show ?thesis by (simp add: duration_Seconds_def f64_add_def)
qed

lemma elapsed_seconds_nonpos: "d \<le> 0 \<Longrightarrow> elapsed_seconds d = 1"
  using duration_Seconds_nonpos by (simp add: elapsed_seconds_def)

lemma half_le: "\<bar>s - t\<bar> \<le> 3 / 2 ^ 53 * t \<Longrightarrow> 0 < t \<Longrightarrow> t / 2 \<le> s" for s t :: rat
  using abs_le_D2 [of "s - t" "3 / 2 ^ 53 * t"] by simp

lemma elapsed_seconds_close:
  assumes "0 < d" "d \<le> maxDuration"
  shows "\<bar>elapsed_seconds d - of_int d / 1000000000\<bar> \<le> 3 / 2 ^ 53 * (of_int d / 1000000000)"
    and "of_int d / 1000000000 / 2 \<le> elapsed_seconds d"
proof -
  have d: "0 < (of_int d / 1000000000 :: rat)" using assms by simp
  note close = duration_Seconds_close [OF less_imp_le [OF assms(1)] assms(2)]
  have "elapsed_seconds d = duration_Seconds d"
    using half_le [OF close d] d by (simp add: elapsed_seconds_def)
  with close half_le [OF close d] show
    "\<bar>elapsed_seconds d - of_int d / 1000000000\<bar> \<le> 3 / 2 ^ 53 * (of_int d / 1000000000)"
    "of_int d / 1000000000 / 2 \<le> elapsed_seconds d" by simp_all
qed

lemma elapsed_seconds_pos: "0 < elapsed_seconds d"
  by (simp add: elapsed_seconds_def Let_def)

section \<open>Rates\<close>

text \<open>\<open>roundFloat(float64(delta)/seconds, 2)\<close>, 0 when the counter went backwards; \<open>unit\<close> is
  the number of bytes per counted unit (512 for sectors).\<close>

definition counter_rate :: "u64 \<Rightarrow> u64 \<Rightarrow> u64 \<Rightarrow> f64 \<Rightarrow> f64" where
  "counter_rate unit prev cur seconds =
     (if cur \<ge> prev
      then roundFloat (f64_div (f64_of_u64 ((cur - prev) * unit)) seconds) 2
      else 0)"

lemma counter_rate_nonneg: "0 < seconds \<Longrightarrow> 0 \<le> counter_rate unit prev cur seconds"
  by (auto simp: counter_rate_def f64_div_def
      intro!: roundFloat_nonneg fl_nonneg divide_nonneg_pos f64_of_u64_nonneg)

lemma rate_quotient_close:
  fixes a :: rat
  assumes a: "0 \<le> a" and A: "\<bar>A - a\<bar> \<le> 1 / 2 ^ 53 * a"
    and d: "0 < d" and s: "\<bar>s - d\<bar> \<le> 3 / 2 ^ 53 * d" "d / 2 \<le> s"
  shows "\<bar>A / s - a / d\<bar> \<le> 8 / 2 ^ 53 * (a / d)"
proof -
  have s0: "0 < s" using d s(2) by linarith
  have "A * d - a * s = (A - a) * d - a * (s - d)" by (simp add: algebra_simps)
  then have "\<bar>A * d - a * s\<bar> \<le> \<bar>A - a\<bar> * d + a * \<bar>s - d\<bar>"
    using a d by (metis abs_mult abs_of_nonneg abs_of_pos abs_triangle_ineq4)
  also have "\<dots> \<le> 1 / 2 ^ 53 * a * d + a * (3 / 2 ^ 53 * d)"
    using A s a d by (intro add_mono mult_mono) auto
  also have "\<dots> = 8 / 2 ^ 53 * a * (d / 2)" by simp
  also have "\<dots> \<le> 8 / 2 ^ 53 * a * s" using a s(2) by (intro mult_left_mono) auto
  finally have "\<bar>A * d - a * s\<bar> / (s * d) \<le> 8 / 2 ^ 53 * a * s / (s * d)"
    using s0 d by (intro divide_right_mono) auto
  moreover have "\<bar>A / s - a / d\<bar> = \<bar>A * d - a * s\<bar> / (s * d)"
    using s0 d by (simp add: diff_frac_eq abs_divide abs_mult)
  ultimately show ?thesis using s0 by simp
qed

lemma roundFloat_close:
  assumes "\<bar>q - t\<bar> \<le> 8 / 2 ^ 53 * t" "0 \<le> t"
  shows "\<bar>roundFloat (fl q) 2 - t\<bar> \<le> 1 / 200 + (14 * t + 1) / 2 ^ 53"
proof -
  define h where "h = fl (fl q * 100)"
  have "\<bar>fl q - t\<bar> \<le> 10 / 2 ^ 53 * t"
    by (rule f64.rnd_close [OF assms(1), of "2 * t"]) (use assms(2) in auto)
  from f64.scale_close [OF this] have "\<bar>fl q * 100 - 100 * t\<bar> \<le> 1000 / 2 ^ 53 * t" by simp
  then have "\<bar>h - 100 * t\<bar> \<le> 1200 / 2 ^ 53 * t"
    unfolding h_def by (rule f64.rnd_close [of _ _ _ "200 * t"]) (use assms(2) in auto)
  moreover have "\<bar>math_Round h - 100 * t\<bar> \<le> \<bar>math_Round h - h\<bar> + \<bar>h - 100 * t\<bar>"
    using abs_triangle_ineq [of "math_Round h - h" "h - 100 * t"] by simp
  ultimately have "\<bar>math_Round h - 100 * t\<bar> \<le> 1 / 2 + 1200 / 2 ^ 53 * t"
    using math_Round_error [of h] by linarith
  then have "\<bar>math_Round h / 100 - t\<bar> \<le> 1 / 200 + 12 / 2 ^ 53 * t"
    by (simp add: abs_le_iff)
  then have "\<bar>fl (math_Round h / 100) - t\<bar> \<le> 1 / 200 + (14 * t + 1) / 2 ^ 53"
    by (rule f64.rnd_close [of _ _ _ "2 * t + 1"]) (use assms(2) in \<open>auto simp: field_simps\<close>)
  then show ?thesis by (simp add: roundFloat_def f64_mul_def f64_div_def h_def)
qed

lemma counter_rate_close:
  assumes le: "prev \<le> cur" and fits: "(unat cur - unat prev) * unat unit < 2 ^ 64"
    and d: "0 < d" "d \<le> maxDuration"
  defines "t \<equiv> of_nat ((unat cur - unat prev) * unat unit) / (of_int d / 1000000000)"
  shows "\<bar>counter_rate unit prev cur (elapsed_seconds d) - t\<bar> \<le> 1 / 200 + (14 * t + 1) / 2 ^ 53"
proof -
  let ?w = "(cur - prev) * unit"
  have "unat (cur - prev) = unat cur - unat prev"
    using le by (simp add: unat_sub_if' word_le_nat_alt)
  then have w: "unat ?w = (unat cur - unat prev) * unat unit"
    using fits by (simp add: unat_word_ariths)
  have d': "0 < (of_int d / 1000000000 :: rat)" using d(1) by simp
  have "\<bar>f64_of_u64 ?w / elapsed_seconds d - of_nat (unat ?w) / (of_int d / 1000000000)\<bar>
      \<le> 8 / 2 ^ 53 * (of_nat (unat ?w) / (of_int d / 1000000000))"
    by (rule rate_quotient_close [OF u64_rat_nonneg f64_of_u64_close d' elapsed_seconds_close [OF d]])
  then have "\<bar>roundFloat (fl (f64_of_u64 ?w / elapsed_seconds d)) 2 - t\<bar>
      \<le> 1 / 200 + (14 * t + 1) / 2 ^ 53"
    unfolding t_def w [symmetric] by (rule roundFloat_close) (use d' u64_rat_nonneg in \<open>simp add: divide_nonneg_pos\<close>)
  then show ?thesis using le by (simp add: counter_rate_def f64_div_def)
qed

section \<open>Totals\<close>

text \<open>A total is added up in floating point, in the order of the keys.\<close>

lemma f64_add_list_nonneg: "0 \<le> a \<Longrightarrow> \<forall>x \<in> set xs. 0 \<le> x \<Longrightarrow> 0 \<le> foldl f64_add a xs"
  by (induction xs arbitrary: a) (simp_all add: f64_add_def fl_nonneg)

section \<open>Keys in order\<close>

text \<open>\<open>sort.Strings\<close> on the keys of a map: the result does not depend on the iteration order.\<close>

lemma sorted_keys_unique:
  assumes "range_order ord m" "distinct (map fst m)"
  shows "sort ord = sort (map fst m)"
  by (rule sorted_distinct_set_unique) (use assms in \<open>auto simp: range_order_def\<close>)

end
