(* ===== verification/Disk_Collector.thy ===== *)
theory Disk_Collector
  imports Rates "HOL-Library.Char_ord" "HOL-Library.List_Lexorder"
begin

text \<open>
  The disk collector, \<open>internal/collector/disk.go\<close>: the parser of \<open>/proc/diskstats\<close>, the rates
  between two snapshots, the choice of the devices that count for the totals, and the stateful
  \<open>Collect\<close>.  Strings are ordered bytewise, as \<open>sort.Strings\<close> does.
\<close>

section \<open>Parsing /proc/diskstats\<close>

definition SectorSizeBytes :: u64 where "SectorSizeBytes = 512"

definition shouldSkipDevice :: "string \<Rightarrow> bool" where
  "shouldSkipDevice name \<longleftrightarrow> HasPrefix name ''loop'' \<or> HasPrefix name ''ram''"

text \<open>One line of the loop; \<open>None\<close> is \<open>continue\<close>.\<close>

definition parse_disk_line :: "string \<Rightarrow> raw_disk_stats option" where
  "parse_disk_line line = (let fs = Fields line in
     if length fs < 14 then None
     else let devName = fs ! 2 in
       if shouldSkipDevice devName then None
       else let parseUint = \<lambda>idx. fst (ParseUint (fs ! idx)) in
         Some \<lparr>rd_Major = fst (Atoi (fs ! 0)), rd_Minor = fst (Atoi (fs ! 1)),
           rd_DeviceName = devName,
           rd_ReadsCompleted = parseUint 3, rd_ReadsMerged = parseUint 4,
           rd_SectorsRead = parseUint 5, rd_ReadTimeMs = parseUint 6,
           rd_WritesCompleted = parseUint 7, rd_WritesMerged = parseUint 8,
           rd_SectorsWritten = parseUint 9, rd_WriteTimeMs = parseUint 10,
           rd_IOInProgress = parseUint 11, rd_IOTimeMs = parseUint 12,
           rd_WeightedIOTime = parseUint 13\<rparr>)"

fun diskstats_loop :: "string list \<Rightarrow> (string \<times> raw_disk_stats) list \<Rightarrow> (string \<times> raw_disk_stats) list"
where
  "diskstats_loop [] result = result"
| "diskstats_loop (line # ls) result = (case parse_disk_line line of
     None \<Rightarrow> diskstats_loop ls result
   | Some stats \<Rightarrow> diskstats_loop ls (AList.update (rd_DeviceName stats) stats result))"

definition ParseProcDiskstats :: "reader \<Rightarrow> collect_error + (string \<times> raw_disk_stats) list" where
  "ParseProcDiskstats r = (case Scan r of (ls, err) \<Rightarrow>
     let result = diskstats_loop ls [] in
     (case err of Some e \<Rightarrow> Inl (ScanFailed e) | None \<Rightarrow> Inr result))"

section \<open>Whole disks\<close>

text \<open>The loop over the prefixes; \<open>suffix[0]\<close> is read only when the suffix has one byte.\<close>

fun letter_disk :: "string list \<Rightarrow> string \<Rightarrow> bool" where
  "letter_disk [] name = False"
| "letter_disk (prefix # prefixes) name =
     (if HasPrefix name prefix
      then let suffix = TrimPrefix name prefix in
        length suffix = 1 \<and> byte (suffix ! 0) \<ge> byte (CHR ''a'') \<and> byte (suffix ! 0) \<le> byte (CHR ''z'')
      else letter_disk prefixes name)"

definition isPrimaryDisk :: "string \<Rightarrow> bool" where
  "isPrimaryDisk name =
     (if HasPrefix name ''nvme'' then \<not> Contains name ''p''
      else if HasPrefix name ''mmcblk'' then \<not> Contains name ''p''
      else letter_disk [''sd'', ''vd'', ''hd'', ''xvd''] name)"

section \<open>Rates between two snapshots\<close>

definition zero_raw_disk :: raw_disk_stats where
  "zero_raw_disk = \<lparr>rd_Major = 0, rd_Minor = 0, rd_DeviceName = [], rd_ReadsCompleted = 0,
     rd_ReadsMerged = 0, rd_SectorsRead = 0, rd_ReadTimeMs = 0, rd_WritesCompleted = 0,
     rd_WritesMerged = 0, rd_SectorsWritten = 0, rd_WriteTimeMs = 0, rd_IOInProgress = 0,
     rd_IOTimeMs = 0, rd_WeightedIOTime = 0\<rparr>"

definition zero_disk_stats :: disk_stats where
  "zero_disk_stats = \<lparr>ds_Timestamp = zero_time, ds_TotalReadBytesPerSec = 0,
     ds_TotalWriteBytesPerSec = 0, ds_TotalReadIOPS = 0, ds_TotalWriteIOPS = 0, ds_Devices = []\<rparr>"

definition disk_counters :: "string \<Rightarrow> raw_disk_stats \<Rightarrow> disk_device_stats" where
  "disk_counters name dev = \<lparr>dd_Device = name,
     dd_ReadBytes = rd_SectorsRead dev * SectorSizeBytes,
     dd_WriteBytes = rd_SectorsWritten dev * SectorSizeBytes,
     dd_ReadBytesPerSec = 0, dd_WriteBytesPerSec = 0, dd_ReadIOPS = 0, dd_WriteIOPS = 0,
     dd_IOTimeMs = rd_IOTimeMs dev\<rparr>"

definition disk_device :: "f64 \<Rightarrow> raw_disk_stats option \<Rightarrow> string \<Rightarrow> raw_disk_stats \<Rightarrow> disk_device_stats"
where
  "disk_device seconds prevDev name currDev =
     (let devStat = disk_counters name currDev in
      case prevDev of
        None \<Rightarrow> devStat
      | Some p \<Rightarrow> devStat\<lparr>
          dd_ReadBytesPerSec :=
            counter_rate SectorSizeBytes (rd_SectorsRead p) (rd_SectorsRead currDev) seconds,
          dd_WriteBytesPerSec :=
            counter_rate SectorSizeBytes (rd_SectorsWritten p) (rd_SectorsWritten currDev) seconds,
          dd_ReadIOPS := counter_rate 1 (rd_ReadsCompleted p) (rd_ReadsCompleted currDev) seconds,
          dd_WriteIOPS := counter_rate 1 (rd_WritesCompleted p) (rd_WritesCompleted currDev) seconds\<rparr>)"

definition add_disk_totals :: "disk_device_stats \<Rightarrow> disk_stats \<Rightarrow> disk_stats" where
  "add_disk_totals devStat stats =
     (if isPrimaryDisk (dd_Device devStat)
      then stats\<lparr>
        ds_TotalReadBytesPerSec := f64_add (ds_TotalReadBytesPerSec stats) (dd_ReadBytesPerSec devStat),
        ds_TotalWriteBytesPerSec := f64_add (ds_TotalWriteBytesPerSec stats) (dd_WriteBytesPerSec devStat),
        ds_TotalReadIOPS := f64_add (ds_TotalReadIOPS stats) (dd_ReadIOPS devStat),
        ds_TotalWriteIOPS := f64_add (ds_TotalWriteIOPS stats) (dd_WriteIOPS devStat)\<rparr>
      else stats)"

fun disk_loop :: "f64 \<Rightarrow> (string \<times> raw_disk_stats) list \<Rightarrow> (string \<times> raw_disk_stats) list \<Rightarrow>
    string list \<Rightarrow> disk_stats \<Rightarrow> disk_stats" where
  "disk_loop seconds prev cur [] stats = stats"
| "disk_loop seconds prev cur (name # names) stats =
     (let devStat = disk_device seconds (map_of prev name) name (map_get zero_raw_disk cur name);
          stats = add_disk_totals devStat stats
      in disk_loop seconds prev cur names (stats\<lparr>ds_Devices := ds_Devices stats @ [devStat]\<rparr>))"

definition round_disk_totals :: "disk_stats \<Rightarrow> disk_stats" where
  "round_disk_totals stats = stats\<lparr>
     ds_TotalReadBytesPerSec := roundFloat (ds_TotalReadBytesPerSec stats) 2,
     ds_TotalWriteBytesPerSec := roundFloat (ds_TotalWriteBytesPerSec stats) 2,
     ds_TotalReadIOPS := roundFloat (ds_TotalReadIOPS stats) 2,
     ds_TotalWriteIOPS := roundFloat (ds_TotalWriteIOPS stats) 2\<rparr>"

text \<open>The clock \<open>now\<close> and the iteration order \<open>ord\<close> of the current map are inputs.\<close>

definition CalculateDiskStats :: "go_time \<Rightarrow> string list \<Rightarrow> (string \<times> raw_disk_stats) list \<Rightarrow>
    (string \<times> raw_disk_stats) list \<Rightarrow> go_duration \<Rightarrow> disk_stats" where
  "CalculateDiskStats now ord prev cur duration =
     (let seconds = elapsed_seconds duration;
          stats = zero_disk_stats\<lparr>ds_Timestamp := now\<rparr>
      in round_disk_totals (disk_loop seconds prev cur (sort ord) stats))"

section \<open>The collector\<close>

record disk_collector =
  dc_lastStats :: "(string \<times> raw_disk_stats) list option"
  dc_lastTime :: go_time

definition NewDiskCollector :: disk_collector where
  "NewDiskCollector = \<lparr>dc_lastStats = None, dc_lastTime = zero_time\<rparr>"

text \<open>The timestamp that \<open>CalculateDiskStats\<close> reads from the clock is overwritten by \<open>now\<close>.  The
  names are distinct, so \<open>sort.Slice\<close> by name has one result.\<close>

definition disk_Collect :: "disk_collector \<Rightarrow> proc_file \<Rightarrow> go_time \<Rightarrow> string list \<Rightarrow>
    (collect_error + disk_stats) \<times> disk_collector" where
  "disk_Collect d file now ord = (case file of
     None \<Rightarrow> (Inl OpenFailed, d)
   | Some r \<Rightarrow> (case ParseProcDiskstats r of
       Inl e \<Rightarrow> (Inl e, d)
     | Inr currStats \<Rightarrow> (case dc_lastStats d of
         None \<Rightarrow>
           (Inr (zero_disk_stats\<lparr>ds_Timestamp := now, ds_Devices := sort_key dd_Device
              (map (\<lambda>name. disk_counters name (map_get zero_raw_disk currStats name)) ord)\<rparr>),
            d\<lparr>dc_lastStats := Some currStats, dc_lastTime := now\<rparr>)
       | Some lastStats \<Rightarrow>
           let duration = time_Sub now (dc_lastTime d);
               stats = (CalculateDiskStats now ord lastStats currStats duration)\<lparr>ds_Timestamp := now\<rparr>
           in (Inr stats, d\<lparr>dc_lastStats := Some currStats, dc_lastTime := now\<rparr>))))"

section \<open>Lemmas: the loop over the devices\<close>

lemma add_disk_totals_Devices [simp]: "ds_Devices (add_disk_totals v st) = ds_Devices st"
  by (simp add: add_disk_totals_def)

lemma disk_device_Device [simp]: "dd_Device (disk_device seconds p name c) = name"
  by (simp add: disk_device_def disk_counters_def Let_def split: option.split)

abbreviation device_at ::
  "f64 \<Rightarrow> (string \<times> raw_disk_stats) list \<Rightarrow> (string \<times> raw_disk_stats) list \<Rightarrow> string \<Rightarrow> disk_device_stats"
where
  "device_at seconds prev cur name \<equiv>
     disk_device seconds (map_of prev name) name (map_get zero_raw_disk cur name)"

lemma disk_loop_Devices:
  "ds_Devices (disk_loop seconds prev cur names st) =
    ds_Devices st @ map (device_at seconds prev cur) names"
  by (induction names arbitrary: st) (simp_all add: Let_def)

lemma disk_loop_totals:
  "ds_TotalReadBytesPerSec (disk_loop seconds prev cur names st) =
    foldl f64_add (ds_TotalReadBytesPerSec st)
      (map (\<lambda>n. dd_ReadBytesPerSec (device_at seconds prev cur n)) (filter isPrimaryDisk names))"
  "ds_TotalWriteBytesPerSec (disk_loop seconds prev cur names st) =
    foldl f64_add (ds_TotalWriteBytesPerSec st)
      (map (\<lambda>n. dd_WriteBytesPerSec (device_at seconds prev cur n)) (filter isPrimaryDisk names))"
  "ds_TotalReadIOPS (disk_loop seconds prev cur names st) =
    foldl f64_add (ds_TotalReadIOPS st)
      (map (\<lambda>n. dd_ReadIOPS (device_at seconds prev cur n)) (filter isPrimaryDisk names))"
  "ds_TotalWriteIOPS (disk_loop seconds prev cur names st) =
    foldl f64_add (ds_TotalWriteIOPS st)
      (map (\<lambda>n. dd_WriteIOPS (device_at seconds prev cur n)) (filter isPrimaryDisk names))"
  by (induction names arbitrary: st) (simp_all add: Let_def add_disk_totals_def)

lemma CalculateDiskStats_Devices:
  "ds_Devices (CalculateDiskStats now ord prev cur d) =
    map (device_at (elapsed_seconds d) prev cur) (sort ord)"
  by (simp add: CalculateDiskStats_def round_disk_totals_def disk_loop_Devices zero_disk_stats_def Let_def)

lemma device_cases:
  assumes "range_order ord cur" "dev \<in> set (ds_Devices (CalculateDiskStats now ord prev cur d))"
  obtains c where "map_of cur (dd_Device dev) = Some c"
    "dev = disk_device (elapsed_seconds d) (map_of prev (dd_Device dev)) (dd_Device dev) c"
proof -
  obtain name where n: "name \<in> set ord" "dev = device_at (elapsed_seconds d) prev cur name"
    using assms(2) by (auto simp: CalculateDiskStats_Devices)
  from range_order_map_of [OF assms(1) n(1)] obtain c where "map_of cur name = Some c" ..
  with n show ?thesis by (intro that [of c]) (simp_all add: map_get_def)
qed

lemma disk_device_nonneg:
  assumes "0 < seconds"
  shows "0 \<le> dd_ReadBytesPerSec (disk_device seconds p n c)" "0 \<le> dd_WriteBytesPerSec (disk_device seconds p n c)"
    "0 \<le> dd_ReadIOPS (disk_device seconds p n c)" "0 \<le> dd_WriteIOPS (disk_device seconds p n c)"
  by (simp_all add: disk_device_def disk_counters_def Let_def counter_rate_nonneg [OF assms] split: option.split)

section \<open>Lemmas: the parser\<close>

definition disks_map :: "(string \<times> raw_disk_stats) list \<Rightarrow> bool" where
  "disks_map m \<longleftrightarrow> distinct (map fst m) \<and>
     (\<forall>(k, s) \<in> set m. rd_DeviceName s = k \<and> \<not> shouldSkipDevice k)"

lemma parse_disk_line_name: "parse_disk_line l = Some s \<Longrightarrow> \<not> shouldSkipDevice (rd_DeviceName s)"
  by (auto simp: parse_disk_line_def Let_def split: if_splits)

lemma disks_map_update:
  "disks_map m \<Longrightarrow> \<not> shouldSkipDevice (rd_DeviceName s) \<Longrightarrow>
    disks_map (AList.update (rd_DeviceName s) s m)"
  using set_update_subset [of "rd_DeviceName s" s m] by (auto simp: disks_map_def distinct_update)

lemma diskstats_loop_map: "disks_map m \<Longrightarrow> disks_map (diskstats_loop ls m)"
  by (induction ls m rule: diskstats_loop.induct)
    (auto split: option.splits dest: parse_disk_line_name intro: disks_map_update)

lemma ParseProcDiskstats_map: "ParseProcDiskstats r = Inr m \<Longrightarrow> disks_map m"
  using diskstats_loop_map [of "[]" "fst (Scan r)"]
  by (auto simp: ParseProcDiskstats_def Let_def disks_map_def split: prod.splits option.splits)

lemma device_counters_at:
  assumes "distinct (map fst cur)" "(n, c) \<in> set cur"
  shows "dd_ReadBytes (device_at seconds prev cur n) = rd_SectorsRead c * 512"
    "dd_WriteBytes (device_at seconds prev cur n) = rd_SectorsWritten c * 512"
    "dd_IOTimeMs (device_at seconds prev cur n) = rd_IOTimeMs c"
  using map_of_is_SomeI [OF assms]
  by (simp_all add: map_get_def disk_device_def disk_counters_def SectorSizeBytes_def Let_def split: option.split)

section \<open>The collector meets the contract\<close>

definition disk_prior :: "disk_collector \<Rightarrow> (go_time \<times> (string \<times> raw_disk_stats) list) option" where
  "disk_prior d = map_option (\<lambda>m. (dc_lastTime d, m)) (dc_lastStats d)"

text \<open>The first success: every device in order, with its counters and no rates.\<close>

definition disk_baseline :: "go_time \<times> string list \<Rightarrow> go_time \<times> (string \<times> raw_disk_stats) list \<Rightarrow>
    disk_stats" where
  "disk_baseline env s = zero_disk_stats\<lparr>ds_Timestamp := fst env,
     ds_Devices := map (\<lambda>n. disk_counters n (map_get zero_raw_disk (snd s) n)) (sort (snd env))\<rparr>"

definition disk_delta :: "go_time \<times> string list \<Rightarrow> go_time \<times> (string \<times> raw_disk_stats) list \<Rightarrow>
    go_time \<times> (string \<times> raw_disk_stats) list \<Rightarrow> disk_stats" where
  "disk_delta env p s =
     CalculateDiskStats (fst env) (snd env) (snd p) (snd s) (time_Sub (fst s) (fst p))"

lemma disk_counters_Device [simp]: "dd_Device (disk_counters n c) = n"
  by (simp add: disk_counters_def)

lemma disk_loop_Timestamp: "ds_Timestamp (disk_loop seconds prev cur names st) = ds_Timestamp st"
  by (induction names arbitrary: st) (simp_all add: Let_def add_disk_totals_def)

lemma CalculateDiskStats_Timestamp: "ds_Timestamp (CalculateDiskStats now ord prev cur d) = now"
  by (simp add: CalculateDiskStats_def round_disk_totals_def disk_loop_Timestamp Let_def)

lemma CalculateDiskStats_stamped:
  "(CalculateDiskStats now ord prev cur d)\<lparr>ds_Timestamp := now\<rparr> = CalculateDiskStats now ord prev cur d"
  using CalculateDiskStats_Timestamp [of now ord prev cur d]
  by (metis disk_stats.surjective disk_stats.update_convs(1))

interpretation disk: delta_collector
  "\<lambda>d file env. Some (disk_Collect d file (fst env) (snd env))" disk_prior
  "parse_file ParseProcDiskstats" fits disk_baseline disk_delta
proof unfold_locales
  fix f :: proc_file and env :: "go_time \<times> string list" and e s st p
  show "Some (disk_Collect st f (fst env) (snd env)) = Some (Inl e, st)"
    if "parse_file ParseProcDiskstats f env = Inl e"
    using that by (auto simp: parse_file_def disk_Collect_def split: option.splits sum.splits)
  assume "parse_file ParseProcDiskstats f env = Inr s" and ok: "fits s env"
  then obtain r m where f: "f = Some r" "ParseProcDiskstats r = Inr m" "s = (fst env, m)"
    by (auto simp: parse_file_def split: option.splits sum.splits)
  show "\<exists>st'. Some (disk_Collect st f (fst env) (snd env)) = Some (Inr (disk_baseline env s), st') \<and>
      disk_prior st' = Some s" if "disk_prior st = None"
    using that f by (simp add: disk_Collect_def disk_prior_def disk_baseline_def sort_key_map)
  show "\<exists>st'. Some (disk_Collect st f (fst env) (snd env)) = Some (Inr (disk_delta env p s), st') \<and>
      disk_prior st' = Some s" if "disk_prior st = Some p"
    using that f
    by (auto simp: disk_Collect_def disk_prior_def disk_delta_def Let_def CalculateDiskStats_stamped)
qed

section \<open>The format of the kernel\<close>

text \<open>Major and minor number padded with blanks, the name, eleven counters, and further counters on
  newer kernels.\<close>

definition disk_counter_list :: "raw_disk_stats \<Rightarrow> u64 list" where
  "disk_counter_list s = [rd_ReadsCompleted s, rd_ReadsMerged s, rd_SectorsRead s, rd_ReadTimeMs s,
     rd_WritesCompleted s, rd_WritesMerged s, rd_SectorsWritten s, rd_WriteTimeMs s,
     rd_IOInProgress s, rd_IOTimeMs s, rd_WeightedIOTime s]"

fun render_disk :: "nat \<times> nat \<times> raw_disk_stats \<times> u64 list \<Rightarrow> string" where
  "render_disk (p1, p2, s, extra) =
     replicate p1 (CHR '' '') @ show_nat (nat (rd_Major s)) @ CHR '' '' #
     replicate p2 (CHR '' '') @ Join (show_nat (nat (rd_Minor s)) # rd_DeviceName s #
       map (\<lambda>w. show_nat (unat w)) (disk_counter_list s @ extra)) '' ''"

definition disk_line :: "nat \<times> nat \<times> raw_disk_stats \<times> u64 list \<Rightarrow> bool" where
  "disk_line e \<longleftrightarrow> (case e of (p1, p2, s, extra) \<Rightarrow>
     p1 \<le> 100 \<and> p2 \<le> 100 \<and> length extra \<le> 100 \<and> plain_word (rd_DeviceName s) \<and>
     length (rd_DeviceName s) \<le> 100 \<and> \<not> shouldSkipDevice (rd_DeviceName s) \<and>
     0 \<le> rd_Major s \<and> rd_Major s < 2 ^ 31 \<and> 0 \<le> rd_Minor s \<and> rd_Minor s < 2 ^ 31)"

abbreviation disk_of :: "nat \<times> nat \<times> raw_disk_stats \<times> u64 list \<Rightarrow> raw_disk_stats" where
  "disk_of e \<equiv> fst (snd (snd e))"

lemma Fields_render_disk:
  assumes "disk_line (p1, p2, s, extra)"
  shows "Fields (render_disk (p1, p2, s, extra)) = show_nat (nat (rd_Major s)) #
    show_nat (nat (rd_Minor s)) # rd_DeviceName s #
    map (\<lambda>w. show_nat (unat w)) (disk_counter_list s @ extra)"
proof -
  have ws: "list_all plain_word (show_nat (nat (rd_Minor s)) # rd_DeviceName s #
      map (\<lambda>w. show_nat (unat w)) (disk_counter_list s @ extra))"
    using assms by (auto simp: disk_line_def show_nat_plain list_all_iff simp del: show_nat.simps)
  show ?thesis
    by (simp only: render_disk.simps Fields_blanks Fields_word_blank [OF show_nat_plain] Fields_words [OF ws])
qed

lemma Atoi_show_major: "0 \<le> i \<Longrightarrow> i < 2 ^ 31 \<Longrightarrow> Atoi (show_nat (nat i)) = (i, None)"
  using Atoi_show_nat [of "nat i"] by simp

lemma parse_render_disk:
  assumes "disk_line (p1, p2, s, extra)"
  shows "parse_disk_line (render_disk (p1, p2, s, extra)) = Some s"
  using assms
  by (simp add: parse_disk_line_def Fields_render_disk [OF assms] disk_line_def disk_counter_list_def
      ParseUint_show Atoi_show_major nth_append del: render_disk.simps show_nat.simps)

lemma render_disk_text_line:
  assumes "disk_line e"
  shows "text_line (render_disk e)"
proof -
  obtain p1 p2 s extra where e: "e = (p1, p2, s, extra)" by (cases e)
  note line = assms [unfolded e]
  let ?ws = "show_nat (nat (rd_Minor s)) # rd_DeviceName s #
      map (\<lambda>w. show_nat (unat w)) (disk_counter_list s @ extra)"
  have num: "length (show_nat (nat i)) \<le> 20" if "i < 2 ^ 31" for i
  proof -
    have "nat i < 10 ^ Suc 19" using that by simp
    then show ?thesis using length_show_nat [of "nat i" 19] by simp
  qed
  have ws: "list_all plain_word ?ws"
    using line by (auto simp: disk_line_def show_nat_plain list_all_iff simp del: show_nat.simps)
  have "\<forall>w \<in> set ?ws. length w \<le> 100"
    using line num [of "rd_Minor s"] length_show_u64
    by (auto simp: disk_line_def simp del: show_nat.simps intro: order_trans [OF length_show_u64])
  from length_Join [OF this] have "length (Join ?ws '' '') \<le> 113 * 101"
    using line by (simp add: disk_line_def disk_counter_list_def del: Join.simps show_nat.simps)
  then have "length (render_disk e) < MaxScanTokenSize"
    using line num [of "rd_Major s"]
    by (simp add: e disk_line_def MaxScanTokenSize_def del: Join.simps show_nat.simps)
  then show ?thesis
    using Join_newline [OF ws] plain_word_newline [OF show_nat_plain]
    by (auto simp: text_line_def e simp del: Join.simps show_nat.simps)
qed

lemma diskstats_loop_render:
  assumes "\<forall>e \<in> set es. disk_line e" "distinct (map fst m @ map (\<lambda>e. rd_DeviceName (disk_of e)) es)"
  shows "diskstats_loop (map render_disk es) m =
    m @ map (\<lambda>e. (rd_DeviceName (disk_of e), disk_of e)) es"
  using assms
proof (induction es arbitrary: m)
  case (Cons e es)
  obtain p1 p2 s extra where e: "e = (p1, p2, s, extra)" by (cases e)
  have "AList.update (rd_DeviceName s) s m = m @ [(rd_DeviceName s, s)]"
    using Cons.prems(2) by (intro update_fresh) (auto simp: e)
  with Cons show ?case by (simp add: e parse_render_disk del: render_disk.simps)
qed simp

section \<open>Device names of the kernel\<close>

text \<open>Whole disks: SCSI, virtio, IDE and Xen disks with one letter, NVMe namespaces, MMC cards.\<close>

inductive kernel_disk :: "string \<Rightarrow> bool" where
  letter: "prefix \<in> {''sd'', ''vd'', ''hd'', ''xvd''} \<Longrightarrow> 97 \<le> byte c \<Longrightarrow> byte c \<le> 122 \<Longrightarrow>
    kernel_disk (prefix @ [c])"
| nvme: "kernel_disk (''nvme'' @ show_nat i @ ''n'' @ show_nat j)"
| mmc: "kernel_disk (''mmcblk'' @ show_nat i)"

text \<open>A partition is named after its disk; a \<open>p\<close> separates two numbers.\<close>

definition partition_name :: "string \<Rightarrow> nat \<Rightarrow> string" where
  "partition_name d n = d @ (if 48 \<le> byte (last d) \<and> byte (last d) \<le> 57 then ''p'' else []) @ show_nat n"

lemma letter_disk_suffix:
  assumes "prefix \<in> {''sd'', ''vd'', ''hd'', ''xvd''}"
  shows "isPrimaryDisk (prefix @ suf) \<longleftrightarrow>
    length suf = 1 \<and> 97 \<le> byte (suf ! 0) \<and> byte (suf ! 0) \<le> 122"
  using assms by (auto simp: isPrimaryDisk_def HasPrefix_def TrimPrefix_def Let_def)

lemma isPrimaryDisk_nvme: "isPrimaryDisk (''nvme'' @ s) \<longleftrightarrow> CHR ''p'' \<notin> set s"
  unfolding isPrimaryDisk_def Contains_single by (simp add: HasPrefix_def)

lemma isPrimaryDisk_mmcblk: "isPrimaryDisk (''mmcblk'' @ s) \<longleftrightarrow> CHR ''p'' \<notin> set s"
  unfolding isPrimaryDisk_def Contains_single by (simp add: HasPrefix_def)

lemma kernel_disk_primary: "kernel_disk d \<Longrightarrow> isPrimaryDisk d"
proof (induction rule: kernel_disk.induct)
  case (letter prefix c)
  then show ?case by (simp add: letter_disk_suffix)
next
  case (nvme i j)
  show ?case unfolding isPrimaryDisk_nvme using show_nat_no_p by (simp del: show_nat.simps)
next
  case (mmc i)
  show ?case unfolding isPrimaryDisk_mmcblk by (rule show_nat_no_p)
qed

lemma kernel_partition_not_primary: "kernel_disk d \<Longrightarrow> \<not> isPrimaryDisk (partition_name d n)"
proof (induction rule: kernel_disk.induct)
  case (letter prefix c)
  then have "partition_name (prefix @ [c]) n = prefix @ [c] @ show_nat n" by (simp add: partition_name_def)
  then show ?case using letter(1) show_nat_nonempty by (simp add: letter_disk_suffix del: show_nat.simps)
next
  case (nvme i j)
  have "partition_name (''nvme'' @ show_nat i @ ''n'' @ show_nat j) n =
      ''nvme'' @ (show_nat i @ ''n'' @ show_nat j @ ''p'' @ show_nat n)"
    using last_show_nat [of j] by (simp add: partition_name_def show_nat_nonempty del: show_nat.simps)
  then show ?case by (simp only: isPrimaryDisk_nvme) simp
next
  case (mmc i)
  have "partition_name (''mmcblk'' @ show_nat i) n = ''mmcblk'' @ (show_nat i @ ''p'' @ show_nat n)"
    using last_show_nat [of i] by (simp add: partition_name_def show_nat_nonempty del: show_nat.simps)
  then show ?case by (simp only: isPrimaryDisk_mmcblk) simp
qed

section \<open>Properties\<close>

text \<open>Parsing what the kernel prints in \<open>/proc/diskstats\<close> gives back all counters of every device.\<close>

lemma parse_diskstats_roundtrip:
  assumes "\<forall>e \<in> set es. disk_line e" "distinct (map (\<lambda>e. rd_DeviceName (disk_of e)) es)"
  shows "ParseProcDiskstats (unlines (map render_disk es), False) =
    Inr (map (\<lambda>e. (rd_DeviceName (disk_of e), disk_of e)) es)"
proof -
  have "Scan (unlines (map render_disk es), False) = (map render_disk es, None)"
    using assms(1) render_disk_text_line by (intro Scan_unlines) auto
  then show ?thesis using diskstats_loop_render [of es "[]"] assms by (simp add: ParseProcDiskstats_def)
qed

definition sample_disk :: "string \<Rightarrow> u64 \<Rightarrow> u64 \<Rightarrow> raw_disk_stats" where
  "sample_disk name reads sectors = zero_raw_disk\<lparr>rd_Major := 8, rd_DeviceName := name,
     rd_ReadsCompleted := reads, rd_SectorsRead := sectors\<rparr>"

lemma sample_disk_sel [simp]:
  "rd_DeviceName (sample_disk name r s) = name" "rd_Major (sample_disk name r s) = 8"
  "rd_Minor (sample_disk name r s) = 0" "rd_ReadsCompleted (sample_disk name r s) = r"
  "rd_SectorsRead (sample_disk name r s) = s" "rd_SectorsWritten (sample_disk name r s) = 0"
  by (simp_all add: sample_disk_def zero_raw_disk_def)

lemma disk_stats_devices:
  assumes "ParseProcDiskstats r = Inr cur" "range_order ord cur" "range_order ord' cur"
  shows "CalculateDiskStats now ord prev cur d = CalculateDiskStats now ord' prev cur d \<and>
    sorted_wrt (<) (map dd_Device (ds_Devices (CalculateDiskStats now ord prev cur d))) \<and>
    set (map (\<lambda>v. (dd_Device v, dd_ReadBytes v, dd_WriteBytes v, dd_IOTimeMs v))
      (ds_Devices (CalculateDiskStats now ord prev cur d))) =
    set (map (\<lambda>(n, c). (n, rd_SectorsRead c * 512, rd_SectorsWritten c * 512, rd_IOTimeMs c)) cur)"
proof (intro conjI)
  note keys = ParseProcDiskstats_map [OF assms(1), unfolded disks_map_def, THEN conjunct1]
  show "CalculateDiskStats now ord prev cur d = CalculateDiskStats now ord' prev cur d"
    using sorted_keys_unique [OF assms(2) keys] sorted_keys_unique [OF assms(3) keys]
    by (simp add: CalculateDiskStats_def)
  show "sorted_wrt (<) (map dd_Device (ds_Devices (CalculateDiskStats now ord prev cur d)))"
    using assms(2) by (simp add: CalculateDiskStats_Devices comp_def strict_sorted_iff range_order_def)
  let ?f = "\<lambda>v. (dd_Device v, dd_ReadBytes v, dd_WriteBytes v, dd_IOTimeMs v)"
  have "(\<lambda>n. ?f (device_at (elapsed_seconds d) prev cur n)) ` fst ` set cur =
      (\<lambda>(n, c). (n, rd_SectorsRead c * 512, rd_SectorsWritten c * 512, rd_IOTimeMs c)) ` set cur"
    unfolding image_image
    by (rule image_cong) (use device_counters_at [OF keys] in auto)
  then show "set (map ?f (ds_Devices (CalculateDiskStats now ord prev cur d))) =
      set (map (\<lambda>(n, c). (n, rd_SectorsRead c * 512, rd_SectorsWritten c * 512, rd_IOTimeMs c)) cur)"
    using assms(2)
    by (simp only: CalculateDiskStats_Devices range_order_def set_map set_sort image_image)
qed

lemma device_rate_accurate:
  assumes "(rate, counter, unit) \<in> {(dd_ReadBytesPerSec, rd_SectorsRead, 512 :: u64),
      (dd_WriteBytesPerSec, rd_SectorsWritten, 512), (dd_ReadIOPS, rd_ReadsCompleted, 1),
      (dd_WriteIOPS, rd_WritesCompleted, 1)}"
    and "range_order ord cur" "dev \<in> set (ds_Devices (CalculateDiskStats now ord prev cur d))"
    and "map_of prev (dd_Device dev) = Some p" "map_of cur (dd_Device dev) = Some c"
    and "counter p \<le> counter c" "(unat (counter c) - unat (counter p)) * unat unit < 2 ^ 64"
    and "0 < d" "d \<le> maxDuration"
  shows "\<bar>rate dev - of_nat ((unat (counter c) - unat (counter p)) * unat unit) / (of_int d / 1000000000)\<bar>
    \<le> 1 / 200 + (14 * (of_nat ((unat (counter c) - unat (counter p)) * unat unit) /
        (of_int d / 1000000000)) + 1) / 2 ^ 53"
proof -
  from device_cases [OF assms(2,3)] assms(4,5) have
    "dev = disk_device (elapsed_seconds d) (Some p) (dd_Device dev) c" by (metis option.inject)
  then obtain name where "dev = disk_device (elapsed_seconds d) (Some p) name c" ..
  then have "rate dev = counter_rate unit (counter p) (counter c) (elapsed_seconds d)"
    using assms(1) by (auto simp: disk_device_def SectorSizeBytes_def Let_def)
  then show ?thesis using counter_rate_close [OF assms(6-9)] by simp
qed

lemma disk_totals_nonneg:
  "0 \<le> ds_TotalReadBytesPerSec (CalculateDiskStats now ord prev cur d)"
  "0 \<le> ds_TotalWriteBytesPerSec (CalculateDiskStats now ord prev cur d)"
  "0 \<le> ds_TotalReadIOPS (CalculateDiskStats now ord prev cur d)"
  "0 \<le> ds_TotalWriteIOPS (CalculateDiskStats now ord prev cur d)"
  by (auto simp: CalculateDiskStats_def Let_def round_disk_totals_def disk_loop_totals zero_disk_stats_def
      intro!: roundFloat_nonneg f64_add_list_nonneg disk_device_nonneg elapsed_seconds_pos)

lemma device_rate_safe:
  assumes "(rate, counter) \<in> {(dd_ReadBytesPerSec, rd_SectorsRead),
      (dd_WriteBytesPerSec, rd_SectorsWritten), (dd_ReadIOPS, rd_ReadsCompleted),
      (dd_WriteIOPS, rd_WritesCompleted)}"
    and "range_order ord cur" "dev \<in> set (ds_Devices (CalculateDiskStats now ord prev cur d))"
    and "map_of cur (dd_Device dev) = Some c"
  shows "0 \<le> rate dev \<and>
    ((\<forall>p. map_of prev (dd_Device dev) = Some p \<longrightarrow> counter c < counter p) \<longrightarrow> rate dev = 0) \<and>
    0 \<le> ds_TotalReadBytesPerSec (CalculateDiskStats now ord prev cur d) \<and>
    0 \<le> ds_TotalWriteBytesPerSec (CalculateDiskStats now ord prev cur d) \<and>
    0 \<le> ds_TotalReadIOPS (CalculateDiskStats now ord prev cur d) \<and>
    0 \<le> ds_TotalWriteIOPS (CalculateDiskStats now ord prev cur d) \<and>
    (d \<le> 0 \<longrightarrow> CalculateDiskStats now ord prev cur d = CalculateDiskStats now ord prev cur Second)"
proof -
  from device_cases [OF assms(2,3)] assms(4) obtain name where
    dev: "dev = disk_device (elapsed_seconds d) (map_of prev name) name c" "dd_Device dev = name"
    by (metis option.inject)
  have "0 \<le> rate dev"
    using assms(1) disk_device_nonneg [OF elapsed_seconds_pos] by (auto simp: dev(1))
  moreover have "rate dev = 0" if "\<forall>p. map_of prev name = Some p \<longrightarrow> counter c < counter p"
    using that assms(1)
    by (auto simp: dev(1) disk_device_def disk_counters_def Let_def counter_rate_def not_le [symmetric]
        split: option.split)
  moreover have "elapsed_seconds d = elapsed_seconds Second" if "d \<le> 0"
    unfolding elapsed_seconds_nonpos [OF that] by code_simp
  ultimately show ?thesis
    by (simp add: dev(2) disk_totals_nonneg) (simp add: CalculateDiskStats_def)
qed

text \<open>C23. The rates are accurate and never made up.  For a device present in both snapshots whose counter
  has not gone backwards, over a positive duration, each of the four rates differs from the exact
  quotient of the delta (in bytes, or in operations) by the time by at most half of the last printed
  digit plus the rounding of the floating-point arithmetic.  Every rate is 0 when the device is new
  or its counter went backwards (a reset); every rate and every total is at least 0; and when the
  clock did not advance (or was set back, since \<open>UTC()\<close> drops the monotonic reading) the rates are
  those of one second.\<close>

theorem disk_rates_accurate:
  assumes "(rate, counter, unit) \<in> {(dd_ReadBytesPerSec, rd_SectorsRead, 512 :: u64),
      (dd_WriteBytesPerSec, rd_SectorsWritten, 512), (dd_ReadIOPS, rd_ReadsCompleted, 1),
      (dd_WriteIOPS, rd_WritesCompleted, 1)}"
    and "range_order ord cur" "dev \<in> set (ds_Devices (CalculateDiskStats now ord prev cur d))"
    and "map_of cur (dd_Device dev) = Some c"
  shows "(case map_of prev (dd_Device dev) of
       None \<Rightarrow> rate dev = 0
     | Some p \<Rightarrow>
         if counter c < counter p then rate dev = 0
         else let delta = (unat (counter c) - unat (counter p)) * unat unit; t = of_nat delta / (of_int d / 1000000000)
           in delta < 2 ^ 64 \<and> 0 < d \<and> d \<le> maxDuration \<longrightarrow> \<bar>rate dev - t\<bar> \<le> 1 / 200 + (14 * t + 1) / 2 ^ 53) \<and>
    0 \<le> rate dev \<and>
    0 \<le> ds_TotalReadBytesPerSec (CalculateDiskStats now ord prev cur d) \<and>
    0 \<le> ds_TotalWriteBytesPerSec (CalculateDiskStats now ord prev cur d) \<and>
    0 \<le> ds_TotalReadIOPS (CalculateDiskStats now ord prev cur d) \<and>
    0 \<le> ds_TotalWriteIOPS (CalculateDiskStats now ord prev cur d) \<and>
    (d \<le> 0 \<longrightarrow> CalculateDiskStats now ord prev cur d = CalculateDiskStats now ord prev cur Second)"
proof -
  have "(rate, counter) \<in> {(dd_ReadBytesPerSec, rd_SectorsRead), (dd_WriteBytesPerSec, rd_SectorsWritten),
      (dd_ReadIOPS, rd_ReadsCompleted), (dd_WriteIOPS, rd_WritesCompleted)}" using assms(1) by auto
  note safe = device_rate_safe [OF this assms(2-4)]
  show ?thesis
  proof (cases "map_of prev (dd_Device dev)")
    case (Some p)
    have zero: "rate dev = 0" if "counter c < counter p" using safe that Some by simp
    have close: "\<bar>rate dev - of_nat ((unat (counter c) - unat (counter p)) * unat unit) / (of_int d / 1000000000)\<bar>
        \<le> 1 / 200 + (14 * (of_nat ((unat (counter c) - unat (counter p)) * unat unit) / (of_int d / 1000000000)) + 1) / 2 ^ 53"
      if "\<not> counter c < counter p" "(unat (counter c) - unat (counter p)) * unat unit < 2 ^ 64" "0 < d" "d \<le> maxDuration"
      using device_rate_accurate [OF assms(1-3) Some assms(4)] that by (simp only: not_less)
    show ?thesis unfolding Some option.case Let_def
      using zero close safe by (cases "counter c < counter p") (simp_all only: if_True if_False simp_thms, blast+)
  qed (use safe in simp)
qed

theorem disk_rates_accurate_witness:
  "\<bar>dd_ReadBytesPerSec (hd (ds_Devices (CalculateDiskStats 0 [''sda''] [(''sda'', sample_disk ''sda'' 5 40)]
      [(''sda'', sample_disk ''sda'' 5 41)] 3000000000))) - 512 / 3\<bar> \<le> 1 / 200 + (14 * (512 / 3) + 1) / 2 ^ 53"
proof -
  let ?p = "[(''sda'', sample_disk ''sda'' 5 40)]" and ?c = "[(''sda'', sample_disk ''sda'' 5 41)]"
  let ?l = "ds_Devices (CalculateDiskStats 0 [''sda''] ?p ?c 3000000000)"
  have "\<bar>dd_ReadBytesPerSec dev - 512 / 3\<bar> \<le> 1 / 200 + (14 * (512 / 3) + 1) / 2 ^ 53"
    if "dev \<in> set ?l" "dd_Device dev = ''sda''" for dev
    using disk_rates_accurate [of dd_ReadBytesPerSec rd_SectorsRead 512 "[''sda'']" ?c dev 0 ?p 3000000000
      "sample_disk ''sda'' 5 41"] that
    by (simp add: range_order_def maxDuration_def)
  moreover have "hd ?l \<in> set ?l" "dd_Device (hd ?l) = ''sda''" by (simp_all add: CalculateDiskStats_Devices)
  ultimately show ?thesis by blast
qed

lemma disks_and_partitions:
  assumes "kernel_disk d"
  shows "isPrimaryDisk d \<and> \<not> isPrimaryDisk (partition_name d n)"
  using kernel_disk_primary [OF assms] kernel_partition_not_primary [OF assms] by blast

text \<open>The totals are those of the snapshot without partitions.\<close>

lemma disk_totals_ignore_partitions:
  assumes "ParseProcDiskstats r = Inr cur" "range_order ord cur"
    and "range_order ord' (filter (\<lambda>(n, _). isPrimaryDisk n) cur)"
    and "total_of \<in> {ds_TotalReadBytesPerSec, ds_TotalWriteBytesPerSec, ds_TotalReadIOPS, ds_TotalWriteIOPS}"
  shows "total_of (CalculateDiskStats now ord prev cur d) =
    total_of (CalculateDiskStats now ord' prev (filter (\<lambda>(n, _). isPrimaryDisk n) cur) d)"
proof -
  let ?disks = "filter (\<lambda>(n, _). isPrimaryDisk n) cur"
  have keys: "distinct (map fst cur)" using ParseProcDiskstats_map [OF assms(1)] by (simp add: disks_map_def)
  have "set ord' = set (filter isPrimaryDisk ord)" using assms(2,3) by (auto simp: range_order_def image_iff)
  moreover have "distinct ord'" "distinct ord" using assms(2,3) by (simp_all add: range_order_def)
  ultimately have names: "sort ord' = filter isPrimaryDisk (sort ord)"
    using sorted_filter [of "\<lambda>x. x" "sort ord"] by (intro sorted_distinct_set_unique) simp_all
  have "map_of ?disks n = map_of cur n" if "isPrimaryDisk n" for n
    using that by (induction cur) auto
  then have "map (\<lambda>n. f (device_at s prev ?disks n)) (filter isPrimaryDisk (sort ord)) =
      map (\<lambda>n. f (device_at s prev cur n)) (filter isPrimaryDisk (sort ord))" for f :: "_ \<Rightarrow> f64" and s
    by (intro map_cong refl) (simp add: map_get_def)
  note devices = this [of dd_ReadBytesPerSec] this [of dd_WriteBytesPerSec] this [of dd_ReadIOPS]
    this [of dd_WriteIOPS]
  show ?thesis using assms(4)
    by (auto simp: CalculateDiskStats_def Let_def round_disk_totals_def disk_loop_totals zero_disk_stats_def
        names devices)
qed

lemma two_letter_disks:
  assumes "prefix \<in> {''sd'', ''vd'', ''hd'', ''xvd''}" "2 \<le> length suf"
  shows "\<not> isPrimaryDisk (prefix @ suf) \<and>
    add_disk_totals (disk_device seconds p (prefix @ suf) c) stats = stats"
  using letter_disk_suffix [OF assms(1), of suf] assms(2) by (simp add: add_disk_totals_def)

text \<open>C29. Whole disks and partitions are told apart, but not all whole disks: for every name the kernel
  gives to a SCSI, virtio, IDE or Xen disk with one letter, to an NVMe namespace or to an MMC card,
  \<open>isPrimaryDisk\<close> accepts the disk and rejects all of its partitions.  The kernel names the disks
  after \<open>sdz\<close> with two letters, and these are treated like partitions: from the 27th disk on, whole
  disks such as \<open>sdaa\<close> are missing from the totals.\<close>

theorem whole_disks_recognised:
  shows "(kernel_disk d \<longrightarrow> isPrimaryDisk d \<and> \<not> isPrimaryDisk (partition_name d n)) \<and>
    (prefix \<in> {''sd'', ''vd'', ''hd'', ''xvd''} \<and> 2 \<le> length suf \<longrightarrow>
      \<not> isPrimaryDisk (prefix @ suf) \<and> add_disk_totals (disk_device seconds p (prefix @ suf) c) stats = stats)"
  using disks_and_partitions [of d n] two_letter_disks [of prefix suf] by blast

theorem whole_disks_recognised_witness:
  "isPrimaryDisk (''nvme'' @ show_nat 0 @ ''n'' @ show_nat 1) \<and>
   \<not> isPrimaryDisk (partition_name (''nvme'' @ show_nat 0 @ ''n'' @ show_nat 1) 2) \<and>
   add_disk_totals (disk_device 1 None (''sd'' @ ''aa'') zero_raw_disk) zero_disk_stats = zero_disk_stats"
proof -
  have "kernel_disk (''nvme'' @ show_nat 0 @ ''n'' @ show_nat 1)" by (rule kernel_disk.nvme)
  with whole_disks_recognised [of "''nvme'' @ show_nat 0 @ ''n'' @ show_nat 1" 2 "''sd''" "''aa''" 1 None
      zero_raw_disk zero_disk_stats] show ?thesis by simp
qed

lemma disk_collect_history:
  assumes "inputs_ok (parse_file ParseProcDiskstats) fits ins"
  shows "\<exists>d. collect_run (\<lambda>d file env. Some (disk_Collect d file (fst env) (snd env))) NewDiskCollector ins =
    Some (delta_outs (parse_file ParseProcDiskstats) disk_baseline disk_delta None ins, d)"
  using disk.run_outs [OF assms, of NewDiskCollector] by (simp add: disk_prior_def NewDiskCollector_def)

end
