(* ===== verification/Net_Collector.thy ===== *)
theory Net_Collector
  imports Rates "HOL-Library.Char_ord" "HOL-Library.List_Lexorder"
begin

text \<open>
  The network collector, \<open>internal/collector/net.go\<close>: the parser of \<open>/proc/net/dev\<close>, the
  throughput between two snapshots, the totals without the loopback interface, and the stateful
  \<open>Collect\<close>.
\<close>

section \<open>Parsing /proc/net/dev\<close>

text \<open>One line of the loop; \<open>None\<close> is \<open>continue\<close>.\<close>

definition parse_net_line :: "string \<Rightarrow> raw_net_stats option" where
  "parse_net_line line = (case IndexByte line (CHR '':'') of
     None \<Rightarrow> None
   | Some colonIdx \<Rightarrow>
       (let iface = TrimSpace (take colonIdx line);
            dataPart = TrimSpace (drop (colonIdx + 1) line);
            fs = Fields dataPart
        in if length fs < 16 then None
           else let parseUint = \<lambda>idx. fst (ParseUint (fs ! idx)) in
             Some \<lparr>rn_Interface = iface,
               rn_RxBytes = parseUint 0, rn_RxPackets = parseUint 1,
               rn_RxErrors = parseUint 2, rn_RxDrops = parseUint 3,
               rn_TxBytes = parseUint 8, rn_TxPackets = parseUint 9,
               rn_TxErrors = parseUint 10, rn_TxDrops = parseUint 11\<rparr>))"

fun netdev_loop :: "string list \<Rightarrow> (string \<times> raw_net_stats) list \<Rightarrow> (string \<times> raw_net_stats) list"
where
  "netdev_loop [] result = result"
| "netdev_loop (line # ls) result = (case parse_net_line line of
     None \<Rightarrow> netdev_loop ls result
   | Some stats \<Rightarrow> netdev_loop ls (AList.update (rn_Interface stats) stats result))"

definition ParseProcNetDev :: "reader \<Rightarrow> collect_error + (string \<times> raw_net_stats) list" where
  "ParseProcNetDev r = (case Scan r of (ls, err) \<Rightarrow>
     let result = netdev_loop ls [] in
     (case err of Some e \<Rightarrow> Inl (ScanFailed e) | None \<Rightarrow> Inr result))"

section \<open>Throughput between two snapshots\<close>

definition zero_raw_net :: raw_net_stats where
  "zero_raw_net = \<lparr>rn_Interface = [], rn_RxBytes = 0, rn_RxPackets = 0, rn_RxErrors = 0,
     rn_RxDrops = 0, rn_TxBytes = 0, rn_TxPackets = 0, rn_TxErrors = 0, rn_TxDrops = 0\<rparr>"

definition zero_net_stats :: net_stats where
  "zero_net_stats = \<lparr>ns_Timestamp = zero_time, ns_TotalRxBytesPerSec = 0,
     ns_TotalTxBytesPerSec = 0, ns_Interfaces = []\<rparr>"

definition net_counters :: "string \<Rightarrow> raw_net_stats \<Rightarrow> net_interface_stats" where
  "net_counters name iface = \<lparr>ni_Name = name, ni_RxBytes = rn_RxBytes iface,
     ni_TxBytes = rn_TxBytes iface, ni_RxBytesPerSec = 0, ni_TxBytesPerSec = 0,
     ni_RxPacketsPerSec = 0, ni_TxPacketsPerSec = 0, ni_RxErrors = rn_RxErrors iface,
     ni_TxErrors = rn_TxErrors iface, ni_RxDrops = rn_RxDrops iface, ni_TxDrops = rn_TxDrops iface\<rparr>"

definition net_interface :: "f64 \<Rightarrow> raw_net_stats option \<Rightarrow> string \<Rightarrow> raw_net_stats \<Rightarrow> net_interface_stats"
where
  "net_interface seconds prevIface name currIface =
     (let ifaceStat = net_counters name currIface in
      case prevIface of
        None \<Rightarrow> ifaceStat
      | Some p \<Rightarrow> ifaceStat\<lparr>
          ni_RxBytesPerSec := counter_rate 1 (rn_RxBytes p) (rn_RxBytes currIface) seconds,
          ni_TxBytesPerSec := counter_rate 1 (rn_TxBytes p) (rn_TxBytes currIface) seconds,
          ni_RxPacketsPerSec := counter_rate 1 (rn_RxPackets p) (rn_RxPackets currIface) seconds,
          ni_TxPacketsPerSec := counter_rate 1 (rn_TxPackets p) (rn_TxPackets currIface) seconds\<rparr>)"

definition add_net_totals :: "net_interface_stats \<Rightarrow> net_stats \<Rightarrow> net_stats" where
  "add_net_totals ifaceStat stats =
     (if ni_Name ifaceStat \<noteq> ''lo''
      then stats\<lparr>
        ns_TotalRxBytesPerSec := f64_add (ns_TotalRxBytesPerSec stats) (ni_RxBytesPerSec ifaceStat),
        ns_TotalTxBytesPerSec := f64_add (ns_TotalTxBytesPerSec stats) (ni_TxBytesPerSec ifaceStat)\<rparr>
      else stats)"

fun net_loop :: "f64 \<Rightarrow> (string \<times> raw_net_stats) list \<Rightarrow> (string \<times> raw_net_stats) list \<Rightarrow>
    string list \<Rightarrow> net_stats \<Rightarrow> net_stats" where
  "net_loop seconds prev cur [] stats = stats"
| "net_loop seconds prev cur (name # names) stats =
     (let ifaceStat = net_interface seconds (map_of prev name) name (map_get zero_raw_net cur name);
          stats = add_net_totals ifaceStat stats
      in net_loop seconds prev cur names (stats\<lparr>ns_Interfaces := ns_Interfaces stats @ [ifaceStat]\<rparr>))"

definition round_net_totals :: "net_stats \<Rightarrow> net_stats" where
  "round_net_totals stats = stats\<lparr>
     ns_TotalRxBytesPerSec := roundFloat (ns_TotalRxBytesPerSec stats) 2,
     ns_TotalTxBytesPerSec := roundFloat (ns_TotalTxBytesPerSec stats) 2\<rparr>"

definition CalculateNetStats :: "go_time \<Rightarrow> string list \<Rightarrow> (string \<times> raw_net_stats) list \<Rightarrow>
    (string \<times> raw_net_stats) list \<Rightarrow> go_duration \<Rightarrow> net_stats" where
  "CalculateNetStats now ord prev cur duration =
     (let seconds = elapsed_seconds duration;
          stats = zero_net_stats\<lparr>ns_Timestamp := now\<rparr>
      in round_net_totals (net_loop seconds prev cur (sort ord) stats))"

section \<open>The collector\<close>

record net_collector =
  nc_lastStats :: "(string \<times> raw_net_stats) list option"
  nc_lastTime :: go_time

definition NewNetCollector :: net_collector where
  "NewNetCollector = \<lparr>nc_lastStats = None, nc_lastTime = zero_time\<rparr>"

definition net_Collect :: "net_collector \<Rightarrow> proc_file \<Rightarrow> go_time \<Rightarrow> string list \<Rightarrow>
    (collect_error + net_stats) \<times> net_collector" where
  "net_Collect n file now ord = (case file of
     None \<Rightarrow> (Inl OpenFailed, n)
   | Some r \<Rightarrow> (case ParseProcNetDev r of
       Inl e \<Rightarrow> (Inl e, n)
     | Inr currStats \<Rightarrow> (case nc_lastStats n of
         None \<Rightarrow>
           (Inr (zero_net_stats\<lparr>ns_Timestamp := now, ns_Interfaces := sort_key ni_Name
              (map (\<lambda>name. net_counters name (map_get zero_raw_net currStats name)) ord)\<rparr>),
            n\<lparr>nc_lastStats := Some currStats, nc_lastTime := now\<rparr>)
       | Some lastStats \<Rightarrow>
           let duration = time_Sub now (nc_lastTime n);
               stats = (CalculateNetStats now ord lastStats currStats duration)\<lparr>ns_Timestamp := now\<rparr>
           in (Inr stats, n\<lparr>nc_lastStats := Some currStats, nc_lastTime := now\<rparr>))))"

section \<open>Lemmas: the loop over the interfaces\<close>

lemma add_net_totals_Interfaces [simp]: "ns_Interfaces (add_net_totals v st) = ns_Interfaces st"
  by (simp add: add_net_totals_def)

lemma net_interface_Name [simp]: "ni_Name (net_interface seconds p name c) = name"
  by (simp add: net_interface_def net_counters_def Let_def split: option.split)

lemma net_counters_Name [simp]: "ni_Name (net_counters n c) = n"
  by (simp add: net_counters_def)

abbreviation interface_at ::
  "f64 \<Rightarrow> (string \<times> raw_net_stats) list \<Rightarrow> (string \<times> raw_net_stats) list \<Rightarrow> string \<Rightarrow> net_interface_stats"
where
  "interface_at seconds prev cur name \<equiv>
     net_interface seconds (map_of prev name) name (map_get zero_raw_net cur name)"

lemma net_loop_Interfaces:
  "ns_Interfaces (net_loop seconds prev cur names st) =
    ns_Interfaces st @ map (interface_at seconds prev cur) names"
  by (induction names arbitrary: st) (simp_all add: Let_def)

lemma net_loop_totals:
  "ns_TotalRxBytesPerSec (net_loop seconds prev cur names st) =
    foldl f64_add (ns_TotalRxBytesPerSec st)
      (map (\<lambda>n. ni_RxBytesPerSec (interface_at seconds prev cur n)) (filter (\<lambda>n. n \<noteq> ''lo'') names))"
  "ns_TotalTxBytesPerSec (net_loop seconds prev cur names st) =
    foldl f64_add (ns_TotalTxBytesPerSec st)
      (map (\<lambda>n. ni_TxBytesPerSec (interface_at seconds prev cur n)) (filter (\<lambda>n. n \<noteq> ''lo'') names))"
  by (induction names arbitrary: st) (simp_all add: Let_def add_net_totals_def)

lemma CalculateNetStats_Interfaces:
  "ns_Interfaces (CalculateNetStats now ord prev cur d) =
    map (interface_at (elapsed_seconds d) prev cur) (sort ord)"
  by (simp add: CalculateNetStats_def round_net_totals_def net_loop_Interfaces zero_net_stats_def Let_def)

lemma interface_cases:
  assumes "range_order ord cur" "i \<in> set (ns_Interfaces (CalculateNetStats now ord prev cur d))"
  obtains c where "map_of cur (ni_Name i) = Some c"
    "i = net_interface (elapsed_seconds d) (map_of prev (ni_Name i)) (ni_Name i) c"
proof -
  obtain name where n: "name \<in> set ord" "i = interface_at (elapsed_seconds d) prev cur name"
    using assms(2) by (auto simp: CalculateNetStats_Interfaces)
  from range_order_map_of [OF assms(1) n(1)] obtain c where "map_of cur name = Some c" ..
  with n show ?thesis by (intro that [of c]) (simp_all add: map_get_def)
qed

lemma net_interface_nonneg:
  assumes "0 < seconds"
  shows "0 \<le> ni_RxBytesPerSec (net_interface seconds p n c)" "0 \<le> ni_TxBytesPerSec (net_interface seconds p n c)"
    "0 \<le> ni_RxPacketsPerSec (net_interface seconds p n c)" "0 \<le> ni_TxPacketsPerSec (net_interface seconds p n c)"
  by (simp_all add: net_interface_def net_counters_def Let_def counter_rate_nonneg [OF assms] split: option.split)

lemma net_totals_nonneg:
  "0 \<le> ns_TotalRxBytesPerSec (CalculateNetStats now ord prev cur d)"
  "0 \<le> ns_TotalTxBytesPerSec (CalculateNetStats now ord prev cur d)"
  by (auto simp: CalculateNetStats_def Let_def round_net_totals_def net_loop_totals zero_net_stats_def
      intro!: roundFloat_nonneg f64_add_list_nonneg net_interface_nonneg elapsed_seconds_pos)

section \<open>Lemmas: the parser\<close>

definition nets_map :: "(string \<times> raw_net_stats) list \<Rightarrow> bool" where
  "nets_map m \<longleftrightarrow> distinct (map fst m) \<and> (\<forall>(k, s) \<in> set m. rn_Interface s = k)"

lemma nets_map_update: "nets_map m \<Longrightarrow> nets_map (AList.update (rn_Interface s) s m)"
  using set_update_subset [of "rn_Interface s" s m] by (auto simp: nets_map_def distinct_update)

lemma netdev_loop_map: "nets_map m \<Longrightarrow> nets_map (netdev_loop ls m)"
  by (induction ls m rule: netdev_loop.induct) (auto split: option.splits intro: nets_map_update)

lemma ParseProcNetDev_map: "ParseProcNetDev r = Inr m \<Longrightarrow> nets_map m"
  using netdev_loop_map [of "[]" "fst (Scan r)"]
  by (auto simp: ParseProcNetDev_def Let_def nets_map_def split: prod.splits option.splits)

section \<open>The collector meets the contract\<close>

definition net_prior :: "net_collector \<Rightarrow> (go_time \<times> (string \<times> raw_net_stats) list) option" where
  "net_prior n = map_option (\<lambda>m. (nc_lastTime n, m)) (nc_lastStats n)"

definition net_baseline :: "go_time \<times> string list \<Rightarrow> go_time \<times> (string \<times> raw_net_stats) list \<Rightarrow>
    net_stats" where
  "net_baseline env s = zero_net_stats\<lparr>ns_Timestamp := fst env,
     ns_Interfaces := map (\<lambda>n. net_counters n (map_get zero_raw_net (snd s) n)) (sort (snd env))\<rparr>"

definition net_delta :: "go_time \<times> string list \<Rightarrow> go_time \<times> (string \<times> raw_net_stats) list \<Rightarrow>
    go_time \<times> (string \<times> raw_net_stats) list \<Rightarrow> net_stats" where
  "net_delta env p s =
     CalculateNetStats (fst env) (snd env) (snd p) (snd s) (time_Sub (fst s) (fst p))"

lemma net_loop_Timestamp: "ns_Timestamp (net_loop seconds prev cur names st) = ns_Timestamp st"
  by (induction names arbitrary: st) (simp_all add: Let_def add_net_totals_def)

lemma CalculateNetStats_Timestamp: "ns_Timestamp (CalculateNetStats now ord prev cur d) = now"
  by (simp add: CalculateNetStats_def round_net_totals_def net_loop_Timestamp Let_def)

lemma CalculateNetStats_stamped:
  "(CalculateNetStats now ord prev cur d)\<lparr>ns_Timestamp := now\<rparr> = CalculateNetStats now ord prev cur d"
  using CalculateNetStats_Timestamp [of now ord prev cur d]
  by (metis net_stats.surjective net_stats.update_convs(1))

interpretation net: delta_collector
  "\<lambda>n file env. Some (net_Collect n file (fst env) (snd env))" net_prior
  "parse_file ParseProcNetDev" fits net_baseline net_delta
proof unfold_locales
  fix f :: proc_file and env :: "go_time \<times> string list" and e s st p
  show "Some (net_Collect st f (fst env) (snd env)) = Some (Inl e, st)"
    if "parse_file ParseProcNetDev f env = Inl e"
    using that by (auto simp: parse_file_def net_Collect_def split: option.splits sum.splits)
  assume "parse_file ParseProcNetDev f env = Inr s" and ok: "fits s env"
  then obtain r m where f: "f = Some r" "ParseProcNetDev r = Inr m" "s = (fst env, m)"
    by (auto simp: parse_file_def split: option.splits sum.splits)
  show "\<exists>st'. Some (net_Collect st f (fst env) (snd env)) = Some (Inr (net_baseline env s), st') \<and>
      net_prior st' = Some s" if "net_prior st = None"
    using that f by (simp add: net_Collect_def net_prior_def net_baseline_def sort_key_map)
  show "\<exists>st'. Some (net_Collect st f (fst env) (snd env)) = Some (Inr (net_delta env p s), st') \<and>
      net_prior st' = Some s" if "net_prior st = Some p"
    using that f
    by (auto simp: net_Collect_def net_prior_def net_delta_def Let_def CalculateNetStats_stamped)
qed

section \<open>The format of the kernel\<close>

text \<open>The padded name, a colon, and sixteen padded numbers.\<close>

definition pad_words :: "(nat \<times> string) list \<Rightarrow> string" where
  "pad_words pws = concat (map (\<lambda>(p, w). CHR '' '' # replicate p (CHR '' '') @ w) pws)"

fun render_net :: "nat \<times> string \<times> (nat \<times> u64) list \<Rightarrow> string" where
  "render_net (pad, iface, cols) =
     replicate pad (CHR '' '') @ iface @ CHR '':'' # pad_words (map (\<lambda>(p, w). (p, show_nat (unat w))) cols)"

fun net_of :: "nat \<times> string \<times> (nat \<times> u64) list \<Rightarrow> raw_net_stats" where
  "net_of (pad, iface, cols) = (let c = \<lambda>i. snd (cols ! i) in
     \<lparr>rn_Interface = iface, rn_RxBytes = c 0, rn_RxPackets = c 1, rn_RxErrors = c 2, rn_RxDrops = c 3,
       rn_TxBytes = c 8, rn_TxPackets = c 9, rn_TxErrors = c 10, rn_TxDrops = c 11\<rparr>)"

definition net_line :: "nat \<times> string \<times> (nat \<times> u64) list \<Rightarrow> bool" where
  "net_line e \<longleftrightarrow> (case e of (pad, iface, cols) \<Rightarrow>
     pad \<le> 100 \<and> plain_word iface \<and> CHR '':'' \<notin> set iface \<and> length iface \<le> 100 \<and>
     length cols = 16 \<and> (\<forall>(p, w) \<in> set cols. p \<le> 100))"

lemma pad_words_Cons: "pad_words ((p, w) # pws) = CHR '' '' # replicate p (CHR '' '') @ w @ pad_words pws"
  by (simp add: pad_words_def)

lemma Fields_pad_words: "\<forall>(p, w) \<in> set pws. plain_word w \<Longrightarrow> Fields (pad_words pws) = map snd pws"
proof (induction pws)
  case Nil
  then show ?case by (simp add: pad_words_def Fields_def flush_field_def)
next
  case (Cons pw pws)
  obtain p w where pw: "pw = (p, w)" by (cases pw)
  have w: "plain_word w" using Cons.prems by (simp add: pw)
  have "Fields (w @ pad_words pws) = w # Fields (pad_words pws)"
  proof (cases pws)
    case Nil
    then show ?thesis using Fields_words [of "[w]"] w by (simp add: pad_words_def Fields_def flush_field_def)
  next
    case (Cons pw2 pws2)
    then show ?thesis using Fields_word_blank [OF w] by (cases pw2) (simp add: pad_words_Cons Fields_blank)
  qed
  then show ?case using Cons by (simp add: pw pad_words_Cons Fields_blank Fields_blanks)
qed

lemma last_pad_words:
  "\<forall>(p, w) \<in> set pws. plain_word w \<Longrightarrow> pws \<noteq> [] \<Longrightarrow>
    pad_words pws \<noteq> [] \<and> plain_char (last (pad_words pws))"
proof (induction pws)
  case (Cons pw pws)
  then show ?case
    by (cases pw; cases pws) (auto simp: pad_words_Cons plain_word_def list_all_iff pad_words_def)
qed simp

lemma TrimSpace_pad_words:
  assumes "\<forall>(p, w) \<in> set pws. plain_word w"
  shows "Fields (TrimSpace (pad_words pws)) = map snd pws"
proof (cases pws)
  case Nil
  then show ?thesis by (simp add: pad_words_def TrimSpace_def Fields_def flush_field_def)
next
  case (Cons pw pws')
  obtain p w where pw: "pw = (p, w)" by (cases pw)
  have w: "plain_word w" using assms by (simp add: Cons pw)
  let ?s = "w @ pad_words pws'"
  have all: "pad_words pws = replicate (Suc p) (CHR '' '') @ ?s" by (simp add: Cons pw pad_words_Cons)
  have s: "?s \<noteq> []" "plain_char (hd ?s)"
    using w plain_word_hd [OF w] by (auto simp: plain_word_def)
  moreover have "last (pad_words pws) = last ?s" unfolding all by (rule last_appendR [OF s(1)])
  then have "plain_char (last ?s)" using last_pad_words [OF assms] by (simp add: Cons)
  ultimately have "TrimSpace ?s = ?s" by (rule TrimSpace_plain)
  then have "TrimSpace (pad_words pws) = ?s" by (simp only: all TrimSpace_blanks)
  moreover have "Fields ?s = Fields (pad_words pws)" by (simp only: all Fields_blanks)
  ultimately show ?thesis by (simp only: Fields_pad_words [OF assms])
qed

lemma IndexByte_name: "CHR '':'' \<notin> set iface \<Longrightarrow>
    IndexByte (replicate pad (CHR '' '') @ iface @ CHR '':'' # t) (CHR '':'') = Some (pad + length iface)"
  using IndexByte_append [of "CHR '':''" "replicate pad (CHR '' '') @ iface" t] by simp

lemma parse_render_net:
  assumes "net_line (pad, iface, cols)"
  shows "parse_net_line (render_net (pad, iface, cols)) = Some (net_of (pad, iface, cols))"
proof -
  let ?pws = "map (\<lambda>(p, w). (p, show_nat (unat w))) cols"
  have "\<forall>(p, w) \<in> set ?pws. plain_word w" by (auto simp: show_nat_plain simp del: show_nat.simps)
  note f = TrimSpace_pad_words [OF this]
  have name: "TrimSpace (replicate pad (CHR '' '') @ iface) = iface"
    using assms by (simp add: net_line_def TrimSpace_blanks TrimSpace_plain_word)
  have col: "fst (ParseUint (map snd ?pws ! i)) = snd (cols ! i)" if "i < 16" for i
    using that assms by (simp add: net_line_def case_prod_beta ParseUint_show del: show_nat.simps)
  have len: "length (map snd ?pws) = 16" using assms by (simp add: net_line_def)
  show ?thesis
    using assms name f len
    by (simp add: parse_net_line_def net_line_def IndexByte_name Let_def col del: length_map map_map)
qed

lemma length_pad_words:
  "\<forall>(p, w) \<in> set pws. p \<le> 100 \<and> length w \<le> 20 \<Longrightarrow> length (pad_words pws) \<le> 121 * length pws"
  by (induction pws) (auto simp: pad_words_Cons pad_words_def)

lemma pad_words_newline:
  "\<forall>(p, w) \<in> set pws. plain_word w \<Longrightarrow>
    CHR 0x0A \<notin> set (pad_words pws) \<and> CHR 0x0D \<notin> set (pad_words pws)"
  by (induction pws) (auto simp: pad_words_Cons pad_words_def dest: plain_word_newline)

lemma render_net_text_line:
  assumes "net_line e"
  shows "text_line (render_net e)"
proof -
  obtain pad iface cols where e: "e = (pad, iface, cols)" by (cases e)
  note line = assms [unfolded e]
  let ?pws = "map (\<lambda>(p, w). (p, show_nat (unat w))) cols"
  have plain: "\<forall>(p, w) \<in> set ?pws. plain_word w" by (auto simp: show_nat_plain simp del: show_nat.simps)
  have "\<forall>(p, w) \<in> set ?pws. p \<le> 100 \<and> length w \<le> 20"
    using line length_show_u64 by (auto simp: net_line_def simp del: show_nat.simps)
  then have "length (pad_words ?pws) \<le> 121 * 16"
    using length_pad_words [of ?pws] line by (simp add: net_line_def)
  then have "length (render_net e) < MaxScanTokenSize"
    using line by (simp add: e net_line_def MaxScanTokenSize_def)
  then show ?thesis
    using pad_words_newline [OF plain] line plain_word_newline [of iface]
    by (auto simp: text_line_def e net_line_def)
qed

lemma netdev_loop_render:
  assumes "\<forall>e \<in> set es. net_line e" "distinct (map fst m @ map (\<lambda>e. rn_Interface (net_of e)) es)"
  shows "netdev_loop (map render_net es) m = m @ map (\<lambda>e. (rn_Interface (net_of e), net_of e)) es"
  using assms
proof (induction es arbitrary: m)
  case (Cons e es)
  obtain pad iface cols where e: "e = (pad, iface, cols)" by (cases e)
  have "AList.update (rn_Interface (net_of e)) (net_of e) m = m @ [(rn_Interface (net_of e), net_of e)]"
    using Cons.prems(2) by (intro update_fresh) auto
  moreover have "parse_net_line (render_net e) = Some (net_of e)"
    using Cons.prems(1) by (simp add: e parse_render_net del: render_net.simps net_of.simps)
  ultimately show ?case using Cons by (simp del: render_net.simps net_of.simps)
qed simp

section \<open>Properties\<close>

text \<open>Parsing what the kernel prints in \<open>/proc/net/dev\<close> gives back the eight counters of every interface.\<close>

lemma parse_netdev_roundtrip:
  assumes "\<forall>e \<in> set es. net_line e" "distinct (map (\<lambda>e. rn_Interface (net_of e)) es)"
    and "\<forall>l \<in> set header. text_line l \<and> CHR '':'' \<notin> set l"
  shows "ParseProcNetDev (unlines (header @ map render_net es), False) =
    Inr (map (\<lambda>e. (rn_Interface (net_of e), net_of e)) es)"
proof -
  have "Scan (unlines (header @ map render_net es), False) = (header @ map render_net es, None)"
    using assms(1,3) render_net_text_line by (intro Scan_unlines) auto
  moreover have "netdev_loop (header @ ls) [] = netdev_loop ls []" for ls
    using assms(3) by (induction header) (auto simp: parse_net_line_def IndexByte_None [THEN iffD2])
  ultimately show ?thesis using netdev_loop_render [of es "[]"] assms(1,2) by (simp add: ParseProcNetDev_def)
qed

definition sample_net :: "string \<Rightarrow> u64 \<Rightarrow> u64 \<Rightarrow> raw_net_stats" where
  "sample_net name rx packets = zero_raw_net\<lparr>rn_Interface := name, rn_RxBytes := rx,
     rn_RxPackets := packets\<rparr>"

lemma sample_net_sel [simp]:
  "rn_Interface (sample_net name r p) = name" "rn_RxBytes (sample_net name r p) = r"
  "rn_RxPackets (sample_net name r p) = p"
  by (simp_all add: sample_net_def)

text \<open>C24. The throughput is accurate: for an interface present in both snapshots whose counter has not
  gone backwards, over a positive duration, each of the four rates differs from the exact quotient
  by at most half of the last printed digit plus the floating-point rounding; a new interface or a
  counter that was reset has rate 0; no rate is negative.\<close>

theorem net_rates_accurate:
  assumes "(rate, counter) \<in> {(ni_RxBytesPerSec, rn_RxBytes), (ni_TxBytesPerSec, rn_TxBytes),
      (ni_RxPacketsPerSec, rn_RxPackets), (ni_TxPacketsPerSec, rn_TxPackets)}"
    and "range_order ord cur" "i \<in> set (ns_Interfaces (CalculateNetStats now ord prev cur d))"
    and "map_of cur (ni_Name i) = Some c" and "0 < d" "d \<le> maxDuration"
  shows "0 \<le> rate i \<and>
    (case map_of prev (ni_Name i) of
       None \<Rightarrow> rate i = 0
     | Some p \<Rightarrow>
         if counter p \<le> counter c
         then let t = of_nat (unat (counter c) - unat (counter p)) / (of_int d / 1000000000)
              in \<bar>rate i - t\<bar> \<le> 1 / 200 + (14 * t + 1) / 2 ^ 53
         else rate i = 0)"
proof -
  from interface_cases [OF assms(2,3)] assms(4) obtain name where
    i: "i = net_interface (elapsed_seconds d) (map_of prev name) name c" "ni_Name i = name"
    by (metis option.inject)
  have "0 \<le> rate i" using assms(1) net_interface_nonneg [OF elapsed_seconds_pos] by (auto simp: i(1))
  moreover have "rate i = 0" if "map_of prev name = None"
    using that assms(1) by (auto simp: i(1) net_interface_def net_counters_def)
  moreover have rate: "rate i = counter_rate 1 (counter p) (counter c) (elapsed_seconds d)"
    if "map_of prev name = Some p" for p
    using that assms(1) by (auto simp: i(1) net_interface_def Let_def)
  moreover have fits: "(unat (counter c) - unat (counter p)) * unat (1 :: u64) < 2 ^ 64" for p
    using unsigned_less [of "counter c", where 'a = nat] by (simp add: less_imp_diff_less)
  ultimately show ?thesis
    using counter_rate_close [OF _ fits assms(5,6)]
    by (auto simp: i(2) Let_def counter_rate_def split: option.split)
qed

theorem net_rates_accurate_witness:
  "\<bar>ni_RxBytesPerSec (hd (ns_Interfaces (CalculateNetStats 0 [''eth0''] [(''eth0'', sample_net ''eth0'' 5 1)]
      [(''eth0'', sample_net ''eth0'' 12 2)] 3000000000))) - 7 / 3\<bar> \<le> 1 / 200 + (14 * (7 / 3) + 1) / 2 ^ 53"
proof -
  let ?p = "[(''eth0'', sample_net ''eth0'' 5 1)]" and ?c = "[(''eth0'', sample_net ''eth0'' 12 2)]"
  let ?l = "ns_Interfaces (CalculateNetStats 0 [''eth0''] ?p ?c 3000000000)"
  have "\<bar>ni_RxBytesPerSec i - 7 / 3\<bar> \<le> 1 / 200 + (14 * (7 / 3) + 1) / 2 ^ 53"
    if "i \<in> set ?l" "ni_Name i = ''eth0''" for i
    using net_rates_accurate [of ni_RxBytesPerSec rn_RxBytes "[''eth0'']" ?c i 0 ?p 3000000000
      "sample_net ''eth0'' 12 2"] that
    by (simp add: range_order_def maxDuration_def)
  moreover have "hd ?l \<in> set ?l" "ni_Name (hd ?l) = ''eth0''" by (simp_all add: CalculateNetStats_Interfaces)
  ultimately show ?thesis by blast
qed

text \<open>The totals are the rounded sums over all interfaces but the loopback.\<close>

lemma net_totals_without_loopback:
  assumes "ParseProcNetDev r = Inr cur" "range_order ord cur"
  shows "ns_TotalRxBytesPerSec (CalculateNetStats now ord prev cur d) =
      roundFloat (foldl f64_add 0 (map ni_RxBytesPerSec
        (filter (\<lambda>i. ni_Name i \<noteq> ''lo'') (ns_Interfaces (CalculateNetStats now ord prev cur d))))) 2 \<and>
    ns_TotalTxBytesPerSec (CalculateNetStats now ord prev cur d) =
      roundFloat (foldl f64_add 0 (map ni_TxBytesPerSec
        (filter (\<lambda>i. ni_Name i \<noteq> ''lo'') (ns_Interfaces (CalculateNetStats now ord prev cur d))))) 2 \<and>
    map ni_Name (ns_Interfaces (CalculateNetStats now ord prev cur d)) = sort (map fst cur)"
proof -
  have keys: "distinct (map fst cur)" using ParseProcNetDev_map [OF assms(1)] by (simp add: nets_map_def)
  have "map ni_Name (ns_Interfaces (CalculateNetStats now ord prev cur d)) = sort ord"
    by (simp add: CalculateNetStats_Interfaces comp_def)
  then show ?thesis
    using sorted_keys_unique [OF assms(2) keys]
    by (simp add: CalculateNetStats_Interfaces filter_map comp_def)
      (simp add: CalculateNetStats_def Let_def round_net_totals_def net_loop_totals zero_net_stats_def)
qed

lemma net_collect_history:
  assumes "inputs_ok (parse_file ParseProcNetDev) fits ins"
  shows "\<exists>n. collect_run (\<lambda>n file env. Some (net_Collect n file (fst env) (snd env))) NewNetCollector ins =
    Some (delta_outs (parse_file ParseProcNetDev) net_baseline net_delta None ins, n)"
  using net.run_outs [OF assms, of NewNetCollector] by (simp add: net_prior_def NewNetCollector_def)

end
