(* ===== verification/Go_Concurrency.thy ===== *)
theory Go_Concurrency
  imports Sugi_Prelude
begin

text \<open>
  Buffered channels of Go, and labelled transition systems for goroutines that interleave: a step
  takes an event (which goroutine moves, and how) and a state to the next state, or to \<open>None\<close> when
  the event is not enabled.  The two locales hold the induction over runs once and for all.
\<close>

section \<open>Buffered channels\<close>

record 'a go_chan =
  gc_cap :: nat
  gc_buf :: "'a list"
  gc_closed :: bool

definition make_chan :: "nat \<Rightarrow> 'a go_chan" where
  "make_chan n = \<lparr>gc_cap = n, gc_buf = [], gc_closed = False\<rparr>"

text \<open>\<open>select { case ch <- x: ... default: ... }\<close>: whether the value was sent, and the channel; a send
  on a closed channel panics.\<close>

definition chan_try_send :: "'a \<Rightarrow> 'a go_chan \<Rightarrow> (bool \<times> 'a go_chan) option" where
  "chan_try_send x c =
     (if gc_closed c then None
      else if length (gc_buf c) < gc_cap c then Some (True, c\<lparr>gc_buf := gc_buf c @ [x]\<rparr>)
      else Some (False, c))"

text \<open>\<open>x, ok := <-ch\<close>: \<open>None\<close> when it would block; \<open>Some (None, _)\<close> when the channel is closed and
  empty.\<close>

definition chan_recv :: "'a go_chan \<Rightarrow> ('a option \<times> 'a go_chan) option" where
  "chan_recv c = (case gc_buf c of
     x # xs \<Rightarrow> Some (Some x, c\<lparr>gc_buf := xs\<rparr>)
   | [] \<Rightarrow> if gc_closed c then Some (None, c) else None)"

text \<open>Closing twice panics.\<close>

definition chan_close :: "'a go_chan \<Rightarrow> 'a go_chan option" where
  "chan_close c = (if gc_closed c then None else Some (c\<lparr>gc_closed := True\<rparr>))"

definition chan_ok :: "'a go_chan \<Rightarrow> bool" where
  "chan_ok c \<longleftrightarrow> length (gc_buf c) \<le> gc_cap c"

lemma make_chan_sel [simp]:
  "gc_cap (make_chan n) = n" "gc_buf (make_chan n) = []" "\<not> gc_closed (make_chan n)" "chan_ok (make_chan n)"
  by (simp_all add: make_chan_def chan_ok_def)

lemma chan_try_send_cases:
  assumes "chan_try_send x c = Some (sent, c')"
  shows "gc_buf c' = gc_buf c @ (if sent then [x] else [])" "gc_cap c' = gc_cap c"
    "gc_closed c' = gc_closed c" "\<not> gc_closed c" "sent \<longleftrightarrow> length (gc_buf c) < gc_cap c"
    "chan_ok c \<Longrightarrow> chan_ok c'"
  using assms by (auto simp: chan_try_send_def chan_ok_def split: if_splits)

lemma chan_recv_cases:
  assumes "chan_recv c = Some (r, c')"
  shows "gc_buf c = (case r of None \<Rightarrow> [] | Some x \<Rightarrow> [x]) @ gc_buf c'" "gc_cap c' = gc_cap c"
    "gc_closed c' = gc_closed c" "r = None \<longleftrightarrow> gc_buf c = []" "r = None \<Longrightarrow> gc_closed c"
    "chan_ok c \<Longrightarrow> chan_ok c'"
  using assms by (auto simp: chan_recv_def chan_ok_def split: list.splits if_splits)

lemma chan_recv_blocks: "chan_recv c = None \<longleftrightarrow> gc_buf c = [] \<and> \<not> gc_closed c"
  by (auto simp: chan_recv_def split: list.splits)

lemma chan_try_send_panics: "chan_try_send x c = None \<longleftrightarrow> gc_closed c"
  by (auto simp: chan_try_send_def)

section \<open>Runs of a transition system\<close>

fun run :: "('e \<Rightarrow> 's \<Rightarrow> 's option) \<Rightarrow> 'e list \<Rightarrow> 's \<Rightarrow> 's option" where
  "run step [] s = Some s"
| "run step (e # es) s = (case step e s of None \<Rightarrow> None | Some s' \<Rightarrow> run step es s')"

definition reachable :: "('e \<Rightarrow> 's \<Rightarrow> 's option) \<Rightarrow> 's \<Rightarrow> 's \<Rightarrow> bool" where
  "reachable step s s' \<longleftrightarrow> (\<exists>es. run step es s = Some s')"

lemma run_append:
  "run step (es @ fs) s = (case run step es s of None \<Rightarrow> None | Some s' \<Rightarrow> run step fs s')"
  by (induction es arbitrary: s) (auto split: option.split)

lemma reachable_refl [simp]: "reachable step s s"
  unfolding reachable_def by (rule exI [of _ "[]"]) simp

lemma reachable_trans: "reachable step s t \<Longrightarrow> reachable step t u \<Longrightarrow> reachable step s u"
  unfolding reachable_def using run_append by (metis option.simps(5))

lemma reachableI: "run step es s = Some s' \<Longrightarrow> reachable step s s'"
  by (auto simp: reachable_def)

locale invariant_system =
  fixes step :: "'e \<Rightarrow> 's \<Rightarrow> 's option"
    and inv :: "'s \<Rightarrow> bool"
  assumes step_inv: "inv s \<Longrightarrow> step e s = Some s' \<Longrightarrow> inv s'"
begin

lemma run_inv: "inv s \<Longrightarrow> run step es s = Some s' \<Longrightarrow> inv s'"
  by (induction es arbitrary: s) (auto split: option.splits dest: step_inv)

lemma reachable_inv: "inv s \<Longrightarrow> reachable step s s' \<Longrightarrow> inv s'"
  by (auto simp: reachable_def intro: run_inv)

end

text \<open>Some events make progress: they decrease a measure from every state of the invariant, and as
  long as the goal is not reached, one of them is enabled.\<close>

locale progress_system = invariant_system +
  fixes progress :: "'e \<Rightarrow> bool"
    and meas :: "'s \<Rightarrow> nat"
    and goal :: "'s \<Rightarrow> bool"
  assumes progress_decreases: "inv s \<Longrightarrow> progress e \<Longrightarrow> step e s = Some s' \<Longrightarrow> meas s' < meas s"
    and progress_enabled: "inv s \<Longrightarrow> \<not> goal s \<Longrightarrow> \<exists>e. progress e \<and> step e s \<noteq> None"
begin

lemma progress_bounded:
  "inv s \<Longrightarrow> \<forall>e \<in> set es. progress e \<Longrightarrow> run step es s = Some s' \<Longrightarrow> length es + meas s' \<le> meas s"
proof (induction es arbitrary: s)
  case (Cons e es)
  then obtain s1 where s1: "step e s = Some s1" "run step es s1 = Some s'" by (auto split: option.splits)
  from Cons.IH [OF step_inv [OF Cons.prems(1) s1(1)] _ s1(2)] Cons.prems(2)
    progress_decreases [OF Cons.prems(1) _ s1(1)] show ?case by simp
qed simp

text \<open>Every run of progress events can be continued until the goal is reached.\<close>

lemma goal_reached:
  "inv s \<Longrightarrow> \<exists>es s'. (\<forall>e \<in> set es. progress e) \<and> run step es s = Some s' \<and> goal s'"
proof (induction "meas s" arbitrary: s rule: less_induct)
  case less
  show ?case
  proof (cases "goal s")
    case True
    then show ?thesis by (intro exI [of _ "[]"] exI [of _ s]) simp
  next
    case False
    then obtain e s1 where e: "progress e" "step e s = Some s1"
      using progress_enabled [OF less.prems] by blast
    from less.hyps [OF progress_decreases [OF less.prems e] step_inv [OF less.prems e(2)]]
    obtain es s' where "\<forall>e \<in> set es. progress e" "run step es s1 = Some s'" "goal s'" by blast
    with e show ?thesis by (intro exI [of _ "e # es"] exI [of _ s']) simp
  qed
qed

end

end
