(* ===== verification/Log_Writer.thy ===== *)
theory Log_Writer
  imports Metrics_Model Go_Concurrency "HOL-Library.Multiset"
begin

text \<open>
  The asynchronous batch writer, \<open>internal/storage/log_writer.go\<close>, as a transition system.  The
  goroutines are any number of callers of \<open>Enqueue\<close>, the batch worker, the prune worker, and the
  caller of \<open>Close\<close>.  Each event is one atomic action: what happens under the mutex, one branch
  of a \<open>select\<close>, or one operation on a channel.

  A flush is part of the event that triggers it: the worker's batch is local to it, so a flush
  commutes with everything the other goroutines do.  The storage is seen through the calls it
  receives, in order, each with its outcome (the argument \<open>ok\<close> of an event).
\<close>

section \<open>Configuration\<close>

record writer_config =
  wc_BufferSize :: int
  wc_BatchSize :: int
  wc_FlushInterval :: go_duration
  wc_Retention :: go_duration
  wc_PruneInterval :: go_duration

definition DefaultAsyncLogWriterConfig :: writer_config where
  "DefaultAsyncLogWriterConfig = \<lparr>wc_BufferSize = 5000, wc_BatchSize = 200,
     wc_FlushInterval = 500 * Millisecond, wc_Retention = 7 * 24 * Hour, wc_PruneInterval = 1 * Hour\<rparr>"

definition normalize_config :: "writer_config \<Rightarrow> writer_config" where
  "normalize_config cfg = \<lparr>
     wc_BufferSize = (if wc_BufferSize cfg \<le> 0 then 5000 else wc_BufferSize cfg),
     wc_BatchSize = (if wc_BatchSize cfg \<le> 0 then 200 else wc_BatchSize cfg),
     wc_FlushInterval = (if wc_FlushInterval cfg \<le> 0 then 500 * Millisecond else wc_FlushInterval cfg),
     wc_Retention = (if wc_Retention cfg \<le> 0 then 7 * 24 * Hour else wc_Retention cfg),
     wc_PruneInterval = (if wc_PruneInterval cfg \<le> 0 then 1 * Hour else wc_PruneInterval cfg)\<rparr>"

section \<open>State\<close>

text \<open>The batch worker is in its main loop, in the drain loop, or has returned.\<close>

datatype worker_pc = Batching | Draining | Stopped

text \<open>The first caller of \<open>Close\<close>: not called, flag set, \<open>done\<close> closed and waiting, returned
  \<open>nil\<close> (\<open>True\<close>) or the context's error.\<close>

datatype closer_pc = NotClosing | Marked | Waiting | Returned bool

datatype storage_call = WriteCall "log_entry list" bool | PruneCall go_duration bool

text \<open>The last three components are history: callers that have passed the check of \<open>closed\<close> and
  not yet sent, the entries for which \<open>Enqueue\<close> returned true, and the callers that had passed
  the check when \<open>Close\<close> set the flag.\<close>

record log_writer =
  lw_cfg :: writer_config
  lw_ch :: "log_entry go_chan"
  lw_done :: bool
  lw_closed :: bool
  lw_worker :: worker_pc
  lw_batch :: "log_entry list"
  lw_pruning :: bool
  lw_closer :: closer_pc
  lw_calls :: "storage_call list"
  lw_flight :: "log_entry list"
  lw_accepted :: "log_entry list"
  lw_raced :: "log_entry list"

definition NewAsyncLogWriter :: "writer_config \<Rightarrow> log_writer" where
  "NewAsyncLogWriter cfg = (let cfg = normalize_config cfg in
     \<lparr>lw_cfg = cfg, lw_ch = make_chan (nat (wc_BufferSize cfg)), lw_done = False,
       lw_closed = False, lw_worker = Batching, lw_batch = [], lw_pruning = True,
       lw_closer = NotClosing, lw_calls = [], lw_flight = [], lw_accepted = [], lw_raced = []\<rparr>)"

section \<open>Enqueue\<close>

text \<open>Under the mutex: \<open>None\<close> when \<open>Enqueue\<close> returns false, else the caller goes on to the send.\<close>

definition enqueue_check :: "log_entry \<Rightarrow> log_writer \<Rightarrow> log_writer option" where
  "enqueue_check entry w =
     (if lw_closed w then None else Some (w\<lparr>lw_flight := entry # lw_flight w\<rparr>))"

text \<open>The non-blocking send: what \<open>Enqueue\<close> returns; the outer \<open>None\<close> is a panic.\<close>

definition enqueue_send :: "log_entry \<Rightarrow> log_writer \<Rightarrow> (bool \<times> log_writer) option" where
  "enqueue_send entry w = (case chan_try_send entry (lw_ch w) of
     None \<Rightarrow> None
   | Some (sent, ch) \<Rightarrow>
       Some (sent, w\<lparr>lw_ch := ch, lw_flight := remove1 entry (lw_flight w),
         lw_accepted := (if sent then lw_accepted w @ [entry] else lw_accepted w)\<rparr>))"

text \<open>A call that no other goroutine interrupts.\<close>

definition Enqueue :: "log_entry \<Rightarrow> log_writer \<Rightarrow> (bool \<times> log_writer) option" where
  "Enqueue entry w = (case enqueue_check entry w of
     None \<Rightarrow> Some (False, w)
   | Some w \<Rightarrow> enqueue_send entry w)"

section \<open>The batch worker\<close>

definition flush :: "bool \<Rightarrow> log_writer \<Rightarrow> log_writer" where
  "flush ok w =
     (if length (lw_batch w) = 0 then w
      else w\<lparr>lw_calls := lw_calls w @ [WriteCall (lw_batch w) ok], lw_batch := []\<rparr>)"

definition batch_entry :: "bool \<Rightarrow> log_entry \<Rightarrow> log_writer \<Rightarrow> log_writer" where
  "batch_entry ok entry w =
     (let w = w\<lparr>lw_batch := lw_batch w @ [entry]\<rparr>
      in if int (length (lw_batch w)) \<ge> wc_BatchSize (lw_cfg w) then flush ok w else w)"

text \<open>The three branches of the main \<open>select\<close>, and the loop that drains the channel.\<close>

definition worker_receive :: "bool \<Rightarrow> log_writer \<Rightarrow> log_writer option" where
  "worker_receive ok w =
     (if lw_worker w \<noteq> Batching then None
      else case chan_recv (lw_ch w) of
        None \<Rightarrow> None
      | Some (None, ch) \<Rightarrow> Some ((flush ok w)\<lparr>lw_worker := Stopped\<rparr>)
      | Some (Some entry, ch) \<Rightarrow> Some (batch_entry ok entry (w\<lparr>lw_ch := ch\<rparr>)))"

definition worker_tick :: "bool \<Rightarrow> log_writer \<Rightarrow> log_writer option" where
  "worker_tick ok w = (if lw_worker w \<noteq> Batching then None else Some (flush ok w))"

definition worker_done :: "log_writer \<Rightarrow> log_writer option" where
  "worker_done w =
     (if lw_worker w = Batching \<and> lw_done w then Some (w\<lparr>lw_worker := Draining\<rparr>) else None)"

definition worker_drain :: "bool \<Rightarrow> log_writer \<Rightarrow> log_writer option" where
  "worker_drain ok w =
     (if lw_worker w \<noteq> Draining then None
      else case chan_recv (lw_ch w) of
        None \<Rightarrow> Some ((flush ok w)\<lparr>lw_worker := Stopped\<rparr>)
      | Some (None, ch) \<Rightarrow> Some ((flush ok w)\<lparr>lw_worker := Stopped\<rparr>)
      | Some (Some entry, ch) \<Rightarrow> Some (batch_entry ok entry (w\<lparr>lw_ch := ch\<rparr>)))"

section \<open>The prune worker and Close\<close>

definition prune_tick :: "bool \<Rightarrow> log_writer \<Rightarrow> log_writer option" where
  "prune_tick ok w =
     (if lw_pruning w
      then Some (w\<lparr>lw_calls := lw_calls w @ [PruneCall (wc_Retention (lw_cfg w)) ok]\<rparr>) else None)"

definition prune_done :: "log_writer \<Rightarrow> log_writer option" where
  "prune_done w = (if lw_pruning w \<and> lw_done w then Some (w\<lparr>lw_pruning := False\<rparr>) else None)"

text \<open>Under the mutex; a further call of \<open>Close\<close> finds the flag set and returns \<open>nil\<close>.\<close>

definition close_mark :: "log_writer \<Rightarrow> log_writer option" where
  "close_mark w =
     (if lw_closed w then Some w
      else Some (w\<lparr>lw_closed := True, lw_closer := Marked, lw_raced := lw_flight w\<rparr>))"

definition close_done :: "log_writer \<Rightarrow> log_writer option" where
  "close_done w =
     (if lw_closer w = Marked then Some (w\<lparr>lw_done := True, lw_closer := Waiting\<rparr>) else None)"

text \<open>The wait group is done when both workers have returned.\<close>

definition close_wait :: "log_writer \<Rightarrow> log_writer option" where
  "close_wait w =
     (if lw_closer w = Waiting \<and> lw_worker w = Stopped \<and> \<not> lw_pruning w
      then Some (w\<lparr>lw_closer := Returned True\<rparr>) else None)"

definition close_timeout :: "log_writer \<Rightarrow> log_writer option" where
  "close_timeout w =
     (if lw_closer w = Waiting then Some (w\<lparr>lw_closer := Returned False\<rparr>) else None)"

section \<open>The transition system\<close>

datatype writer_event =
    EnqueueCheck log_entry
  | EnqueueSend log_entry
  | WorkerReceive bool
  | WorkerTick bool
  | WorkerDone
  | WorkerDrain bool
  | PruneTick bool
  | PruneDone
  | CloseMark
  | CloseDone
  | CloseWait
  | CloseTimeout

fun writer_step :: "writer_event \<Rightarrow> log_writer \<Rightarrow> log_writer option" where
  "writer_step (EnqueueCheck entry) w = enqueue_check entry w"
| "writer_step (EnqueueSend entry) w =
     (if entry \<in> set (lw_flight w) then map_option snd (enqueue_send entry w) else None)"
| "writer_step (WorkerReceive ok) w = worker_receive ok w"
| "writer_step (WorkerTick ok) w = worker_tick ok w"
| "writer_step WorkerDone w = worker_done w"
| "writer_step (WorkerDrain ok) w = worker_drain ok w"
| "writer_step (PruneTick ok) w = prune_tick ok w"
| "writer_step PruneDone w = prune_done w"
| "writer_step CloseMark w = close_mark w"
| "writer_step CloseDone w = close_done w"
| "writer_step CloseWait w = close_wait w"
| "writer_step CloseTimeout w = close_timeout w"

section \<open>Lemmas: what a flush does\<close>

fun batch_of :: "storage_call \<Rightarrow> log_entry list" where
  "batch_of (WriteCall batch ok) = batch"
| "batch_of (PruneCall retention ok) = []"

text \<open>All entries handed to the storage, in order.\<close>

definition handed :: "log_writer \<Rightarrow> log_entry list" where
  "handed w = concat (map batch_of (lw_calls w))"

definition call_ok :: "writer_config \<Rightarrow> storage_call \<Rightarrow> bool" where
  "call_ok cfg c = (case c of
     WriteCall batch ok \<Rightarrow> batch \<noteq> [] \<and> int (length batch) \<le> wc_BatchSize cfg
   | PruneCall retention ok \<Rightarrow> retention = wc_Retention cfg)"

lemma flush_frame [simp]:
  "lw_cfg (flush ok w) = lw_cfg w" "lw_ch (flush ok w) = lw_ch w" "lw_done (flush ok w) = lw_done w"
  "lw_closed (flush ok w) = lw_closed w" "lw_worker (flush ok w) = lw_worker w"
  "lw_pruning (flush ok w) = lw_pruning w" "lw_closer (flush ok w) = lw_closer w"
  "lw_flight (flush ok w) = lw_flight w" "lw_accepted (flush ok w) = lw_accepted w"
  "lw_raced (flush ok w) = lw_raced w" "lw_batch (flush ok w) = []"
  by (simp_all add: flush_def)

lemma handed_frame [simp]:
  "handed (w\<lparr>lw_ch := ch\<rparr>) = handed w" "handed (w\<lparr>lw_flight := pending\<rparr>) = handed w"
  "handed (w\<lparr>lw_accepted := acc\<rparr>) = handed w" "handed (w\<lparr>lw_worker := pc\<rparr>) = handed w"
  "handed (w\<lparr>lw_pruning := b\<rparr>) = handed w" "handed (w\<lparr>lw_closer := c\<rparr>) = handed w"
  "handed (w\<lparr>lw_closed := b\<rparr>) = handed w" "handed (w\<lparr>lw_done := b\<rparr>) = handed w"
  "handed (w\<lparr>lw_raced := r\<rparr>) = handed w"
  "handed (w\<lparr>lw_calls := lw_calls w @ [PruneCall retention ok]\<rparr>) = handed w"
  by (simp_all add: handed_def)

lemma flush_handed: "handed (flush ok w) = handed w @ lw_batch w"
  by (simp add: handed_def flush_def)

lemma flush_calls:
  "\<forall>c \<in> set (lw_calls w). call_ok cfg c \<Longrightarrow> int (length (lw_batch w)) \<le> wc_BatchSize cfg \<Longrightarrow>
    \<forall>c \<in> set (lw_calls (flush ok w)). call_ok cfg c"
  by (auto simp: flush_def call_ok_def)

lemma batch_entry_frame [simp]:
  "lw_cfg (batch_entry ok e w) = lw_cfg w" "lw_ch (batch_entry ok e w) = lw_ch w"
  "lw_done (batch_entry ok e w) = lw_done w"
  "lw_closed (batch_entry ok e w) = lw_closed w" "lw_worker (batch_entry ok e w) = lw_worker w"
  "lw_pruning (batch_entry ok e w) = lw_pruning w" "lw_closer (batch_entry ok e w) = lw_closer w"
  "lw_flight (batch_entry ok e w) = lw_flight w" "lw_accepted (batch_entry ok e w) = lw_accepted w"
  "lw_raced (batch_entry ok e w) = lw_raced w"
  by (simp_all add: batch_entry_def Let_def)

lemma batch_entry_handed:
  "handed (batch_entry ok e w) @ lw_batch (batch_entry ok e w) @ es = handed w @ lw_batch w @ e # es"
  by (auto simp: batch_entry_def Let_def handed_def flush_def)

lemma batch_entry_calls:
  "\<forall>c \<in> set (lw_calls w). call_ok (lw_cfg w) c \<Longrightarrow> int (length (lw_batch w)) < wc_BatchSize (lw_cfg w) \<Longrightarrow>
    \<forall>c \<in> set (lw_calls (batch_entry ok e w)). call_ok (lw_cfg w) c"
  by (auto simp: batch_entry_def Let_def flush_def call_ok_def)

lemma batch_entry_batch:
  "0 < wc_BatchSize (lw_cfg w) \<Longrightarrow> int (length (lw_batch (batch_entry ok e w))) < wc_BatchSize (lw_cfg w)"
  by (auto simp: batch_entry_def Let_def)

section \<open>Lemmas: invariants\<close>

definition sizes_inv :: "log_writer \<Rightarrow> bool" where
  "sizes_inv w \<longleftrightarrow> 0 < wc_BatchSize (lw_cfg w) \<and> int (length (lw_batch w)) < wc_BatchSize (lw_cfg w) \<and>
     gc_cap (lw_ch w) = nat (wc_BufferSize (lw_cfg w)) \<and> chan_ok (lw_ch w) \<and> \<not> gc_closed (lw_ch w) \<and>
     (\<forall>c \<in> set (lw_calls w). call_ok (lw_cfg w) c)"

definition flow_inv :: "log_writer \<Rightarrow> bool" where
  "flow_inv w \<longleftrightarrow> handed w @ lw_batch w @ gc_buf (lw_ch w) = lw_accepted w"

definition close_inv :: "log_writer \<Rightarrow> bool" where
  "close_inv w \<longleftrightarrow>
     (lw_closed w \<longleftrightarrow> lw_closer w \<noteq> NotClosing) \<and>
     (lw_done w \<longleftrightarrow> lw_closer w \<noteq> NotClosing \<and> lw_closer w \<noteq> Marked) \<and>
     (lw_worker w \<noteq> Batching \<longrightarrow> lw_done w) \<and> (\<not> lw_pruning w \<longrightarrow> lw_done w) \<and>
     (lw_worker w = Stopped \<longrightarrow> lw_batch w = []) \<and>
     (lw_closer w = Returned True \<longrightarrow> lw_worker w = Stopped \<and> \<not> lw_pruning w)"

text \<open>Only callers that had passed the check before \<open>Close\<close> set the flag can still send afterwards.\<close>

definition race_inv :: "log_writer \<Rightarrow> bool" where
  "race_inv w \<longleftrightarrow>
     (lw_closed w \<longrightarrow> mset (lw_flight w) \<subseteq># mset (lw_raced w)) \<and>
     (lw_worker w = Stopped \<longrightarrow> lw_closed w \<and>
       mset (gc_buf (lw_ch w)) + mset (lw_flight w) \<subseteq># mset (lw_raced w))"

definition writer_inv :: "log_writer \<Rightarrow> bool" where
  "writer_inv w \<longleftrightarrow> sizes_inv w \<and> flow_inv w \<and> close_inv w \<and> race_inv w"

lemmas writer_ops = enqueue_check_def enqueue_send_def worker_receive_def worker_tick_def worker_done_def
  worker_drain_def prune_tick_def prune_done_def close_mark_def close_done_def close_wait_def close_timeout_def

lemma writer_inv_init: "writer_inv (NewAsyncLogWriter cfg)"
  by (simp add: writer_inv_def sizes_inv_def flow_inv_def close_inv_def race_inv_def NewAsyncLogWriter_def
      handed_def normalize_config_def Let_def)

text \<open>What an enabled event does, with the two receiving loops taken together.\<close>

lemma writer_stepE:
  assumes "writer_step e w = Some w'"
  obtains
    (check) x where "w' = w\<lparr>lw_flight := x # lw_flight w\<rparr>" "\<not> lw_closed w"
  | (send) x sent ch where "chan_try_send x (lw_ch w) = Some (sent, ch)" "x \<in> set (lw_flight w)"
      "w' = w\<lparr>lw_ch := ch, lw_flight := remove1 x (lw_flight w),
        lw_accepted := (if sent then lw_accepted w @ [x] else lw_accepted w)\<rparr>"
  | (receive) ok x ch where "chan_recv (lw_ch w) = Some (Some x, ch)" "lw_worker w \<noteq> Stopped"
      "w' = batch_entry ok x (w\<lparr>lw_ch := ch\<rparr>)"
  | (tick) ok where "lw_worker w = Batching" "w' = flush ok w"
  | (drain) "lw_worker w = Batching" "lw_done w" "w' = w\<lparr>lw_worker := Draining\<rparr>"
  | (stop) ok where "lw_worker w \<noteq> Stopped" "gc_buf (lw_ch w) = []"
      "lw_worker w = Draining \<or> gc_closed (lw_ch w)" "w' = (flush ok w)\<lparr>lw_worker := Stopped\<rparr>"
  | (prune) ok where "w' = w\<lparr>lw_calls := lw_calls w @ [PruneCall (wc_Retention (lw_cfg w)) ok]\<rparr>"
  | (unprune) "lw_done w" "w' = w\<lparr>lw_pruning := False\<rparr>"
  | (again) "lw_closed w" "w' = w"
  | (mark) "\<not> lw_closed w" "w' = w\<lparr>lw_closed := True, lw_closer := Marked, lw_raced := lw_flight w\<rparr>"
  | (finish) "lw_closer w = Marked" "w' = w\<lparr>lw_done := True, lw_closer := Waiting\<rparr>"
  | (wait) "lw_closer w = Waiting" "lw_worker w = Stopped" "\<not> lw_pruning w"
      "w' = w\<lparr>lw_closer := Returned True\<rparr>"
  | (timeout) "lw_closer w = Waiting" "w' = w\<lparr>lw_closer := Returned False\<rparr>"
proof (cases e)
  case (EnqueueCheck x)
  then show ?thesis using assms check by (auto simp: enqueue_check_def split: if_splits)
next
  case (EnqueueSend x)
  then show ?thesis using assms send by (auto simp: enqueue_send_def split: if_splits option.splits)
next
  case (WorkerReceive ok)
  then show ?thesis using assms receive stop chan_recv_cases(4,5) [of "lw_ch w" None]
    by (auto simp: worker_receive_def split: if_splits option.splits)
next
  case (WorkerTick ok)
  then show ?thesis using assms tick by (auto simp: worker_tick_def split: if_splits)
next
  case WorkerDone
  then show ?thesis using assms drain by (auto simp: worker_done_def split: if_splits)
next
  case (WorkerDrain ok)
  then show ?thesis using assms receive stop chan_recv_cases(4,5) [of "lw_ch w" None] chan_recv_blocks [of "lw_ch w"]
    by (auto simp: worker_drain_def split: if_splits option.splits)
next
  case (PruneTick ok)
  then show ?thesis using assms prune by (auto simp: prune_tick_def split: if_splits)
next
  case PruneDone
  then show ?thesis using assms unprune by (auto simp: prune_done_def split: if_splits)
next
  case CloseMark
  then show ?thesis using assms again mark by (auto simp: close_mark_def split: if_splits)
next
  case CloseDone
  then show ?thesis using assms finish by (auto simp: close_done_def split: if_splits)
next
  case CloseWait
  then show ?thesis using assms wait by (auto simp: close_wait_def split: if_splits)
next
  case CloseTimeout
  then show ?thesis using assms timeout by (auto simp: close_timeout_def split: if_splits)
qed

lemma sizes_inv_step:
  assumes "sizes_inv w" "writer_step e w = Some w'"
  shows "sizes_inv w'"
  using assms(2)
proof (cases rule: writer_stepE)
  case (send x sent ch)
  then show ?thesis using assms(1) chan_try_send_cases [OF send(1)] by (simp add: sizes_inv_def)
next
  case (receive ok x ch)
  then show ?thesis
    using assms(1) chan_recv_cases [OF receive(1)] batch_entry_calls [of "w\<lparr>lw_ch := ch\<rparr>"]
      batch_entry_batch [of "w\<lparr>lw_ch := ch\<rparr>"] by (simp add: sizes_inv_def)
qed (use assms(1) flush_calls [of w "lw_cfg w"] in \<open>simp_all add: sizes_inv_def call_ok_def\<close>)

lemma flow_inv_step:
  assumes "flow_inv w" "writer_step e w = Some w'"
  shows "flow_inv w'"
  using assms(2)
proof (cases rule: writer_stepE)
  case (send x sent ch)
  then show ?thesis using assms(1) chan_try_send_cases(1) [OF send(1)]
    by (auto simp: flow_inv_def)
next
  case (receive ok x ch)
  then show ?thesis
    using assms(1) chan_recv_cases(1) [OF receive(1)] batch_entry_handed [of ok x "w\<lparr>lw_ch := ch\<rparr>" "gc_buf ch"]
    by (simp add: flow_inv_def)
next
  case (stop ok)
  then show ?thesis using assms(1) by (simp add: flow_inv_def flush_handed)
qed (use assms(1) in \<open>simp_all add: flow_inv_def flush_handed\<close>)

lemma close_inv_step:
  assumes "close_inv w" "\<not> gc_closed (lw_ch w)" "writer_step e w = Some w'"
  shows "close_inv w'"
  using assms(3) by (cases rule: writer_stepE) (use assms(1,2) in \<open>auto simp: close_inv_def\<close>)

lemma race_inv_step:
  assumes "race_inv w" "close_inv w" "\<not> gc_closed (lw_ch w)" "writer_step e w = Some w'"
  shows "race_inv w'"
  using assms(4)
proof (cases rule: writer_stepE)
  case (send x sent ch)
  have "mset (gc_buf ch) + mset (remove1 x (lw_flight w)) \<subseteq># mset (gc_buf (lw_ch w)) + mset (lw_flight w)"
    using chan_try_send_cases(1) [OF send(1)] send(2) by auto
  then show ?thesis using assms(1) send(3) subset_mset.order_trans
    by (auto simp: race_inv_def intro: subset_mset.order_trans [OF diff_subset_eq_self])
qed (use assms(1,2,3) in \<open>auto simp: race_inv_def close_inv_def\<close>)

lemma writer_inv_step:
  assumes "writer_inv w" "writer_step e w = Some w'"
  shows "writer_inv w'"
proof -
  have "\<not> gc_closed (lw_ch w)" using assms(1) by (simp add: writer_inv_def sizes_inv_def)
  then show ?thesis
    using assms sizes_inv_step flow_inv_step close_inv_step race_inv_step by (auto simp: writer_inv_def)
qed

section \<open>Lemmas: after Close\<close>

text \<open>The events that bring the batch worker to its end: sends of callers in flight, and the steps of
  the worker, but not its ticker.\<close>

fun shutdown_event :: "writer_event \<Rightarrow> bool" where
  "shutdown_event (EnqueueSend entry) = True"
| "shutdown_event (WorkerReceive ok) = True"
| "shutdown_event WorkerDone = True"
| "shutdown_event (WorkerDrain ok) = True"
| "shutdown_event _ = False"

definition shutdown_measure :: "log_writer \<Rightarrow> nat" where
  "shutdown_measure w = 2 * length (lw_flight w) + length (gc_buf (lw_ch w)) +
     (case lw_worker w of Batching \<Rightarrow> 2 | Draining \<Rightarrow> 1 | Stopped \<Rightarrow> 0)"

lemma send_decreases:
  assumes "chan_try_send x (lw_ch w) = Some (sent, ch)" "x \<in> set (lw_flight w)"
  shows "2 * length (remove1 x (lw_flight w)) + length (gc_buf ch) < 2 * length (lw_flight w) + length (gc_buf (lw_ch w))"
proof -
  have "Suc (length (remove1 x (lw_flight w))) = length (lw_flight w)"
    using length_pos_if_in_set [OF assms(2)] assms(2) by (simp add: length_remove1)
  then show ?thesis using chan_try_send_cases(1) [OF assms(1)] by auto
qed

lemma shutdown_decreases:
  assumes "writer_inv w" "shutdown_event e" "writer_step e w = Some w'"
  shows "shutdown_measure w' < shutdown_measure w"
proof -
  have open_ch: "\<not> gc_closed (lw_ch w)" using assms(1) by (simp add: writer_inv_def sizes_inv_def)
  show ?thesis
  proof (cases e)
    case (EnqueueSend x)
    then obtain sent ch where "chan_try_send x (lw_ch w) = Some (sent, ch)" "x \<in> set (lw_flight w)"
      "w' = w\<lparr>lw_ch := ch, lw_flight := remove1 x (lw_flight w),
        lw_accepted := (if sent then lw_accepted w @ [x] else lw_accepted w)\<rparr>"
      using assms(3) by (auto simp: enqueue_send_def split: if_splits option.splits)
    with send_decreases [of x w sent ch] show ?thesis by (simp add: shutdown_measure_def)
  next
    case (WorkerReceive ok)
    then show ?thesis using assms(3) open_ch chan_recv_cases(1,5) [of "lw_ch w"]
      by (fastforce simp: worker_receive_def shutdown_measure_def split: if_splits option.splits)
  next
    case (WorkerDrain ok)
    then show ?thesis using assms(3) open_ch chan_recv_cases(1,5) [of "lw_ch w"] chan_recv_blocks [of "lw_ch w"]
      by (fastforce simp: worker_drain_def shutdown_measure_def split: if_splits option.splits)
  next
    case WorkerDone
    then show ?thesis using assms(3) by (auto simp: worker_done_def shutdown_measure_def split: if_splits)
  qed (use assms(2) in simp_all)
qed

lemma shutdown_enabled:
  assumes "lw_done w" "lw_worker w \<noteq> Stopped"
  shows "\<exists>e. shutdown_event e \<and> writer_step e w \<noteq> None"
proof (cases "lw_worker w")
  case Batching
  then show ?thesis using assms by (intro exI [of _ WorkerDone]) (simp add: worker_done_def)
next
  case Draining
  then show ?thesis by (intro exI [of _ "WorkerDrain True"]) (simp add: worker_drain_def split: option.split)
qed (use assms in simp)

lemma done_stays: "lw_done w \<Longrightarrow> writer_step e w = Some w' \<Longrightarrow> lw_done w'"
  by (erule writer_stepE) auto

interpretation writer: invariant_system writer_step writer_inv
  by unfold_locales (rule writer_inv_step)

interpretation shutdown: progress_system writer_step "\<lambda>w. writer_inv w \<and> lw_done w"
  shutdown_event shutdown_measure "\<lambda>w. lw_worker w = Stopped"
  by unfold_locales (use writer_inv_step done_stays shutdown_decreases shutdown_enabled in blast)+

interpretation writer_cfg: invariant_system writer_step "\<lambda>w. lw_cfg w = c" for c
  by unfold_locales (erule writer_stepE; simp)

text \<open>Once the batch worker has returned, nothing is handed to the storage any more.\<close>

lemma stopped_step:
  assumes "\<not> gc_closed (lw_ch w)" "lw_worker w = Stopped" "writer_step e w = Some w'"
  shows "lw_worker w' = Stopped \<and> handed w' = handed w \<and> \<not> gc_closed (lw_ch w')"
  using assms(3)
proof (cases rule: writer_stepE)
  case (send x sent ch)
  then show ?thesis using assms(1,2) chan_try_send_cases(3) [OF send(1)] by simp
qed (use assms(1,2) in simp_all)

interpretation stopped: invariant_system writer_step
  "\<lambda>w. \<not> gc_closed (lw_ch w) \<and> lw_worker w = Stopped \<and> handed w = h" for h
  by unfold_locales (metis stopped_step)

lemma reachable_writer_inv: "reachable writer_step (NewAsyncLogWriter cfg) w \<Longrightarrow> writer_inv w"
  by (rule writer.reachable_inv [OF writer_inv_init])

lemma reachable_cfg: "reachable writer_step (NewAsyncLogWriter cfg) w \<Longrightarrow> lw_cfg w = normalize_config cfg"
  by (erule writer_cfg.reachable_inv [rotated]) (simp add: NewAsyncLogWriter_def Let_def)

section \<open>Properties\<close>

text \<open>What the storage has committed: the batches whose \<open>WriteBatch\<close> succeeded.\<close>

fun committed :: "storage_call list \<Rightarrow> log_entry list" where
  "committed [] = []"
| "committed (WriteCall batch ok # calls) = (if ok then batch else []) @ committed calls"
| "committed (PruneCall retention ok # calls) = committed calls"

lemma committed_handed:
  "\<forall>b. WriteCall b False \<notin> set calls \<Longrightarrow> committed calls = concat (map batch_of calls)"
proof (induction calls rule: committed.induct)
  case (2 batch ok calls)
  then show ?case by (cases ok) auto
qed auto

text \<open>Concrete runs of a writer for the witnesses.\<close>

definition sample_entry :: "int \<Rightarrow> log_entry" where
  "sample_entry i = \<lparr>le_ID = i, le_Timestamp = 0, le_Level = ''INFO'', le_Service = ''app'',
     le_Message = ''m'', le_Attributes = []\<rparr>"

definition sample_events :: "writer_event list" where
  "sample_events = [EnqueueCheck (sample_entry 1), EnqueueSend (sample_entry 1), WorkerReceive True,
     EnqueueCheck (sample_entry 2), EnqueueSend (sample_entry 2), WorkerTick True, CloseMark, CloseDone]"

definition sample_shutdown :: "writer_event list" where
  "sample_shutdown = [WorkerDone, WorkerDrain True, WorkerDrain True, PruneDone, CloseWait]"

definition sample_writer :: "writer_event list \<Rightarrow> log_writer" where
  "sample_writer es = the (run writer_step es (NewAsyncLogWriter DefaultAsyncLogWriterConfig))"

lemma sample_writer_reachable:
  "run writer_step es (NewAsyncLogWriter DefaultAsyncLogWriterConfig) \<noteq> None \<Longrightarrow>
    reachable writer_step (NewAsyncLogWriter DefaultAsyncLogWriterConfig) (sample_writer es)"
  by (auto simp: sample_writer_def intro: reachableI)

lemma sample_reachable:
  "reachable writer_step (NewAsyncLogWriter DefaultAsyncLogWriterConfig) (sample_writer sample_events)"
  "reachable writer_step (NewAsyncLogWriter DefaultAsyncLogWriterConfig)
    (sample_writer (sample_events @ sample_shutdown))"
  by (rule sample_writer_reachable, code_simp)+

text \<open>C1. No entry is lost, duplicated or reordered on its way to the storage: in every reachable state of
  the concurrent writer, the entries handed to \<open>WriteBatch\<close> so far, the batch and the channel are
  together exactly the entries for which \<open>Enqueue\<close> returned true, in the order of their sends; and
  if no \<open>WriteBatch\<close> failed, all that were handed over are committed.\<close>

theorem log_writer_fifo:
  assumes "reachable writer_step (NewAsyncLogWriter cfg) w"
  shows "handed w @ lw_batch w @ gc_buf (lw_ch w) = lw_accepted w \<and>
    ((\<forall>b. WriteCall b False \<notin> set (lw_calls w)) \<longrightarrow>
      committed (lw_calls w) @ lw_batch w @ gc_buf (lw_ch w) = lw_accepted w)"
  using reachable_writer_inv [OF assms] committed_handed [of "lw_calls w"]
  by (auto simp: writer_inv_def flow_inv_def handed_def)

theorem log_writer_fifo_witness:
  "handed (sample_writer sample_events) @ lw_batch (sample_writer sample_events) @
     gc_buf (lw_ch (sample_writer sample_events)) = lw_accepted (sample_writer sample_events) \<and>
   lw_accepted (sample_writer sample_events) = [sample_entry 1, sample_entry 2] \<and>
   handed (sample_writer sample_events) = [sample_entry 1]"
proof -
  have "lw_accepted (sample_writer sample_events) = [sample_entry 1, sample_entry 2]"
    "handed (sample_writer sample_events) = [sample_entry 1]" by code_simp+
  with log_writer_fifo [OF sample_reachable(1)] show ?thesis by simp
qed

text \<open>Channel and batch are bounded by the configuration.\<close>

lemma log_writer_bounds:
  assumes "reachable writer_step (NewAsyncLogWriter cfg) w"
  shows "int (length (gc_buf (lw_ch w))) \<le> wc_BufferSize (normalize_config cfg) \<and>
    int (length (lw_batch w)) < wc_BatchSize (normalize_config cfg) \<and>
    (\<forall>c \<in> set (lw_calls w). case c of
       WriteCall batch ok \<Rightarrow> batch \<noteq> [] \<and> int (length batch) \<le> wc_BatchSize (normalize_config cfg)
     | PruneCall retention ok \<Rightarrow> retention = wc_Retention (normalize_config cfg)) \<and>
    (\<forall>f \<in> {wc_BufferSize, wc_BatchSize, wc_FlushInterval, wc_Retention, wc_PruneInterval}.
       0 < f (normalize_config cfg) \<and> (0 < f cfg \<longrightarrow> f (normalize_config cfg) = f cfg))"
proof -
  have "\<forall>f \<in> {wc_BufferSize, wc_BatchSize, wc_FlushInterval, wc_Retention, wc_PruneInterval}.
      0 < f (normalize_config cfg) \<and> (0 < f cfg \<longrightarrow> f (normalize_config cfg) = f cfg)"
    by (simp add: normalize_config_def Millisecond_def Hour_def Second_def)
  moreover have "sizes_inv w" using reachable_writer_inv [OF assms] by (simp add: writer_inv_def)
  ultimately show ?thesis using reachable_cfg [OF assms] by (auto simp: sizes_inv_def chan_ok_def call_ok_def)
qed

text \<open>\<open>Enqueue\<close> never blocks and never panics: false when closed or full, otherwise the entry is appended.\<close>

lemma enqueue_total:
  assumes "reachable writer_step (NewAsyncLogWriter cfg) w"
  shows "Enqueue entry w = Some
    (if lw_closed w \<or> int (length (gc_buf (lw_ch w))) = wc_BufferSize (normalize_config cfg) then (False, w)
     else (True, w\<lparr>lw_ch := (lw_ch w)\<lparr>gc_buf := gc_buf (lw_ch w) @ [entry]\<rparr>,
       lw_accepted := lw_accepted w @ [entry]\<rparr>))"
proof -
  have inv: "sizes_inv w" using reachable_writer_inv [OF assms] by (simp add: writer_inv_def)
  have pos: "0 < wc_BufferSize (normalize_config cfg)" by (simp add: normalize_config_def)
  have "int (length (gc_buf (lw_ch w))) = wc_BufferSize (normalize_config cfg) \<longleftrightarrow>
      \<not> length (gc_buf (lw_ch w)) < gc_cap (lw_ch w)"
    using inv pos reachable_cfg [OF assms] by (auto simp: sizes_inv_def chan_ok_def)
  then show ?thesis
    using inv by (auto simp: Enqueue_def enqueue_check_def enqueue_send_def chan_try_send_def sizes_inv_def)
qed

lemma Enqueue_reachable:
  assumes "reachable writer_step (NewAsyncLogWriter cfg) w" "Enqueue e w = Some (ok, w')"
  shows "reachable writer_step (NewAsyncLogWriter cfg) w'"
proof (cases "lw_closed w")
  case True
  then show ?thesis using assms by (simp add: Enqueue_def enqueue_check_def)
next
  case False
  then have "run writer_step [EnqueueCheck e, EnqueueSend e] w = Some w'"
    using assms(2) by (auto simp: Enqueue_def enqueue_check_def)
  with assms(1) show ?thesis by (metis reachable_trans reachableI)
qed

text \<open>When \<open>Close\<close> returns \<open>nil\<close>, everything accepted has been handed to the storage, but for sends that
  raced with it.\<close>

lemma close_flushes:
  assumes "reachable writer_step (NewAsyncLogWriter cfg) w" "lw_closer w = Returned True"
  shows "lw_worker w = Stopped \<and> \<not> lw_pruning w \<and> lw_batch w = [] \<and>
    handed w @ gc_buf (lw_ch w) = lw_accepted w \<and>
    mset (gc_buf (lw_ch w)) + mset (lw_flight w) \<subseteq># mset (lw_raced w) \<and>
    (lw_raced w = [] \<longrightarrow> handed w = lw_accepted w)"
  using reachable_writer_inv [OF assms(1)] assms(2)
  by (auto simp: writer_inv_def close_inv_def flow_inv_def race_inv_def)

text \<open>After \<open>Close\<close> has signalled, the batch worker terminates within a bounded number of steps.\<close>

lemma close_terminates:
  assumes "reachable writer_step (NewAsyncLogWriter cfg) w" "lw_done w"
  shows "(\<forall>es w'. (\<forall>e \<in> set es. shutdown_event e) \<and> run writer_step es w = Some w' \<longrightarrow>
      length es \<le> shutdown_measure w) \<and>
    (\<exists>es w'. (\<forall>e \<in> set es. shutdown_event e) \<and> run writer_step es w = Some w' \<and> lw_worker w' = Stopped)"
proof -
  have inv: "writer_inv w \<and> lw_done w" using reachable_writer_inv [OF assms(1)] assms(2) by simp
  show ?thesis
    using shutdown.progress_bounded [OF inv] shutdown.goal_reached [OF inv] by fastforce
qed

text \<open>C30. A race loses an accepted entry: \<open>Enqueue\<close> checks \<open>closed\<close> under the mutex but sends after
  releasing it.  If \<open>Close\<close> and the workers run to their end in between, \<open>Enqueue\<close> still returns
  true, \<open>Close\<close> returns \<open>nil\<close>, and the entry is never handed to the storage, in any continuation.\<close>

theorem enqueue_race_loses_entry:
  "\<exists>w. run writer_step [EnqueueCheck entry, CloseMark, CloseDone, WorkerDone, WorkerDrain True,
      PruneDone, EnqueueSend entry, CloseWait] (NewAsyncLogWriter cfg) = Some w \<and>
    lw_accepted w = [entry] \<and> lw_closer w = Returned True \<and>
    (\<forall>w'. reachable writer_step w w' \<longrightarrow> handed w' = [])"
proof -
  let ?es = "[EnqueueCheck entry, CloseMark, CloseDone, WorkerDone, WorkerDrain True, PruneDone,
    EnqueueSend entry, CloseWait]"
  have "0 < nat (wc_BufferSize (normalize_config cfg))" by (simp add: normalize_config_def)
  then have "\<exists>w. run writer_step ?es (NewAsyncLogWriter cfg) = Some w \<and> lw_accepted w = [entry] \<and>
      lw_closer w = Returned True \<and> \<not> gc_closed (lw_ch w) \<and> lw_worker w = Stopped \<and> handed w = []"
    by (simp add: NewAsyncLogWriter_def Let_def writer_ops chan_recv_def make_chan_def flush_def
        chan_try_send_def handed_def)
  then show ?thesis using stopped.reachable_inv [of _ "[]"] by blast
qed

theorem enqueue_race_loses_entry_witness:
  "\<exists>w. lw_accepted w = [sample_entry 1] \<and> lw_closer w = Returned True \<and> handed w = []"
proof -
  from enqueue_race_loses_entry [of "sample_entry 1" DefaultAsyncLogWriterConfig] obtain w where
    "lw_accepted w = [sample_entry 1]" "lw_closer w = Returned True"
    "\<forall>w'. reachable writer_step w w' \<longrightarrow> handed w' = []" by (elim exE conjE)
  then show ?thesis by (intro exI [of _ w]) simp
qed

end
