(* ===== verification/Sse_Hub.thy ===== *)
theory Sse_Hub
  imports Go_Concurrency Go_Strings "HOL-Library.Sublist"
begin

text \<open>
  Server-sent events, \<open>internal/api/sse.go\<close>: the hub goroutine, the broadcasting callers and one
  goroutine per connected client (\<open>HandleSSEStream\<close>), as a transition system.  Clients are numbered;
  client \<open>i\<close> owns the channel \<open>hb_chan h i\<close>.  The channels \<open>register\<close> and \<open>unregister\<close> have no
  buffer: a send and the matching receive are one event of both goroutines.  A panic sets a flag.
\<close>

section \<open>Payloads\<close>

text \<open>\<open>data\<close> is the JSON text of a snapshot or a log entry.\<close>

definition sse_payload :: "string \<Rightarrow> string \<Rightarrow> string" where
  "sse_payload kind data = ''event: '' @ kind @ [CHR 0x0A] @ ''data: '' @ data @ [CHR 0x0A, CHR 0x0A]"

definition keep_alive :: string where
  "keep_alive = '': keep-alive'' @ [CHR 0x0A, CHR 0x0A]"

definition greeting :: string where
  "greeting = '': connected to sugi sse'' @ [CHR 0x0A, CHR 0x0A]"

section \<open>State\<close>

text \<open>A handler has not started, is blocked in \<open>register <- clientChan\<close>, is in its loop, is blocked in
  the deferred \<open>unregister <- clientChan\<close>, or has returned.\<close>

datatype handler_pc = Absent | Registering | Serving | Unregistering | Gone

text \<open>The components after the panic flag are history: how often \<open>Close\<close> was called, the messages
  fanned out to a client while it was registered, what it took from its channel, and what was
  written to its connection.\<close>

record hub =
  hb_running :: bool
  hb_clients :: "nat list"
  hb_chan :: "nat \<Rightarrow> string go_chan"
  hb_handler :: "nat \<Rightarrow> handler_pc"
  hb_broadcast :: "string go_chan"
  hb_stopChan :: bool
  hb_panic :: bool
  hb_closes :: nat
  hb_seen :: "nat \<Rightarrow> string list"
  hb_taken :: "nat \<Rightarrow> string list"
  hb_out :: "nat \<Rightarrow> string list"

definition NewSSEHub :: hub where
  "NewSSEHub = \<lparr>hb_running = True, hb_clients = [], hb_chan = (\<lambda>_. make_chan 32),
     hb_handler = (\<lambda>_. Absent), hb_broadcast = make_chan 256, hb_stopChan = False,
     hb_panic = False, hb_closes = 0, hb_seen = (\<lambda>_. []), hb_taken = (\<lambda>_. []), hb_out = (\<lambda>_. [])\<rparr>"

definition ClientCount :: "hub \<Rightarrow> nat" where
  "ClientCount h = length (hb_clients h)"

section \<open>The hub goroutine\<close>

definition hub_register :: "nat \<Rightarrow> hub \<Rightarrow> hub" where
  "hub_register i h =
     (if i \<in> set (hb_clients h) then h else h\<lparr>hb_clients := hb_clients h @ [i]\<rparr>)"

definition close_client :: "nat \<Rightarrow> hub \<Rightarrow> hub" where
  "close_client i h = (case chan_close (hb_chan h i) of
     None \<Rightarrow> h\<lparr>hb_panic := True\<rparr>
   | Some c \<Rightarrow> h\<lparr>hb_chan := (hb_chan h)(i := c)\<rparr>)"

definition hub_unregister :: "nat \<Rightarrow> hub \<Rightarrow> hub" where
  "hub_unregister i h =
     (if i \<in> set (hb_clients h)
      then close_client i (h\<lparr>hb_clients := filter (\<lambda>j. j \<noteq> i) (hb_clients h)\<rparr>)
      else h)"

text \<open>The loop of non-blocking sends; the map of clients is visited in any order.\<close>

definition send_client :: "string \<Rightarrow> nat \<Rightarrow> hub \<Rightarrow> hub" where
  "send_client msg i h = (case chan_try_send msg (hb_chan h i) of
     None \<Rightarrow> h\<lparr>hb_panic := True\<rparr>
   | Some (sent, c) \<Rightarrow> h\<lparr>hb_chan := (hb_chan h)(i := c), hb_seen := (hb_seen h)(i := hb_seen h i @ [msg])\<rparr>)"

fun fan_out :: "string \<Rightarrow> nat list \<Rightarrow> hub \<Rightarrow> hub" where
  "fan_out msg [] h = h"
| "fan_out msg (i # is) h = fan_out msg is (send_client msg i h)"

definition hub_broadcast :: "hub \<Rightarrow> hub option" where
  "hub_broadcast h = (case chan_recv (hb_broadcast h) of
     Some (Some msg, c) \<Rightarrow> Some (fan_out msg (hb_clients h) (h\<lparr>hb_broadcast := c\<rparr>))
   | _ \<Rightarrow> None)"

fun close_all :: "nat list \<Rightarrow> hub \<Rightarrow> hub" where
  "close_all [] h = h"
| "close_all (i # is) h =
     close_all is (close_client i (h\<lparr>hb_clients := filter (\<lambda>j. j \<noteq> i) (hb_clients h)\<rparr>))"

definition hub_stop :: "hub \<Rightarrow> hub" where
  "hub_stop h = (close_all (hb_clients h) h)\<lparr>hb_running := False\<rparr>"

section \<open>Callers\<close>

text \<open>\<open>BroadcastSnapshot\<close> and \<open>BroadcastLog\<close>: \<open>data\<close> is \<open>None\<close> when the marshalling failed.\<close>

definition broadcast_event :: "string \<Rightarrow> string option \<Rightarrow> hub \<Rightarrow> hub" where
  "broadcast_event kind data h = (case data of
     None \<Rightarrow> h
   | Some d \<Rightarrow> (case chan_try_send (sse_payload kind d) (hb_broadcast h) of
       None \<Rightarrow> h\<lparr>hb_panic := True\<rparr>
     | Some (sent, c) \<Rightarrow> h\<lparr>hb_broadcast := c\<rparr>))"

definition BroadcastSnapshot :: "string option \<Rightarrow> hub \<Rightarrow> hub" where
  "BroadcastSnapshot data h = broadcast_event ''metrics'' data h"

definition BroadcastLog :: "string option \<Rightarrow> hub \<Rightarrow> hub" where
  "BroadcastLog data h = broadcast_event ''log'' data h"

text \<open>\<open>close(h.stopChan)\<close>: a second call panics.\<close>

definition hub_Close :: "hub \<Rightarrow> hub" where
  "hub_Close h = (if hb_stopChan h then h\<lparr>hb_panic := True, hb_closes := Suc (hb_closes h)\<rparr>
     else h\<lparr>hb_stopChan := True, hb_closes := Suc (hb_closes h)\<rparr>)"

section \<open>The handler of a client\<close>

definition handler_goto :: "nat \<Rightarrow> handler_pc \<Rightarrow> hub \<Rightarrow> hub" where
  "handler_goto i pc h = h\<lparr>hb_handler := (hb_handler h)(i := pc)\<rparr>"

definition handler_write :: "nat \<Rightarrow> string list \<Rightarrow> hub \<Rightarrow> hub" where
  "handler_write i msgs h = h\<lparr>hb_out := (hb_out h)(i := hb_out h i @ msgs)\<rparr>"

text \<open>\<open>register <- clientChan\<close>, then the greeting and the latest snapshot, if there is one.\<close>

definition handler_register :: "nat \<Rightarrow> string option \<Rightarrow> hub \<Rightarrow> hub option" where
  "handler_register i latest h =
     (if hb_running h \<and> hb_handler h i = Registering
      then Some (handler_write i (greeting # (case latest of None \<Rightarrow> [] | Some d \<Rightarrow> [sse_payload ''metrics'' d]))
        (handler_goto i Serving (hub_register i h)))
      else None)"

text \<open>One message: \<open>ok\<close> is the outcome of the write; a closed channel ends the handler.\<close>

definition handler_receive :: "nat \<Rightarrow> bool \<Rightarrow> hub \<Rightarrow> hub option" where
  "handler_receive i ok h =
     (if hb_handler h i \<noteq> Serving then None
      else case chan_recv (hb_chan h i) of
        None \<Rightarrow> None
      | Some (None, c) \<Rightarrow> Some (handler_goto i Unregistering h)
      | Some (Some msg, c) \<Rightarrow>
          (let h = h\<lparr>hb_chan := (hb_chan h)(i := c), hb_taken := (hb_taken h)(i := hb_taken h i @ [msg])\<rparr>
           in Some (if ok then handler_write i [msg] h else handler_goto i Unregistering h)))"

definition handler_unregister :: "nat \<Rightarrow> hub \<Rightarrow> hub option" where
  "handler_unregister i h =
     (if hb_running h \<and> hb_handler h i = Unregistering
      then Some (handler_goto i Gone (hub_unregister i h)) else None)"

section \<open>The transition system\<close>

datatype hub_event =
    Connect nat
  | Register nat "string option"
  | Receive nat bool
  | Disconnect nat
  | Unregister nat
  | Broadcast string "string option"
  | HubBroadcast
  | Heartbeat
  | HubClose
  | HubStop

fun hub_step :: "hub_event \<Rightarrow> hub \<Rightarrow> hub option" where
  "hub_step (Connect i) h = (if hb_handler h i = Absent then Some (handler_goto i Registering h) else None)"
| "hub_step (Register i latest) h = handler_register i latest h"
| "hub_step (Receive i ok) h = handler_receive i ok h"
| "hub_step (Disconnect i) h = (if hb_handler h i = Serving then Some (handler_goto i Unregistering h) else None)"
| "hub_step (Unregister i) h = handler_unregister i h"
| "hub_step (Broadcast kind data) h = Some (broadcast_event kind data h)"
| "hub_step HubBroadcast h = (if hb_running h then hub_broadcast h else None)"
| "hub_step Heartbeat h = (if hb_running h then Some (fan_out keep_alive (hb_clients h) h) else None)"
| "hub_step HubClose h = Some (hub_Close h)"
| "hub_step HubStop h = (if hb_running h \<and> hb_stopChan h then Some (hub_stop h) else None)"

section \<open>Lemmas: sending to and closing many clients\<close>

lemma fan_out_frame [simp]:
  "hb_running (fan_out m is h) = hb_running h" "hb_clients (fan_out m is h) = hb_clients h"
  "hb_handler (fan_out m is h) = hb_handler h" "hb_broadcast (fan_out m is h) = hb_broadcast h"
  "hb_stopChan (fan_out m is h) = hb_stopChan h" "hb_closes (fan_out m is h) = hb_closes h"
  "hb_taken (fan_out m is h) = hb_taken h" "hb_out (fan_out m is h) = hb_out h"
  by (induction "is" arbitrary: h) (simp_all add: send_client_def split: option.split prod.split)

definition push_msg :: "string \<Rightarrow> string go_chan \<Rightarrow> string go_chan" where
  "push_msg m c = (if length (gc_buf c) < gc_cap c then c\<lparr>gc_buf := gc_buf c @ [m]\<rparr> else c)"

lemma push_msg_frame [simp]:
  "gc_closed (push_msg m c) = gc_closed c" "gc_cap (push_msg m c) = gc_cap c"
  by (simp_all add: push_msg_def)

lemma push_msg_le: "length (gc_buf c) \<le> n \<Longrightarrow> gc_cap c \<le> n \<Longrightarrow> length (gc_buf (push_msg m c)) \<le> n"
  by (simp add: push_msg_def)

lemma send_client_open:
  "\<not> gc_closed (hb_chan h i) \<Longrightarrow> send_client m i h =
    h\<lparr>hb_chan := (hb_chan h)(i := push_msg m (hb_chan h i)), hb_seen := (hb_seen h)(i := hb_seen h i @ [m])\<rparr>"
  by (simp add: send_client_def chan_try_send_def push_msg_def)

lemma fan_out_open:
  "distinct is \<Longrightarrow> \<forall>i \<in> set is. \<not> gc_closed (hb_chan h i) \<Longrightarrow> fan_out m is h =
    h\<lparr>hb_chan := (\<lambda>i. if i \<in> set is then push_msg m (hb_chan h i) else hb_chan h i),
      hb_seen := (\<lambda>i. if i \<in> set is then hb_seen h i @ [m] else hb_seen h i)\<rparr>"
proof (induction "is" arbitrary: h)
  case (Cons i "is")
  have "\<forall>j \<in> set is. \<not> gc_closed (hb_chan (send_client m i h) j)"
    using Cons.prems by (simp add: send_client_open)
  with Cons.IH [of "send_client m i h"] Cons.prems show ?case
    by (auto simp: send_client_open fun_eq_iff intro!: hub.equality)
qed simp

lemma close_all_open:
  "distinct is \<Longrightarrow> \<forall>i \<in> set is. \<not> gc_closed (hb_chan h i) \<Longrightarrow> close_all is h =
    h\<lparr>hb_clients := filter (\<lambda>j. j \<notin> set is) (hb_clients h),
      hb_chan := (\<lambda>i. if i \<in> set is then (hb_chan h i)\<lparr>gc_closed := True\<rparr> else hb_chan h i)\<rparr>"
proof (induction "is" arbitrary: h)
  case (Cons i "is")
  let ?h = "close_client i (h\<lparr>hb_clients := filter (\<lambda>j. j \<noteq> i) (hb_clients h)\<rparr>)"
  have h: "?h = h\<lparr>hb_clients := filter (\<lambda>j. j \<noteq> i) (hb_clients h),
      hb_chan := (hb_chan h)(i := (hb_chan h i)\<lparr>gc_closed := True\<rparr>)\<rparr>"
    using Cons.prems by (simp add: close_client_def chan_close_def)
  then have "\<forall>j \<in> set is. \<not> gc_closed (hb_chan ?h j)" using Cons.prems by auto
  with Cons.IH [of ?h] Cons.prems show ?case
    unfolding close_all.simps h by (auto simp: fun_eq_iff conj_commute intro!: hub.equality filter_cong)
qed simp

section \<open>Lemmas: invariants\<close>

text \<open>How the hub's map, the channels and the handlers agree.\<close>

definition clients_inv :: "hub \<Rightarrow> bool" where
  "clients_inv h \<longleftrightarrow> distinct (hb_clients h) \<and> (\<not> hb_running h \<longrightarrow> hb_clients h = []) \<and>
     (\<forall>i. i \<in> set (hb_clients h) \<longleftrightarrow> hb_running h \<and> hb_handler h i \<in> {Serving, Unregistering}) \<and>
     (\<forall>i. gc_closed (hb_chan h i) \<longrightarrow> i \<notin> set (hb_clients h) \<and> hb_handler h i \<notin> {Absent, Registering}) \<and>
     (\<not> hb_running h \<longrightarrow> (\<forall>i. hb_handler h i \<in> {Serving, Unregistering} \<longrightarrow> gc_closed (hb_chan h i)))"

definition bounds_inv :: "hub \<Rightarrow> bool" where
  "bounds_inv h \<longleftrightarrow> (\<forall>i. length (gc_buf (hb_chan h i)) \<le> 32 \<and> gc_cap (hb_chan h i) = 32) \<and>
     length (gc_buf (hb_broadcast h)) \<le> 256 \<and> gc_cap (hb_broadcast h) = 256 \<and> \<not> gc_closed (hb_broadcast h)"

definition panic_inv :: "hub \<Rightarrow> bool" where
  "panic_inv h \<longleftrightarrow> (hb_stopChan h \<longleftrightarrow> 1 \<le> hb_closes h) \<and> (hb_panic h \<longrightarrow> 2 \<le> hb_closes h)"

definition delivery_inv :: "hub \<Rightarrow> bool" where
  "delivery_inv h \<longleftrightarrow> (\<forall>i. subseq (hb_taken h i @ gc_buf (hb_chan h i)) (hb_seen h i) \<and>
     (length (hb_seen h i) \<le> 32 \<longrightarrow> hb_taken h i @ gc_buf (hb_chan h i) = hb_seen h i) \<and>
     (hb_handler h i \<in> {Absent, Registering} \<longrightarrow> hb_out h i = [] \<and> hb_taken h i = []) \<and>
     (hb_handler h i = Serving \<longrightarrow>
       (\<exists>first. hb_out h i = greeting # first @ hb_taken h i \<and>
         (first = [] \<or> (\<exists>d. first = [sse_payload ''metrics'' d])))))"

definition hub_inv :: "hub \<Rightarrow> bool" where
  "hub_inv h \<longleftrightarrow> clients_inv h \<and> bounds_inv h \<and> panic_inv h \<and> delivery_inv h"

lemma hub_inv_init: "hub_inv NewSSEHub"
  by (simp add: hub_inv_def clients_inv_def bounds_inv_def panic_inv_def delivery_inv_def NewSSEHub_def)

text \<open>What an enabled event does in a state of the invariant.\<close>

lemma hub_stepE:
  assumes "hub_inv h" "hub_step e h = Some h'"
  obtains
    (connect) i where "hb_handler h i = Absent" "h' = handler_goto i Registering h"
  | (register) i first where "hb_running h" "hb_handler h i = Registering" "i \<notin> set (hb_clients h)"
      "first = [] \<or> (\<exists>d. first = [sse_payload ''metrics'' d])"
      "h' = h\<lparr>hb_clients := hb_clients h @ [i], hb_handler := (hb_handler h)(i := Serving),
        hb_out := (hb_out h)(i := hb_out h i @ greeting # first)\<rparr>"
  | (leave) i where "hb_handler h i = Serving" "h' = handler_goto i Unregistering h"
  | (receive) i msg c where "hb_handler h i = Serving" "chan_recv (hb_chan h i) = Some (Some msg, c)"
      "h' = h\<lparr>hb_chan := (hb_chan h)(i := c), hb_taken := (hb_taken h)(i := hb_taken h i @ [msg]),
        hb_out := (hb_out h)(i := hb_out h i @ [msg])\<rparr>"
  | (failed) i msg c where "hb_handler h i = Serving" "chan_recv (hb_chan h i) = Some (Some msg, c)"
      "h' = h\<lparr>hb_chan := (hb_chan h)(i := c), hb_taken := (hb_taken h)(i := hb_taken h i @ [msg]),
        hb_handler := (hb_handler h)(i := Unregistering)\<rparr>"
  | (unregister) i where "hb_running h" "hb_handler h i = Unregistering"
      "h' = h\<lparr>hb_clients := filter (\<lambda>j. j \<noteq> i) (hb_clients h),
        hb_chan := (hb_chan h)(i := (hb_chan h i)\<lparr>gc_closed := True\<rparr>),
        hb_handler := (hb_handler h)(i := Gone)\<rparr>"
  | (queue) m where "h' = h\<lparr>hb_broadcast := push_msg m (hb_broadcast h)\<rparr>"
  | (nothing) "h' = h"
  | (fan) m c where "hb_running h" "c = hb_broadcast h \<or> chan_recv (hb_broadcast h) = Some (Some m, c)"
      "h' = h\<lparr>hb_broadcast := c,
        hb_chan := (\<lambda>i. if i \<in> set (hb_clients h) then push_msg m (hb_chan h i) else hb_chan h i),
        hb_seen := (\<lambda>i. if i \<in> set (hb_clients h) then hb_seen h i @ [m] else hb_seen h i)\<rparr>"
  | (close) "h' = hub_Close h"
  | (stop) "hb_running h" "hb_stopChan h" "h' = h\<lparr>hb_running := False, hb_clients := [],
        hb_chan := (\<lambda>i. if i \<in> set (hb_clients h) then (hb_chan h i)\<lparr>gc_closed := True\<rparr> else hb_chan h i)\<rparr>"
proof -
  have inv: "distinct (hb_clients h)" "\<forall>i \<in> set (hb_clients h). \<not> gc_closed (hb_chan h i)"
    "\<And>i. i \<in> set (hb_clients h) \<longleftrightarrow> hb_running h \<and> hb_handler h i \<in> {Serving, Unregistering}"
    "\<not> gc_closed (hb_broadcast h)"
    using assms(1) by (auto simp: hub_inv_def clients_inv_def bounds_inv_def)
  show thesis
  proof (cases e)
    case (Connect i)
    then show ?thesis using assms(2) connect by (auto split: if_splits)
  next
    case (Register i latest)
    then have "hb_running h" "hb_handler h i = Registering" "i \<notin> set (hb_clients h)"
      using assms(2) inv(3) [of i] by (auto simp: handler_register_def split: if_splits)
    then show ?thesis using assms(2) Register
      by (intro register [of i "case latest of None \<Rightarrow> [] | Some d \<Rightarrow> [sse_payload ''metrics'' d]"])
        (auto simp: handler_register_def handler_write_def handler_goto_def hub_register_def split: option.split)
  next
    case (Receive i ok)
    then show ?thesis using assms(2) receive leave failed
      by (auto simp: handler_receive_def handler_write_def handler_goto_def Let_def split: if_splits option.splits)
  next
    case (Disconnect i)
    then show ?thesis using assms(2) leave by (auto split: if_splits)
  next
    case (Unregister i)
    then have i: "hb_running h" "hb_handler h i = Unregistering" "h' = handler_goto i Gone (hub_unregister i h)"
      using assms(2) by (auto simp: handler_unregister_def split: if_splits)
    then have "i \<in> set (hb_clients h)" using inv(3) [of i] by simp
    with i inv(2) show ?thesis
      by (intro unregister [of i])
        (auto simp: hub_unregister_def close_client_def chan_close_def handler_goto_def split: option.split)
  next
    case (Broadcast kind data)
    show ?thesis
    proof (cases data)
      case None
      then have "h' = h" using assms(2) Broadcast by (simp add: broadcast_event_def)
      then show ?thesis by (rule nothing)
    next
      case (Some d)
      then show ?thesis using assms(2) Broadcast inv(4)
        by (intro queue [of "sse_payload kind d"])
          (auto simp: broadcast_event_def chan_try_send_def push_msg_def split: if_splits)
    qed
  next
    case HubBroadcast
    then obtain m c where "hb_running h" "chan_recv (hb_broadcast h) = Some (Some m, c)"
      "h' = fan_out m (hb_clients h) (h\<lparr>hb_broadcast := c\<rparr>)"
      using assms(2) by (auto simp: hub_broadcast_def split: option.splits if_splits)
    then show ?thesis using fan_out_open [of "hb_clients h" "h\<lparr>hb_broadcast := c\<rparr>" m] inv(1,2)
      by (intro fan [of c m]) (simp_all cong: if_cong)
  next
    case Heartbeat
    then show ?thesis using assms(2) fan_out_open [OF inv(1,2), of keep_alive]
      by (intro fan [of "hb_broadcast h" keep_alive]) (auto split: if_splits)
  next
    case HubClose
    then show ?thesis using assms(2) close by simp
  next
    case HubStop
    then have "hb_running h" "hb_stopChan h" "h' = hub_stop h" using assms(2) by (auto split: if_splits)
    then show ?thesis using close_all_open [OF inv(1,2)] by (intro stop) (simp_all add: hub_stop_def)
  qed
qed

lemma clients_inv_step:
  assumes "hub_inv h" "hub_step e h = Some h'"
  shows "clients_inv h'"
proof -
  have inv: "clients_inv h" using assms(1) by (simp add: hub_inv_def)
  from assms show ?thesis
  proof (cases rule: hub_stepE)
    case (receive i msg c)
    then show ?thesis using inv chan_recv_cases(3) [OF receive(2)] by (auto simp: clients_inv_def)
  next
    case (failed i msg c)
    then show ?thesis using inv chan_recv_cases(3) [OF failed(2)] by (auto simp: clients_inv_def)
  next
    case (fan m c)
    then show ?thesis using inv by (auto simp: clients_inv_def)
  qed (use inv in \<open>auto simp: clients_inv_def handler_goto_def hub_Close_def\<close>)
qed

lemma bounds_inv_step:
  assumes "hub_inv h" "hub_step e h = Some h'"
  shows "bounds_inv h'"
proof -
  have inv: "bounds_inv h" using assms(1) by (simp add: hub_inv_def)
  from assms show ?thesis
  proof (cases rule: hub_stepE)
    case (receive i msg c)
    then show ?thesis using inv chan_recv_cases(1,2) [OF receive(2)] by (auto simp: bounds_inv_def dest: spec [of _ i])
  next
    case (failed i msg c)
    then show ?thesis using inv chan_recv_cases(1,2) [OF failed(2)] by (auto simp: bounds_inv_def dest: spec [of _ i])
  next
    case (fan m c)
    then have "length (gc_buf c) \<le> 256 \<and> gc_cap c = 256 \<and> \<not> gc_closed c"
      using inv chan_recv_cases(1,2,3) [of "hb_broadcast h" "Some m" c] by (auto simp: bounds_inv_def)
    with fan show ?thesis using inv by (auto simp: bounds_inv_def intro!: push_msg_le)
  qed (use inv in \<open>auto simp: bounds_inv_def handler_goto_def hub_Close_def intro!: push_msg_le\<close>)
qed

lemma panic_inv_step:
  assumes "hub_inv h" "hub_step e h = Some h'"
  shows "panic_inv h'"
proof -
  have inv: "panic_inv h" using assms(1) by (simp add: hub_inv_def)
  from assms show ?thesis
    by (cases rule: hub_stepE) (use inv in \<open>auto simp: panic_inv_def handler_goto_def hub_Close_def\<close>)
qed

lemma push_subseq:
  assumes "subseq (ts @ gc_buf c) ys"
  shows "subseq (ts @ gc_buf (push_msg m c)) (ys @ [m])"
proof -
  have "subseq ((ts @ gc_buf c) @ [m]) (ys @ [m])" using assms by (intro list_emb_append_mono) simp_all
  moreover have "subseq (ts @ gc_buf c) (ys @ [m])" using assms by (rule subseq_rev_drop_many)
  ultimately show ?thesis by (simp add: push_msg_def)
qed

lemma push_lossless:
  assumes "length ys \<le> 32 \<longrightarrow> ts @ gc_buf c = ys" "gc_cap c = 32" "length (ys @ [m]) \<le> 32"
  shows "ts @ gc_buf (push_msg m c) = ys @ [m]"
proof -
  have ys: "ts @ gc_buf c = ys" using assms by simp
  then have "length (gc_buf c) < gc_cap c" using assms(2,3) by (auto simp flip: ys)
  then show ?thesis using ys by (simp add: push_msg_def flip: append_assoc)
qed

lemma delivery_inv_step:
  assumes "hub_inv h" "hub_step e h = Some h'"
  shows "delivery_inv h'"
proof -
  have inv: "delivery_inv h" using assms(1) by (simp add: hub_inv_def)
  have cap: "gc_cap (hb_chan h i) = 32" for i using assms(1) by (simp add: hub_inv_def bounds_inv_def)
  have cl: "i \<in> set (hb_clients h) \<Longrightarrow> hb_handler h i \<in> {Serving, Unregistering}" for i
    using assms(1) by (simp add: hub_inv_def clients_inv_def)
  from assms show ?thesis
  proof (cases rule: hub_stepE)
    case (receive i msg c)
    then show ?thesis using inv chan_recv_cases(1) [OF receive(2)] by (auto simp: delivery_inv_def dest!: spec [of _ i])
  next
    case (failed i msg c)
    then show ?thesis using inv chan_recv_cases(1) [OF failed(2)] by (auto simp: delivery_inv_def)
  next
    case (fan m c)
    then show ?thesis using inv by (auto simp: delivery_inv_def dest: cl intro!: push_subseq push_lossless cap)
  qed (use inv cl in \<open>auto simp: delivery_inv_def handler_goto_def hub_Close_def\<close>)
qed

lemma hub_inv_step: "hub_inv h \<Longrightarrow> hub_step e h = Some h' \<Longrightarrow> hub_inv h'"
  using clients_inv_step bounds_inv_step panic_inv_step delivery_inv_step by (simp add: hub_inv_def [of h'])

interpretation hub: invariant_system hub_step hub_inv
  by unfold_locales (rule hub_inv_step)

text \<open>A stopped hub stays stopped, and the handlers that need it are stuck.\<close>

lemma stranded_step:
  assumes "\<not> hb_running h" "hub_step e h = Some h'"
  shows "\<not> hb_running h' \<and> (hb_handler h' i = Gone \<longrightarrow> hb_handler h i = Gone) \<and>
    (hb_handler h i \<in> {Registering, Unregistering} \<longrightarrow> hb_handler h' i = hb_handler h i)"
  using assms
  by (cases e) (auto simp: handler_goto_def handler_register_def handler_receive_def handler_write_def
      handler_unregister_def broadcast_event_def hub_Close_def Let_def split: if_splits option.splits)

interpretation stranded: invariant_system hub_step
  "\<lambda>h. \<not> hb_running h \<and> hb_handler h i \<noteq> Gone \<and>
    (pc \<in> {Registering, Unregistering} \<longrightarrow> hb_handler h i = pc)" for i pc
proof unfold_locales
  fix s e s'
  assume "\<not> hb_running s \<and> hb_handler s i \<noteq> Gone \<and> (pc \<in> {Registering, Unregistering} \<longrightarrow> hb_handler s i = pc)"
    and "hub_step e s = Some s'"
  then show "\<not> hb_running s' \<and> hb_handler s' i \<noteq> Gone \<and>
      (pc \<in> {Registering, Unregistering} \<longrightarrow> hb_handler s' i = pc)"
    using stranded_step [of s e s' i] by auto
qed

section \<open>Lemmas: the event stream\<close>

text \<open>How a browser reads an event stream (a line is a comment, a field or the end of an event); the
  result is the list of dispatched events, each with its type and its data.\<close>

definition sse_field :: "string \<Rightarrow> string \<times> string" where
  "sse_field l = (case IndexByte l (CHR '':'') of
     None \<Rightarrow> (l, [])
   | Some k \<Rightarrow> (take k l, TrimPrefix (drop (k + 1) l) '' ''))"

fun sse_parse :: "string list \<Rightarrow> string \<Rightarrow> string list \<Rightarrow> (string \<times> string) list" where
  "sse_parse [] ev ds = []"
| "sse_parse (l # ls) ev ds =
     (if l = [] then (if ds = [] then [] else [(ev, Join ds [CHR 0x0A])]) @ sse_parse ls [] []
      else if hd l = CHR '':'' then sse_parse ls ev ds
      else case sse_field l of (f, v) \<Rightarrow>
        if f = ''event'' then sse_parse ls v ds
        else if f = ''data'' then sse_parse ls ev (ds @ [v])
        else sse_parse ls ev ds)"

definition sse_events :: "string \<Rightarrow> (string \<times> string) list" where
  "sse_events s = sse_parse (Split s (CHR 0x0A)) [] []"

text \<open>The messages a handler writes: a comment, or an event with its kind and data.\<close>

fun message_text :: "(string \<times> string) option \<Rightarrow> string" where
  "message_text None = keep_alive"
| "message_text (Some (kind, data)) = sse_payload kind data"

fun message_lines :: "(string \<times> string) option \<Rightarrow> string list" where
  "message_lines None = ['': keep-alive'', []]"
| "message_lines (Some (kind, data)) = [''event: '' @ kind, ''data: '' @ data, []]"

lemma message_text_lines: "message_text m = unlines (message_lines m)"
  by (cases m) (auto simp: keep_alive_def sse_payload_def unlines_def)

lemma sse_parse_messages:
  "sse_parse (concat (map message_lines ms) @ ls) [] [] = map the (filter (\<lambda>m. m \<noteq> None) ms) @ sse_parse ls [] []"
proof (induction ms)
  case (Cons m ms)
  have "sse_field (''event: '' @ kind) = (''event'', kind)" "sse_field (''data: '' @ data) = (''data'', data)"
    for kind data by (simp_all add: sse_field_def TrimPrefix_def HasPrefix_def)
  with Cons show ?case by (cases m) auto
qed simp

section \<open>Properties\<close>

lemma reachable_hub_inv: "reachable hub_step NewSSEHub h \<Longrightarrow> hub_inv h"
  by (rule hub.reachable_inv [OF hub_inv_init])

text \<open>Concrete runs for the witnesses.\<close>

definition sample_hub :: "hub_event list \<Rightarrow> hub" where
  "sample_hub es = the (run hub_step es NewSSEHub)"

definition sample_session :: "hub_event list" where
  "sample_session = [Connect 0, Register 0 (Some ''{}''), Broadcast ''log'' (Some ''{}''), HubBroadcast,
     Heartbeat, Receive 0 True]"

lemma sample_hub_reachable:
  "\<not> Option.is_none (run hub_step es NewSSEHub) \<Longrightarrow> reachable hub_step NewSSEHub (sample_hub es)"
  by (auto simp: sample_hub_def Option.is_none_def intro: reachableI)

lemma sample_session_reachable:
  "reachable hub_step NewSSEHub (sample_hub sample_session)"
  "reachable hub_step NewSSEHub (sample_hub (sample_session @ [HubClose, HubStop]))"
  by (rule sample_hub_reachable, code_simp)+

text \<open>C6. The hub never panics: in every interleaving of connects, disconnects, slow clients, failing
  writes, broadcasts, heartbeats and the shutdown, no goroutine sends on a closed channel and no
  channel is closed twice, as long as \<open>Close\<close> is called at most once.\<close>

theorem hub_never_panics:
  assumes "reachable hub_step NewSSEHub h" "hb_closes h \<le> 1"
  shows "\<not> hb_panic h"
  using reachable_hub_inv [OF assms(1)] assms(2) by (auto simp: hub_inv_def panic_inv_def)

theorem hub_never_panics_witness:
  "\<not> hb_panic (sample_hub (sample_session @ [HubClose, HubStop])) \<and>
   hb_closes (sample_hub (sample_session @ [HubClose, HubStop])) = 1"
proof -
  have "hb_closes (sample_hub (sample_session @ [HubClose, HubStop])) = 1" by code_simp
  then show ?thesis using hub_never_panics [OF sample_session_reachable(2)] by simp
qed

text \<open>The map of clients is exact, and the channels are bounded.\<close>

lemma hub_clients_exact:
  assumes "reachable hub_step NewSSEHub h"
  shows "set (hb_clients h) = {i. hb_running h \<and> hb_handler h i \<in> {Serving, Unregistering}} \<and>
    ClientCount h = card {i. hb_running h \<and> hb_handler h i \<in> {Serving, Unregistering}} \<and>
    length (gc_buf (hb_chan h i)) \<le> 32 \<and> length (gc_buf (hb_broadcast h)) \<le> 256"
proof -
  have inv: "hub_inv h" by (rule reachable_hub_inv [OF assms])
  then have "set (hb_clients h) = {i. hb_running h \<and> hb_handler h i \<in> {Serving, Unregistering}}"
    by (auto simp: hub_inv_def clients_inv_def)
  moreover have "distinct (hb_clients h)" using inv by (simp add: hub_inv_def clients_inv_def)
  ultimately show ?thesis
    using inv distinct_card [of "hb_clients h"] by (simp add: ClientCount_def hub_inv_def bounds_inv_def)
qed

text \<open>C21. What a client receives: the greeting, at most one snapshot from the ring buffer, and then
  messages that were fanned out while it was registered, in their order and each at most once.
  Messages are dropped only for slow clients: the first 32 messages after the registration all
  arrive or are still in the channel.\<close>

theorem hub_delivery:
  assumes "reachable hub_step NewSSEHub h" "hb_handler h i = Serving"
  shows "(\<exists>first. hb_out h i = greeting # first @ hb_taken h i \<and>
      (first = [] \<or> (\<exists>d. first = [sse_payload ''metrics'' d]))) \<and>
    subseq (hb_taken h i @ gc_buf (hb_chan h i)) (hb_seen h i) \<and>
    (length (hb_seen h i) \<le> 32 \<longrightarrow> hb_taken h i @ gc_buf (hb_chan h i) = hb_seen h i)"
  using reachable_hub_inv [OF assms(1)] assms(2) by (simp add: hub_inv_def delivery_inv_def)

theorem hub_delivery_witness:
  "subseq (hb_taken (sample_hub sample_session) 0 @ gc_buf (hb_chan (sample_hub sample_session) 0))
     (hb_seen (sample_hub sample_session) 0) \<and>
   hb_out (sample_hub sample_session) 0 =
     [greeting, sse_payload ''metrics'' ''{}'', sse_payload ''log'' ''{}'']"
proof -
  have "hb_handler (sample_hub sample_session) 0 = Serving" "hb_out (sample_hub sample_session) 0 =
     [greeting, sse_payload ''metrics'' ''{}'', sse_payload ''log'' ''{}'']" by code_simp+
  then show ?thesis using hub_delivery [OF sample_session_reachable(1)] by blast
qed

text \<open>Once the hub has stopped, no stream handler ever returns: \<open>register\<close> and \<open>unregister\<close> block for good.\<close>

lemma stopped_hub_strands_handlers:
  assumes "reachable hub_step NewSSEHub h" "\<not> hb_running h" "hb_handler h i \<noteq> Gone" "reachable hub_step h h'"
  shows "hb_handler h' i \<noteq> Gone \<and>
    (hb_handler h i \<in> {Registering, Unregistering} \<longrightarrow> hb_handler h' i = hb_handler h i)"
  using stranded.reachable_inv [of h i "hb_handler h i" h'] assms(2-4) by auto

text \<open>A browser gets back the events of the stream, with their kinds and their data.\<close>

lemma sse_stream_roundtrip:
  assumes "\<forall>(kind, data) \<in> set (map the (filter (\<lambda>m. m \<noteq> None) ms)). CHR 0x0A \<notin> set kind \<and> CHR 0x0A \<notin> set data"
  shows "sse_events (concat (map message_text ms)) = map the (filter (\<lambda>m. m \<noteq> None) ms)"
proof -
  have "concat (map message_text ms) = unlines (concat (map message_lines ms))"
    by (induction ms) (simp_all add: message_text_lines unlines_def)
  moreover have "\<forall>l \<in> set (concat (map message_lines ms)). CHR 0x0A \<notin> set l"
  proof
    fix l
    assume "l \<in> set (concat (map message_lines ms))"
    then obtain m where m: "m \<in> set ms" "l \<in> set (message_lines m)" by auto
    show "CHR 0x0A \<notin> set l"
    proof (cases m)
      case None
      then show ?thesis using m(2) by auto
    next
      case (Some kd)
      then have "kd \<in> set (map the (filter (\<lambda>m. m \<noteq> None) ms))" using m(1) by force
      with assms have "case kd of (kind, data) \<Rightarrow> CHR 0x0A \<notin> set kind \<and> CHR 0x0A \<notin> set data"
        by (rule bspec)
      then show ?thesis using m(2) by (cases kd) (auto simp: Some)
    qed
  qed
  ultimately show ?thesis
    using sse_parse_messages [of ms "[[]]"] by (simp add: sse_events_def Split_unlines)
qed

end
