(* ===== verification/Go_Json.thy ===== *)
theory Go_Json
  imports Go_Strings
begin

text \<open>
  What the program uses of \<open>encoding/json\<close>, apart from the structures it encodes and decodes: the
  encoding of strings with its UTF-8 and HTML escapes, the scanner of JSON texts with its limit on nesting, and
  the unquoting of string literals.
\<close>

section \<open>UTF-8\<close>

definition cont :: "nat \<Rightarrow> nat \<Rightarrow> char \<Rightarrow> bool" where
  "cont lo hi c \<longleftrightarrow> lo \<le> byte c \<and> byte c \<le> hi"

text \<open>How many bytes a rune has by its first one; the range of the second depends on the first.\<close>

definition lead :: "char \<Rightarrow> nat" where
  "lead a = (if byte a < 0x80 then 1 else if cont 0xC2 0xDF a then 2 else if cont 0xE0 0xEF a then 3
     else if cont 0xF0 0xF4 a then 4 else 0)"

definition second_ok :: "char \<Rightarrow> char \<Rightarrow> bool" where
  "second_ok a b =
     cont (if byte a = 0xE0 then 0xA0 else if byte a = 0xF0 then 0x90 else 0x80)
       (if byte a = 0xED then 0x9F else if byte a = 0xF4 then 0x8F else 0xBF) b"

definition follow :: "char \<Rightarrow> string \<Rightarrow> bool" where
  "follow a cs \<longleftrightarrow> (case cs of [] \<Rightarrow> True | b # bs \<Rightarrow> second_ok a b \<and> list_all (cont 0x80 0xBF) bs)"

text \<open>The number of bytes of the rune a string starts with; 0 if there is none or it is not valid.\<close>

definition rune_len :: "string \<Rightarrow> nat" where
  "rune_len s = (case s of
       [] \<Rightarrow> 0
     | a # t \<Rightarrow> if 0 < lead a \<and> lead a \<le> length s \<and> follow a (take (lead a - 1) t) then lead a else 0)"

text \<open>The runes of a string; a byte that does not begin a valid one stands alone.\<close>

function runes :: "string \<Rightarrow> string list" where
  "runes [] = []"
| "runes (a # s) = (let n = max 1 (rune_len (a # s)) in take n (a # s) # runes (drop n (a # s)))"
  by pat_completeness auto

termination
  by (relation "measure length") (auto simp: Let_def)

definition valid_utf8 :: "string \<Rightarrow> bool" where
  "valid_utf8 s \<longleftrightarrow> list_all (\<lambda>r. rune_len r \<noteq> 0) (runes s)"

text \<open>The encoding of a code point.\<close>

definition utf8 :: "nat \<Rightarrow> string" where
  "utf8 n =
     (if n < 0x80 then [char_of n]
      else if n < 0x800 then [char_of (0xC0 + n div 64), char_of (0x80 + n mod 64)]
      else if n < 0x10000 then
        [char_of (0xE0 + n div 4096), char_of (0x80 + n div 64 mod 64), char_of (0x80 + n mod 64)]
      else [char_of (0xF0 + n div 262144), char_of (0x80 + n div 4096 mod 64), char_of (0x80 + n div 64 mod 64),
        char_of (0x80 + n mod 64)])"

definition rune_error :: string where
  "rune_error = [CHR 0xEF, CHR 0xBF, CHR 0xBD]"

section \<open>Encoding of strings\<close>

definition quote :: char where "quote = CHR 0x22"

definition backslash :: char where "backslash = CHR 0x5C"

definition hex_digit :: "nat \<Rightarrow> char" where
  "hex_digit n = (if n < 10 then char_of (48 + n) else char_of (87 + n))"

text \<open>\<open>appendString\<close> of \<open>encoding/json\<close> with HTML escapes, for one rune.\<close>

definition escape_rune :: "string \<Rightarrow> string" where
  "escape_rune r =
     (if rune_len r = 0 then backslash # ''ufffd''
      else if rune_len r > 1 then
        (if r = [CHR 0xE2, CHR 0x80, CHR 0xA8] then backslash # ''u2028''
         else if r = [CHR 0xE2, CHR 0x80, CHR 0xA9] then backslash # ''u2029'' else r)
      else let c = hd r in
        if c = quote \<or> c = backslash then [backslash, c]
        else if byte c = 8 then backslash # ''b''
        else if byte c = 12 then backslash # ''f''
        else if byte c = 10 then backslash # ''n''
        else if byte c = 13 then backslash # ''r''
        else if byte c = 9 then backslash # ''t''
        else if byte c < 32 \<or> c = CHR ''<'' \<or> c = CHR ''>'' \<or> c = CHR ''&''
        then backslash # ''u00'' @ [hex_digit (byte c div 16), hex_digit (byte c mod 16)]
        else [c])"

definition escape :: "string \<Rightarrow> string" where
  "escape s = concat (map escape_rune (runes s))"

section \<open>Decoding of string literals\<close>

definition hex_val :: "char \<Rightarrow> nat option" where
  "hex_val c =
     (if cont 48 57 c then Some (byte c - 48)
      else if cont 97 102 c then Some (byte c - 87)
      else if cont 65 70 c then Some (byte c - 55) else None)"

fun hex4 :: "string \<Rightarrow> (nat \<times> string) option" where
  "hex4 (a # b # c # d # s) = (case (hex_val a, hex_val b, hex_val c, hex_val d) of
     (Some i, Some j, Some k, Some l) \<Rightarrow> Some (4096 * i + 256 * j + 16 * k + l, s)
   | _ \<Rightarrow> None)"
| "hex4 _ = None"

definition surrogate :: "nat \<Rightarrow> bool" where
  "surrogate n \<longleftrightarrow> 0xD800 \<le> n \<and> n < 0xE000"

definition low_surrogate :: "nat \<Rightarrow> bool" where
  "low_surrogate n \<longleftrightarrow> 0xDC00 \<le> n \<and> n < 0xE000"

text \<open>The second half of a pair, if it follows.\<close>

definition second_half :: "string \<Rightarrow> (nat \<times> string) option" where
  "second_half s = (if HasPrefix s [backslash, CHR ''u''] then hex4 (drop 2 s) else None)"

definition unquote_u :: "string \<Rightarrow> string \<times> string" where
  "unquote_u t = (case hex4 t of
     None \<Rightarrow> ([], [])
   | Some (n, u) \<Rightarrow>
       if surrogate n then (case second_half u of
           None \<Rightarrow> (rune_error, u)
         | Some (m, v) \<Rightarrow>
             if \<not> low_surrogate n \<and> low_surrogate m
             then (utf8 (0x10000 + (n - 0xD800) * 1024 + (m - 0xDC00)), v) else (rune_error, u))
       else (utf8 n, u))"

definition simple_escape :: "char \<Rightarrow> char" where
  "simple_escape e =
     (if e = CHR ''b'' then CHR 0x08 else if e = CHR ''f'' then CHR 0x0C else if e = CHR ''n'' then CHR 0x0A
      else if e = CHR ''r'' then CHR 0x0D else if e = CHR ''t'' then CHR 0x09 else e)"

text \<open>One escape or one rune: what it stands for, and the rest.\<close>

definition unquote_step :: "string \<Rightarrow> string \<times> string" where
  "unquote_step s =
     (if hd s \<noteq> backslash then
        (if rune_len s = 0 then (rune_error, tl s) else (take (rune_len s) s, drop (rune_len s) s))
      else (case tl s of
          [] \<Rightarrow> ([], [])
        | e # t \<Rightarrow> if e = CHR ''u'' then unquote_u t else ([simple_escape e], t)))"

lemma hex4_shorter: "hex4 s = Some (n, t) \<Longrightarrow> length t < length s"
  by (cases s rule: hex4.cases) (auto split: option.splits)

lemma unquote_u_shorter: "length (snd (unquote_u s)) \<le> length s"
  by (auto simp: unquote_u_def second_half_def dest!: hex4_shorter split: option.splits)

lemma rune_len_le: "rune_len s \<le> length s"
  by (auto simp: rune_len_def split: list.split)

lemma unquote_step_shorter: "s \<noteq> [] \<Longrightarrow> length (snd (unquote_step s)) < length s"
  by (cases s) (auto simp: unquote_step_def less_Suc_eq_le intro: le_SucI [OF unquote_u_shorter] split: list.split)

function unquote :: "string \<Rightarrow> string" where
  "unquote s = (if s = [] then [] else fst (unquote_step s) @ unquote (snd (unquote_step s)))"
  by pat_completeness auto

termination
  by (relation "measure length") (auto simp: unquote_step_shorter)

declare unquote.simps [simp del]

section \<open>Scanning\<close>

datatype json =
    JNull
  | JBool bool
  | JNumber string
  | JString string
  | JArray "json list"
  | JObject "(string \<times> json) list"

text \<open>The text that the encoder writes for a value; strings and numbers are given as they are written.\<close>

fun json_text :: "json \<Rightarrow> string" where
  "json_text JNull = ''null''"
| "json_text (JBool b) = (if b then ''true'' else ''false'')"
| "json_text (JNumber l) = l"
| "json_text (JString l) = quote # l @ [quote]"
| "json_text (JArray vs) = ''['' @ Join (map json_text vs) '','' @ '']''"
| "json_text (JObject ms) = ''{'' @ Join (map (\<lambda>(k, v). quote # k @ quote # CHR '':'' # json_text v) ms) '','' @ ''}''"

definition json_space :: "char \<Rightarrow> bool" where
  "json_space c \<longleftrightarrow> byte c = 32 \<or> byte c = 9 \<or> byte c = 10 \<or> byte c = 13"

definition skip_ws :: "string \<Rightarrow> string" where
  "skip_ws s = dropWhile json_space s"

text \<open>A string after its first quote: the literal up to the closing quote, not yet unquoted.\<close>

fun scan_string :: "string \<Rightarrow> (string \<times> string) option" where
  "scan_string [] = None"
| "scan_string (c # s) =
     (if c = quote then Some ([], s)
      else if byte c < 32 then None
      else if c = backslash then (case s of
          [] \<Rightarrow> None
        | e # t \<Rightarrow>
            if e \<in> {quote, backslash, CHR ''/'', CHR ''b'', CHR ''f'', CHR ''n'', CHR ''r'', CHR ''t''} \<or>
              e = CHR ''u'' \<and> hex4 t \<noteq> None
            then map_option (\<lambda>(l, r). (c # e # l, r)) (scan_string t) else None)
      else map_option (\<lambda>(l, r). (c # l, r)) (scan_string s))"

definition json_digit :: "char \<Rightarrow> bool" where
  "json_digit c \<longleftrightarrow> cont 48 57 c"

definition scan_digits :: "string \<Rightarrow> (string \<times> string) option" where
  "scan_digits s = (case takeWhile json_digit s of [] \<Rightarrow> None | ds \<Rightarrow> Some (ds, dropWhile json_digit s))"

definition scan_integer :: "string \<Rightarrow> (string \<times> string) option" where
  "scan_integer s = (case s of
     c # t \<Rightarrow> if c = CHR ''0'' then Some ([c], t) else scan_digits s
   | [] \<Rightarrow> None)"

definition scan_fraction :: "string \<Rightarrow> (string \<times> string) option" where
  "scan_fraction s = (case s of
     c # t \<Rightarrow> if c = CHR ''.'' then map_option (\<lambda>(ds, r). (c # ds, r)) (scan_digits t) else Some ([], s)
   | [] \<Rightarrow> Some ([], s))"

definition scan_exponent :: "string \<Rightarrow> (string \<times> string) option" where
  "scan_exponent s = (case s of
     c # t \<Rightarrow>
       if c = CHR ''e'' \<or> c = CHR ''E'' then (case t of
           d # u \<Rightarrow> if d = CHR ''+'' \<or> d = CHR ''-'' then map_option (\<lambda>(ds, r). (c # d # ds, r)) (scan_digits u)
             else map_option (\<lambda>(ds, r). (c # ds, r)) (scan_digits t)
         | [] \<Rightarrow> None)
       else Some ([], s)
   | [] \<Rightarrow> Some ([], s))"

definition scan_number :: "string \<Rightarrow> (string \<times> string) option" where
  "scan_number s =
     (let (sign, s) = (if HasPrefix s ''-'' then (''-'', tl s) else ([], s)) in
      Option.bind (scan_integer s) (\<lambda>(i, s). Option.bind (scan_fraction s) (\<lambda>(f, s).
        map_option (\<lambda>(e, s). (sign @ i @ f @ e, s)) (scan_exponent s))))"

definition scan_literal :: "string \<Rightarrow> json \<Rightarrow> string \<Rightarrow> (json \<times> string) option" where
  "scan_literal text v s = (if HasPrefix s text then Some (v, drop (length text) s) else None)"

definition maxNestingDepth :: nat where "maxNestingDepth = 10000"

text \<open>A value, the values of an array that is not empty, and the members of an object that is not empty;
  \<open>n\<close> is fuel, \<open>d\<close> the number of arrays and objects that are open.\<close>

fun scan_value :: "nat \<Rightarrow> nat \<Rightarrow> string \<Rightarrow> (json \<times> string) option"
  and scan_values :: "nat \<Rightarrow> nat \<Rightarrow> string \<Rightarrow> (json list \<times> string) option"
  and scan_members :: "nat \<Rightarrow> nat \<Rightarrow> string \<Rightarrow> ((string \<times> json) list \<times> string) option" where
  "scan_value 0 d s = None"
| "scan_value (Suc n) d s = (case skip_ws s of
     [] \<Rightarrow> None
   | c # t \<Rightarrow>
       if c = quote then map_option (\<lambda>(l, r). (JString l, r)) (scan_string t)
       else if c = CHR ''['' then
         (if d \<ge> maxNestingDepth then None
          else if HasPrefix (skip_ws t) '']'' then Some (JArray [], tl (skip_ws t))
          else map_option (\<lambda>(vs, r). (JArray vs, r)) (scan_values n (Suc d) t))
       else if c = CHR ''{'' then
         (if d \<ge> maxNestingDepth then None
          else if HasPrefix (skip_ws t) ''}'' then Some (JObject [], tl (skip_ws t))
          else map_option (\<lambda>(ms, r). (JObject ms, r)) (scan_members n (Suc d) t))
       else if c = CHR ''n'' then scan_literal ''null'' JNull (c # t)
       else if c = CHR ''t'' then scan_literal ''true'' (JBool True) (c # t)
       else if c = CHR ''f'' then scan_literal ''false'' (JBool False) (c # t)
       else map_option (\<lambda>(l, r). (JNumber l, r)) (scan_number (c # t)))"
| "scan_values 0 d s = None"
| "scan_values (Suc n) d s = (case scan_value n d s of
     None \<Rightarrow> None
   | Some (v, r) \<Rightarrow> (case skip_ws r of
       [] \<Rightarrow> None
     | c # t \<Rightarrow>
         if c = CHR '']'' then Some ([v], t)
         else if c = CHR '','' then map_option (\<lambda>(vs, r). (v # vs, r)) (scan_values n d t)
         else None))"
| "scan_members 0 d s = None"
| "scan_members (Suc n) d s = (case skip_ws s of
     [] \<Rightarrow> None
   | q # t \<Rightarrow> if q \<noteq> quote then None else (case scan_string t of
       None \<Rightarrow> None
     | Some (k, u) \<Rightarrow> if \<not> HasPrefix (skip_ws u) '':'' then None else (case scan_value n d (tl (skip_ws u)) of
         None \<Rightarrow> None
       | Some (v, r) \<Rightarrow> (case skip_ws r of
           [] \<Rightarrow> None
         | c # t \<Rightarrow>
             if c = CHR ''}'' then Some ([(k, v)], t)
             else if c = CHR '','' then map_option (\<lambda>(ms, r). ((k, v) # ms, r)) (scan_members n d t)
             else None))))"

text \<open>A whole text; the fuel is enough by \<open>scan_fuel\<close>.\<close>

definition json_scan :: "string \<Rightarrow> json option" where
  "json_scan s = (case scan_value (Suc (2 * length s)) 0 s of
     None \<Rightarrow> None
   | Some (v, r) \<Rightarrow> if skip_ws r = [] then Some v else None)"

section \<open>Lemmas: runes\<close>

declare runes.simps(2) [simp del]

definition is_rune :: "string \<Rightarrow> bool" where
  "is_rune r \<longleftrightarrow> r \<noteq> [] \<and> rune_len r = length r"

lemma concat_runes [simp]: "concat (runes s) = s"
  by (induction s rule: runes.induct) (simp_all add: runes.simps Let_def)

lemma rune_len_prefix: "rune_len r = length r \<Longrightarrow> r \<noteq> [] \<Longrightarrow> rune_len (r @ t) = length r"
  by (cases r) (auto simp: rune_len_def split: if_splits)

lemma rune_len_take: "rune_len s \<noteq> 0 \<Longrightarrow> rune_len (take (rune_len s) s) = rune_len s"
  by (cases s) (auto simp: rune_len_def take_Cons' split: if_splits)

lemma runes_valid: "valid_utf8 s \<Longrightarrow> list_all is_rune (runes s)"
proof (induction s rule: runes.induct)
  case (2 a s)
  let ?n = "rune_len (a # s)" and ?m = "max 1 (rune_len (a # s))"
  have R: "runes (a # s) = take ?m (a # s) # runes (drop ?m (a # s))"
    by (simp add: runes.simps Let_def)
  have n: "?n \<noteq> 0"
  proof
    assume n0: "?n = 0"
    then have "rune_len [a] = 0"
      by (auto simp: rune_len_def follow_def split: if_splits)
    then show False
      using "2.prems" n0 by (simp add: valid_utf8_def R)
  qed
  then have m: "?m = ?n" by simp
  have "is_rune (take ?n (a # s))"
    using n rune_len_take [OF n] rune_len_le [of "a # s"] by (auto simp: is_rune_def min_def take_eq_Nil)
  moreover have "list_all is_rune (runes (drop ?m (a # s)))"
    using "2.prems" by (intro "2.IH" refl) (simp add: valid_utf8_def R)
  ultimately show ?case
    unfolding R m by simp
qed simp

lemma follow_high: "follow a cs \<Longrightarrow> c \<in> set cs \<Longrightarrow> 128 \<le> byte c"
  by (cases cs) (auto simp: follow_def second_ok_def cont_def list_all_iff split: if_splits)

lemma rune_high: "is_rune r \<Longrightarrow> length r > 1 \<Longrightarrow> c \<in> set r \<Longrightarrow> 128 \<le> byte c"
  by (cases r) (auto simp: is_rune_def rune_len_def lead_def dest: follow_high split: if_splits)

lemma rune_low: "is_rune r \<Longrightarrow> \<not> length r > 1 \<Longrightarrow> \<exists>c. r = [c] \<and> byte c < 128"
  by (cases r) (auto simp: is_rune_def rune_len_def lead_def split: if_splits)

section \<open>Lemmas: string literals\<close>

lemma special_bytes [simp]: "byte quote = 34" "byte backslash = 92" "quote \<noteq> backslash" "backslash \<noteq> quote"
  by (simp_all add: quote_def backslash_def)

lemma unquote_Nil [simp]: "unquote [] = []"
  by (simp add: unquote.simps)

lemma unquote_Cons: "unquote_step s = (r, t) \<Longrightarrow> s \<noteq> [] \<Longrightarrow> unquote s = r @ unquote t"
  by (subst unquote.simps) simp

lemma hex_val_digit [simp]: "n < 16 \<Longrightarrow> hex_val (hex_digit n) = Some n"
  by (simp add: hex_val_def hex_digit_def cont_def byte_char_of)

lemma hex_val_0 [simp]: "hex_val (CHR ''0'') = Some 0"
  by (simp add: hex_val_def cont_def)

lemma unquote_control:
  assumes "byte c < 128"
  shows "unquote_step (backslash # ''u00'' @ hex_digit (byte c div 16) # hex_digit (byte c mod 16) # t) = ([c], t)"
proof -
  have "byte c div 16 < 16" "16 * (byte c div 16) + byte c mod 16 = byte c"
    using assms by (auto simp: div_less_iff_less_mult)
  then show ?thesis
    using assms by (simp add: unquote_step_def unquote_u_def surrogate_def utf8_def)
qed

lemma unquote_plain:
  "is_rune r \<Longrightarrow> hd r \<noteq> backslash \<Longrightarrow> unquote_step (r @ t) = (r, t)"
  by (simp add: unquote_step_def rune_len_prefix is_rune_def)

text \<open>The characters with an escape of their own.\<close>

definition special_chars :: string where
  "special_chars = [quote, backslash, CHR 0x08, CHR 0x0C, CHR 0x0A, CHR 0x0D, CHR 0x09]"

definition escape_ok :: "char \<Rightarrow> bool" where
  "escape_ok c \<longleftrightarrow> (case escape_rune [c] of
     [b, e] \<Rightarrow> b = backslash \<and> e \<noteq> CHR ''u'' \<and> simple_escape e = c \<and>
       e \<in> {quote, backslash, CHR ''/'', CHR ''b'', CHR ''f'', CHR ''n'', CHR ''r'', CHR ''t''}
   | _ \<Rightarrow> False)"

lemma special_chars_ok: "list_all escape_ok special_chars"
  by code_simp

lemma special_char_bytes: "map byte special_chars = [34, 92, 8, 12, 10, 13, 9 :: nat]"
  by code_simp

lemma special_char_cases:
  assumes "c \<in> set special_chars"
  obtains e where "escape_rune [c] = [backslash, e]" "e \<noteq> CHR ''u''" "simple_escape e = c"
    "e \<in> {quote, backslash, CHR ''/'', CHR ''b'', CHR ''f'', CHR ''n'', CHR ''r'', CHR ''t''}"
proof -
  have "escape_ok c"
    using special_chars_ok assms by (simp add: list_all_iff)
  then show ?thesis
    unfolding escape_ok_def by (cases "escape_rune [c]" rule: remdups_adj.cases) (auto split: list.splits intro: that)
qed

lemma not_special:
  assumes "c \<notin> set special_chars"
  shows "c \<noteq> quote" "c \<noteq> backslash" "byte c \<notin> {8, 12, 10, 13, 9 :: nat}"
proof -
  show "c \<noteq> quote" "c \<noteq> backslash"
    using assms by (auto simp: special_chars_def)
  show "byte c \<notin> {8, 12, 10, 13, 9 :: nat}"
  proof
    assume "byte c \<in> {8, 12, 10, 13, 9 :: nat}"
    then have "byte c \<in> set (map byte special_chars)"
      unfolding special_char_bytes by auto
    then show False
      using assms by (auto simp: of_char_eq_iff)
  qed
qed

lemma escape_rune_low:
  assumes "byte c < 128"
  shows "unquote_step (escape_rune [c] @ t) = ([c], t)"
proof -
  have one: "is_rune [c]" "rune_len [c] = 1"
    using assms by (simp_all add: is_rune_def rune_len_def lead_def follow_def)
  show ?thesis
  proof (cases "c \<in> set special_chars")
    case True
    then obtain e where "escape_rune [c] = [backslash, e]" "e \<noteq> CHR ''u''" "simple_escape e = c"
      by (rule special_char_cases)
    then show ?thesis
      by (simp add: unquote_step_def)
  next
    case False
    note c = not_special [OF False]
    show ?thesis
    proof (cases "byte c < 32 \<or> c = CHR ''<'' \<or> c = CHR ''>'' \<or> c = CHR ''&''")
      case True
      then have "escape_rune [c] = backslash # ''u00'' @ [hex_digit (byte c div 16), hex_digit (byte c mod 16)]"
        using c one(2) by (simp add: escape_rune_def Let_def)
      then show ?thesis
        using unquote_control [OF assms] by simp
    next
      case False
      then have "escape_rune [c] = [c]"
        using c one(2) by (simp add: escape_rune_def Let_def)
      then show ?thesis
        using unquote_plain [OF one(1)] c(2) by simp
    qed
  qed
qed

lemma separators:
  "utf8 0x2028 = [CHR 0xE2, CHR 0x80, CHR 0xA8]" "utf8 0x2029 = [CHR 0xE2, CHR 0x80, CHR 0xA9]"
  by code_simp+

lemma escape_rune_separator:
  "unquote_step (backslash # ''u2028'' @ t) = ([CHR 0xE2, CHR 0x80, CHR 0xA8], t)"
  "unquote_step (backslash # ''u2029'' @ t) = ([CHR 0xE2, CHR 0x80, CHR 0xA9], t)"
  by (simp_all add: unquote_step_def unquote_u_def surrogate_def separators hex_val_def cont_def)

lemma unquote_escape_rune:
  assumes "is_rune r"
  shows "unquote_step (escape_rune r @ t) = (r, t)"
proof (cases "length r > 1")
  case True
  then have len: "rune_len r \<noteq> 0" "rune_len r > 1" and "hd r \<in> set r"
    using assms by (auto simp: is_rune_def)
  then have "hd r \<noteq> backslash"
    using rune_high [OF assms True] by fastforce
  then have plain: "unquote_step (r @ t) = (r, t)"
    by (rule unquote_plain [OF assms])
  show ?thesis
    using len plain escape_rune_separator [of t] by (auto simp: escape_rune_def)
next
  case False
  then show ?thesis
    using rune_low [OF assms False] escape_rune_low by auto
qed

lemma escape_rune_nonempty: "r \<noteq> [] \<Longrightarrow> escape_rune r \<noteq> []"
  by (simp add: escape_rune_def Let_def)

lemma unquote_escapes: "list_all is_rune rs \<Longrightarrow> unquote (concat (map escape_rune rs) @ t) = concat rs @ unquote t"
proof (induction rs)
  case (Cons r rs)
  then have "unquote_step (escape_rune r @ concat (map escape_rune rs) @ t) = (r, concat (map escape_rune rs) @ t)"
    by (intro unquote_escape_rune) simp
  moreover have "escape_rune r \<noteq> []"
    using Cons.prems by (intro escape_rune_nonempty) (simp add: is_rune_def)
  ultimately show ?case
    using Cons by (simp add: unquote_Cons)
qed simp

text \<open>Valid strings are given back.\<close>

lemma unquote_escape: "valid_utf8 s \<Longrightarrow> unquote (escape s) = s"
  using unquote_escapes [OF runes_valid, of s "[]"] by (simp add: escape_def)

text \<open>The scanner finds the end of a literal.\<close>

definition literal_char :: "char \<Rightarrow> bool" where
  "literal_char c \<longleftrightarrow> c \<noteq> quote \<and> c \<noteq> backslash \<and> 32 \<le> byte c"

lemma scan_literal_chars:
  "list_all literal_char w \<Longrightarrow> scan_string (w @ u) = map_option (\<lambda>(l, r). (w @ l, r)) (scan_string u)"
  by (induction w) (auto simp: literal_char_def option.map_comp option.map_ident comp_def case_prod_unfold)

lemma hex4_hex_digits:
  "m < 16 \<Longrightarrow> n < 16 \<Longrightarrow> hex4 (CHR ''0'' # CHR ''0'' # hex_digit m # hex_digit n # u) \<noteq> None"
  by simp

lemma literal_hex_digit: "n < 16 \<Longrightarrow> literal_char (hex_digit n)"
  by (auto simp: literal_char_def hex_digit_def byte_char_of dest!: arg_cong [where f = byte])

lemma scan_string_escape:
  assumes "e \<in> {quote, backslash, CHR ''/'', CHR ''b'', CHR ''f'', CHR ''n'', CHR ''r'', CHR ''t''} \<or>
      e = CHR ''u'' \<and> hex4 (w @ u) \<noteq> None" "list_all literal_char w"
  shows "scan_string (backslash # e # w @ u) = map_option (\<lambda>(l, r). (backslash # e # w @ l, r)) (scan_string u)"
proof -
  have "scan_string (backslash # e # w @ u) = map_option (\<lambda>(l, r). (backslash # e # l, r)) (scan_string (w @ u))"
    using assms(1) by (subst scan_string.simps(2)) simp
  then show ?thesis
    by (simp add: scan_literal_chars [OF assms(2)] option.map_comp comp_def case_prod_unfold)
qed

lemma scan_escape_low:
  assumes "byte c < 128"
  shows "scan_string (escape_rune [c] @ u) = map_option (\<lambda>(l, r). (escape_rune [c] @ l, r)) (scan_string u)"
proof (cases "c \<in> set special_chars")
  case True
  then obtain e where "escape_rune [c] = [backslash, e]"
    "e \<in> {quote, backslash, CHR ''/'', CHR ''b'', CHR ''f'', CHR ''n'', CHR ''r'', CHR ''t''}"
    by (rule special_char_cases)
  then show ?thesis
    using scan_string_escape [of e "[]" u] by simp
next
  case False
  note c = not_special [OF False]
  have len: "rune_len [c] = 1"
    using assms by (simp add: rune_len_def lead_def follow_def)
  show ?thesis
  proof (cases "byte c < 32 \<or> c = CHR ''<'' \<or> c = CHR ''>'' \<or> c = CHR ''&''")
    case True
    let ?w = "''00'' @ [hex_digit (byte c div 16), hex_digit (byte c mod 16)]"
    have "byte c div 16 < 16"
      using assms by (simp add: div_less_iff_less_mult)
    then have w: "list_all literal_char ?w" "hex4 (?w @ u) \<noteq> None"
      by (simp_all add: literal_hex_digit) (simp_all add: literal_char_def quote_def backslash_def)
    have "escape_rune [c] = backslash # CHR ''u'' # ?w"
      using True c len by (simp add: escape_rune_def Let_def)
    then show ?thesis
      using scan_string_escape [of "CHR ''u''" ?w u] w by simp
  next
    case False
    then have "escape_rune [c] = [c]" "literal_char c"
      using c len by (simp_all add: escape_rune_def Let_def literal_char_def)
    then show ?thesis
      using scan_literal_chars [of "[c]" u] by simp
  qed
qed

lemma scan_escape_high:
  assumes "is_rune r" "length r > 1"
  shows "scan_string (escape_rune r @ u) = map_option (\<lambda>(l, r'). (escape_rune r @ l, r')) (scan_string u)"
proof -
  have len: "rune_len r \<noteq> 0" "rune_len r > 1"
    using assms by (auto simp: is_rune_def)
  have plain: "scan_string (r @ u) = map_option (\<lambda>(l, r'). (r @ l, r')) (scan_string u)"
    using rune_high [OF assms] by (intro scan_literal_chars) (fastforce simp: list_all_iff literal_char_def)
  have "scan_string (backslash # CHR ''u'' # w @ u) = map_option (\<lambda>(l, r'). (backslash # CHR ''u'' # w @ l, r')) (scan_string u)"
    if "w \<in> {''2028'', ''2029''}" for w
    using that by (intro scan_string_escape)
      (auto simp: hex_val_def cont_def literal_char_def quote_def backslash_def)
  from this [of "''2028''"] this [of "''2029''"] show ?thesis
    using len plain by (auto simp: escape_rune_def)
qed

lemma scan_escapes:
  "list_all is_rune rs \<Longrightarrow> scan_string (concat (map escape_rune rs) @ quote # t) = Some (concat (map escape_rune rs), t)"
proof (induction rs)
  case (Cons r rs)
  have "scan_string (escape_rune r @ u) = map_option (\<lambda>(l, r'). (escape_rune r @ l, r')) (scan_string u)" for u
  proof (cases "length r > 1")
    case False
    then show ?thesis
      using rune_low [of r] Cons.prems scan_escape_low by auto
  qed (use scan_escape_high Cons.prems in simp)
  then show ?case
    using Cons by simp
qed simp

lemma scan_escape: "valid_utf8 s \<Longrightarrow> scan_string (escape s @ quote # t) = Some (escape s, t)"
  unfolding escape_def by (rule scan_escapes [OF runes_valid])

section \<open>Lemmas: the fuel of the scanner\<close>

lemma length_skip_ws: "length (skip_ws s) \<le> length s"
  by (simp add: skip_ws_def length_dropWhile_le)

lemma skip_ws_Cons: "skip_ws s = c # t \<Longrightarrow> length t < length s"
  using length_skip_ws [of s] by simp

lemma scan_string_shorter: "scan_string s = Some (l, r) \<Longrightarrow> length r < length s"
  by (induction s arbitrary: l r rule: scan_string.induct) (force split: if_splits list.splits)+

lemma scan_digits_shorter: "scan_digits s = Some (l, r) \<Longrightarrow> length r < length s"
proof (unfold scan_digits_def, cases "takeWhile json_digit s")
  case (Cons c cs)
  assume "(case takeWhile json_digit s of [] \<Rightarrow> None | ds \<Rightarrow> Some (ds, dropWhile json_digit s)) = Some (l, r)"
  moreover have "length s = length (takeWhile json_digit s) + length (dropWhile json_digit s)"
    by (metis length_append takeWhile_dropWhile_id)
  ultimately show "length r < length s"
    using Cons by auto
qed simp

lemma scan_integer_shorter: "scan_integer s = Some (l, r) \<Longrightarrow> length r < length s"
  by (auto simp: scan_integer_def dest: scan_digits_shorter split: list.splits if_splits)

lemma scan_fraction_shorter: "scan_fraction s = Some (l, r) \<Longrightarrow> length r \<le> length s"
  by (auto simp: scan_fraction_def dest!: scan_digits_shorter split: list.splits if_splits)

lemma scan_exponent_shorter: "scan_exponent s = Some (l, r) \<Longrightarrow> length r \<le> length s"
  by (auto simp: scan_exponent_def dest!: scan_digits_shorter split: list.splits if_splits)

lemma scan_number_shorter: "scan_number s = Some (l, r) \<Longrightarrow> length r < length s"
  by (force simp: scan_number_def Let_def Option.bind_eq_Some_conv
      dest!: scan_integer_shorter scan_fraction_shorter scan_exponent_shorter split: if_splits)

lemma scan_literal_shorter: "scan_literal w v s = Some (x, r) \<Longrightarrow> w \<noteq> [] \<Longrightarrow> length r < length s"
  by (auto simp: scan_literal_def HasPrefix_iff split: if_splits)

definition shrinks :: "(string \<Rightarrow> ('a \<times> string) option) \<Rightarrow> bool" where
  "shrinks f \<longleftrightarrow> (\<forall>s v r. f s = Some (v, r) \<longrightarrow> length r < length s)"

lemma shrinksD: "shrinks f \<Longrightarrow> f s = Some (v, r) \<Longrightarrow> length r < length s"
  by (auto simp: shrinks_def)

lemma tl_skip_ws: "HasPrefix (skip_ws s) [c] \<Longrightarrow> length (tl (skip_ws s)) < length s"
  using length_skip_ws [of s] by (cases "skip_ws s") (auto simp: HasPrefix_def)

lemma scan_value_Suc_shorter:
  assumes "shrinks (scan_values n (Suc d))" "shrinks (scan_members n (Suc d))" "scan_value (Suc n) d s = Some (v, r)"
  shows "length r < length s"
proof (cases "skip_ws s")
  case (Cons c t)
  have t: "length t < length s"
    by (rule skip_ws_Cons [OF Cons])
  have "length r < length (c # t)"
    using assms(3) Cons
    by (auto dest!: scan_string_shorter scan_number_shorter scan_literal_shorter shrinksD [OF assms(1)]
        shrinksD [OF assms(2)] tl_skip_ws split: if_splits)
  with t show ?thesis
    by simp
qed (use assms(3) in simp)

lemma scan_values_Suc_shorter:
  assumes "shrinks (scan_value n d)" "shrinks (scan_values n d)" "scan_values (Suc n) d s = Some (vs, r)"
  shows "length r < length s"
  using assms(3)
  by (auto dest!: shrinksD [OF assms(1)] shrinksD [OF assms(2)] skip_ws_Cons split: option.splits list.splits if_splits)

lemma scan_members_Suc_shorter:
  assumes "shrinks (scan_value n d)" "shrinks (scan_members n d)" "scan_members (Suc n) d s = Some (ms, r)"
  shows "length r < length s"
  using assms(3)
  by (auto dest!: shrinksD [OF assms(1)] shrinksD [OF assms(2)] skip_ws_Cons scan_string_shorter tl_skip_ws
      split: option.splits list.splits if_splits)

lemma scan_shrinks: "shrinks (scan_value n d) \<and> shrinks (scan_values n d) \<and> shrinks (scan_members n d)"
proof (induction n arbitrary: d)
  case (Suc n)
  note IH = Suc.IH [THEN conjunct1] Suc.IH [THEN conjunct2, THEN conjunct1] Suc.IH [THEN conjunct2, THEN conjunct2]
  show ?case
    unfolding shrinks_def
    using scan_value_Suc_shorter [OF IH(2,3)] scan_values_Suc_shorter [OF IH(1,2)] scan_members_Suc_shorter [OF IH(1,3)]
    by blast
qed (simp add: shrinks_def)

text \<open>More fuel changes nothing.\<close>

definition enough :: "nat \<Rightarrow> bool" where
  "enough n \<longleftrightarrow>
     (\<forall>d s. 2 * length s < n \<longrightarrow> scan_value (Suc n) d s = scan_value n d s) \<and>
     (\<forall>d s. Suc (2 * length s) < n \<longrightarrow> scan_values (Suc n) d s = scan_values n d s) \<and>
     (\<forall>d s. 2 * length s < n \<longrightarrow> scan_members (Suc n) d s = scan_members n d s)"

lemma enough_value:
  assumes "enough n" "2 * length s < Suc n"
  shows "scan_value (Suc (Suc n)) d s = scan_value (Suc n) d s"
proof (cases "skip_ws s")
  case (Cons c t)
  have "Suc (2 * length t) < n"
    using skip_ws_Cons [OF Cons] assms(2) by simp
  then have "scan_values (Suc n) (Suc d) t = scan_values n (Suc d) t" "scan_members (Suc n) (Suc d) t = scan_members n (Suc d) t"
    using assms(1) by (simp_all add: enough_def del: scan_values.simps scan_members.simps)
  then show ?thesis
    unfolding scan_value.simps(2) Cons by (simp del: scan_values.simps scan_members.simps)
qed simp

lemma enough_values:
  assumes "enough n" "Suc (2 * length s) < Suc n"
  shows "scan_values (Suc (Suc n)) d s = scan_values (Suc n) d s"
proof -
  have v: "scan_value (Suc n) d s = scan_value n d s"
    using assms by (simp add: enough_def del: scan_value.simps)
  have "scan_values (Suc n) d t = scan_values n d t" if "scan_value n d s = Some (v, r)" "skip_ws r = c # t" for v r c t
  proof -
    have "Suc (2 * length t) < n"
      using skip_ws_Cons [OF that(2)] shrinksD [OF scan_shrinks [THEN conjunct1] that(1)] assms(2) by simp
    then show ?thesis
      using assms(1) by (simp add: enough_def del: scan_values.simps)
  qed
  then show ?thesis
    unfolding scan_values.simps(2) v by (auto simp del: scan_values.simps split: option.split list.split)
qed

lemma enough_members:
  assumes "enough n" "2 * length s < Suc n"
  shows "scan_members (Suc (Suc n)) d s = scan_members (Suc n) d s"
proof (cases "skip_ws s")
  case (Cons q t)
  note t = skip_ws_Cons [OF Cons]
  have v: "scan_value (Suc n) d (tl (skip_ws u)) = scan_value n d (tl (skip_ws u))"
    and m: "scan_value n d (tl (skip_ws u)) = Some (x, r) \<Longrightarrow> skip_ws r = c # w \<Longrightarrow>
      scan_members (Suc n) d w = scan_members n d w"
    if "scan_string t = Some (k, u)" for k u x r c w
  proof -
    have "length (tl (skip_ws u)) < length t"
      using scan_string_shorter [OF that] length_skip_ws [of u] by simp
    moreover have "length w < length (tl (skip_ws u))"
      if "scan_value n d (tl (skip_ws u)) = Some (x, r)" "skip_ws r = c # w"
      using skip_ws_Cons [OF that(2)] shrinksD [OF scan_shrinks [THEN conjunct1] that(1)] by simp
    ultimately show "scan_value (Suc n) d (tl (skip_ws u)) = scan_value n d (tl (skip_ws u))"
      "scan_value n d (tl (skip_ws u)) = Some (x, r) \<Longrightarrow> skip_ws r = c # w \<Longrightarrow>
        scan_members (Suc n) d w = scan_members n d w"
      using assms t by (auto simp: enough_def simp del: scan_value.simps scan_members.simps)
  qed
  then show ?thesis
    unfolding scan_members.simps(2) Cons
    by (auto simp del: scan_value.simps scan_members.simps split: option.split list.split)
qed simp

lemma enough_all: "enough n"
proof (induction n)
  case (Suc n)
  then show ?case
    unfolding enough_def [of "Suc n"] using enough_value enough_values enough_members by blast
qed (simp add: enough_def)

lemma scan_fuel: "2 * length s < n \<Longrightarrow> n \<le> m \<Longrightarrow> scan_value m d s = scan_value n d s"
proof (induction m)
  case (Suc m)
  then show ?case
    using enough_all [of m] by (cases "n = Suc m") (simp_all add: enough_def del: scan_value.simps)
qed simp

section \<open>Lemmas: printed texts\<close>

definition after_value :: "string \<Rightarrow> bool" where
  "after_value r \<longleftrightarrow> r = [] \<or> hd r \<in> {CHR '','', CHR '']'', CHR ''}''}"

definition literal_ok :: "string \<Rightarrow> bool" where
  "literal_ok l \<longleftrightarrow> (\<forall>t. scan_string (l @ quote # t) = Some (l, t))"

definition number_ok :: "string \<Rightarrow> bool" where
  "number_ok l \<longleftrightarrow> l \<noteq> [] \<and> hd l \<notin> {quote, CHR '']'', CHR ''['', CHR ''{'', CHR ''n'', CHR ''t'', CHR ''f''} \<and> \<not> json_space (hd l) \<and>
     (\<forall>r. after_value r \<longrightarrow> scan_number (l @ r) = Some (l, r))"

text \<open>Values whose text can be read back below \<open>d\<close> open arrays and objects.\<close>

fun json_ok :: "nat \<Rightarrow> json \<Rightarrow> bool" where
  "json_ok d JNull = True"
| "json_ok d (JBool b) = True"
| "json_ok d (JNumber l) = number_ok l"
| "json_ok d (JString l) = literal_ok l"
| "json_ok d (JArray vs) = (d < maxNestingDepth \<and> list_all (json_ok (Suc d)) vs)"
| "json_ok d (JObject ms) = (d < maxNestingDepth \<and> list_all (\<lambda>(k, v). literal_ok k \<and> json_ok (Suc d) v) ms)"

lemma json_chars [simp]:
  "\<not> json_space quote" "quote \<noteq> CHR ''['' \<and> quote \<noteq> CHR ''{'' \<and> quote \<noteq> CHR '']'' \<and> quote \<noteq> CHR ''}'' \<and> quote \<noteq> CHR '':''"
  "CHR ''['' \<noteq> quote \<and> CHR ''{'' \<noteq> quote \<and> CHR '']'' \<noteq> quote \<and> CHR ''}'' \<noteq> quote \<and> CHR '':'' \<noteq> quote"
  "CHR ''n'' \<noteq> quote \<and> CHR ''t'' \<noteq> quote \<and> CHR ''f'' \<noteq> quote"
  by (simp_all add: json_space_def) (simp_all add: quote_def)

lemma json_text_hd:
  assumes "json_ok d v"
  shows "json_text v \<noteq> [] \<and> \<not> json_space (hd (json_text v)) \<and> hd (json_text v) \<noteq> CHR '']''"
proof (cases v)
  case (JNumber l)
  then show ?thesis
    using assms by (simp add: number_ok_def)
qed (simp_all add: json_space_def)

lemma skip_ws_text:
  assumes "json_ok d v"
  shows "skip_ws (json_text v @ r) = json_text v @ r" "\<not> HasPrefix (json_text v @ r) '']''"
  using json_text_hd [OF assms] by (cases "json_text v"; simp add: skip_ws_def HasPrefix_def)+

lemma skip_ws_plain: "\<not> json_space c \<Longrightarrow> skip_ws (c # s) = c # s"
  by (simp add: skip_ws_def)

lemma skip_ws_after: "after_value r \<Longrightarrow> skip_ws r = r"
  by (cases r) (auto simp: after_value_def skip_ws_def json_space_def)

lemma Join_text: "Join (w # ws) '','' @ u = w @ (if ws = [] then u else CHR '','' # Join ws '','' @ u)"
  by (cases ws) simp_all

abbreviation member_text :: "string \<times> json \<Rightarrow> string" where
  "member_text \<equiv> \<lambda>(k, v). quote # k @ quote # CHR '':'' # json_text v"

definition prints :: "nat \<Rightarrow> bool" where
  "prints n \<longleftrightarrow>
     (\<forall>d v r. json_ok d v \<and> after_value r \<and> 2 * length (json_text v @ r) < n \<longrightarrow>
        scan_value n d (json_text v @ r) = Some (v, r)) \<and>
     (\<forall>d vs r. list_all (json_ok d) vs \<and> vs \<noteq> [] \<and> Suc (2 * length (Join (map json_text vs) '','' @ CHR '']'' # r)) < n \<longrightarrow>
        scan_values n d (Join (map json_text vs) '','' @ CHR '']'' # r) = Some (vs, r)) \<and>
     (\<forall>d ms r. list_all (\<lambda>(k, v). literal_ok k \<and> json_ok d v) ms \<and> ms \<noteq> [] \<and>
        2 * length (Join (map member_text ms) '','' @ CHR ''}'' # r) < n \<longrightarrow>
        scan_members n d (Join (map member_text ms) '','' @ CHR ''}'' # r) = Some (ms, r))"

lemma printsD:
  assumes "prints n"
  shows "json_ok d v \<Longrightarrow> after_value r \<Longrightarrow> 2 * length (json_text v @ r) < n \<Longrightarrow>
      scan_value n d (json_text v @ r) = Some (v, r)"
    "list_all (json_ok d) vs \<Longrightarrow> vs \<noteq> [] \<Longrightarrow> Suc (2 * length (Join (map json_text vs) '','' @ CHR '']'' # r)) < n \<Longrightarrow>
      scan_values n d (Join (map json_text vs) '','' @ CHR '']'' # r) = Some (vs, r)"
    "list_all (\<lambda>(k, v). literal_ok k \<and> json_ok d v) ms \<Longrightarrow> ms \<noteq> [] \<Longrightarrow>
      2 * length (Join (map member_text ms) '','' @ CHR ''}'' # r) < n \<Longrightarrow>
      scan_members n d (Join (map member_text ms) '','' @ CHR ''}'' # r) = Some (ms, r)"
  using assms unfolding prints_def by blast+

lemma prints_values:
  assumes "prints n" "list_all (json_ok d) (v # vs)"
    "Suc (2 * length (Join (map json_text (v # vs)) '','' @ CHR '']'' # r)) < Suc n"
  shows "scan_values (Suc n) d (Join (map json_text (v # vs)) '','' @ CHR '']'' # r) = Some (v # vs, r)"
proof -
  let ?rest = "if vs = [] then CHR '']'' # r else CHR '','' # Join (map json_text vs) '','' @ CHR '']'' # r"
  have shape: "Join (map json_text (v # vs)) '','' @ CHR '']'' # r = json_text v @ ?rest"
    by (simp add: Join_text del: Join.simps)
  have "after_value ?rest"
    by (simp add: after_value_def)
  moreover have "2 * length (json_text v @ ?rest) < n"
    using assms(3) unfolding shape by simp
  ultimately have "scan_value n d (json_text v @ ?rest) = Some (v, ?rest)"
    using assms(1,2) unfolding prints_def by (simp del: scan_value.simps)
  moreover have "scan_values n d (Join (map json_text vs) '','' @ CHR '']'' # r) = Some (vs, r)" if "vs \<noteq> []"
    using assms(1,2,3) that unfolding prints_def shape by (simp del: scan_values.simps)
  ultimately show ?thesis
    unfolding shape scan_values.simps(2) by (simp add: skip_ws_plain json_space_def del: scan_value.simps scan_values.simps)
qed

lemma prints_members:
  assumes "prints n" "list_all (\<lambda>(k, v). literal_ok k \<and> json_ok d v) ((k, v) # ms)"
    "2 * length (Join (map member_text ((k, v) # ms)) '','' @ CHR ''}'' # r) < Suc n"
  shows "scan_members (Suc n) d (Join (map member_text ((k, v) # ms)) '','' @ CHR ''}'' # r) = Some ((k, v) # ms, r)"
proof -
  let ?rest = "if ms = [] then CHR ''}'' # r else CHR '','' # Join (map member_text ms) '','' @ CHR ''}'' # r"
  have shape: "Join (map member_text ((k, v) # ms)) '','' @ CHR ''}'' # r = quote # k @ quote # CHR '':'' # json_text v @ ?rest"
    by (simp add: Join_text del: Join.simps)
  have k: "scan_string (k @ quote # CHR '':'' # json_text v @ ?rest) = Some (k, CHR '':'' # json_text v @ ?rest)"
    using assms(2) by (simp add: literal_ok_def)
  have "after_value ?rest"
    by (simp add: after_value_def)
  moreover have "2 * length (json_text v @ ?rest) < n"
    using assms(3) unfolding shape by simp
  ultimately have "scan_value n d (json_text v @ ?rest) = Some (v, ?rest)"
    using assms(1,2) unfolding prints_def by (simp del: scan_value.simps)
  moreover have "scan_members n d (Join (map member_text ms) '','' @ CHR ''}'' # r) = Some (ms, r)" if "ms \<noteq> []"
    using assms(1,2,3) that unfolding prints_def shape by (simp del: scan_members.simps)
  ultimately show ?thesis
    unfolding shape scan_members.simps(2)
    by (simp add: k skip_ws_plain json_space_def HasPrefix_def del: scan_value.simps scan_members.simps)
qed

lemma prints_value:
  assumes "prints n" "json_ok d v" "after_value r" "2 * length (json_text v @ r) < Suc n"
  shows "scan_value (Suc n) d (json_text v @ r) = Some (v, r)"
proof (cases v)
  case (JNumber l)
  then obtain c t where l: "l = c # t" "\<not> json_space c" "c \<notin> {quote, CHR ''['', CHR ''{'', CHR ''n'', CHR ''t'', CHR ''f''}"
    using assms(2) by (cases l) (auto simp: number_ok_def)
  have "scan_number (c # t @ r) = Some (l, r)"
    using assms(2,3) JNumber l(1) by (simp add: number_ok_def)
  then show ?thesis
    using l by (simp add: JNumber skip_ws_plain)
next
  case (JString l)
  then show ?thesis
    using assms(2) by (simp add: skip_ws_plain literal_ok_def)
next
  case (JArray vs)
  show ?thesis
  proof (cases vs)
    case (Cons x xs)
    let ?t = "Join (map json_text vs) '','' @ CHR '']'' # r"
    have ok: "json_ok (Suc d) x" "list_all (json_ok (Suc d)) vs" "d < maxNestingDepth"
      using assms(2) JArray Cons by simp_all
    have "Suc (2 * length ?t) < n"
      using assms(4) JArray by simp
    then have "scan_values n (Suc d) ?t = Some (vs, r)"
      using Cons by (intro printsD(2) [OF assms(1) ok(2)]) simp_all
    moreover have "\<not> HasPrefix (skip_ws ?t) '']''"
      using skip_ws_text [OF ok(1)] by (simp add: Cons Join_text del: Join.simps)
    ultimately show ?thesis
      using ok(3) by (simp add: JArray skip_ws_plain json_space_def del: scan_values.simps Join.simps)
  qed (use assms(2) JArray in \<open>simp add: skip_ws_plain json_space_def HasPrefix_def\<close>)
next
  case (JObject ms)
  show ?thesis
  proof (cases ms)
    case (Cons m ms')
    let ?t = "Join (map member_text ms) '','' @ CHR ''}'' # r"
    have ok: "list_all (\<lambda>(k, v). literal_ok k \<and> json_ok (Suc d) v) ms" "d < maxNestingDepth"
      using assms(2) JObject by simp_all
    have "2 * length ?t < n"
      using assms(4) JObject by simp
    then have "scan_members n (Suc d) ?t = Some (ms, r)"
      using Cons by (intro printsD(3) [OF assms(1) ok(1)]) simp_all
    moreover have "\<not> HasPrefix (skip_ws ?t) ''}''"
      by (cases m) (simp add: Cons Join_text skip_ws_plain HasPrefix_def del: Join.simps)
    ultimately show ?thesis
      using ok(2) by (simp add: JObject skip_ws_plain json_space_def del: scan_members.simps Join.simps)
  qed (use assms(2) JObject in \<open>simp add: skip_ws_plain json_space_def HasPrefix_def\<close>)
qed (simp_all add: skip_ws_plain json_space_def scan_literal_def HasPrefix_def)

lemma prints_all: "prints n"
proof (induction n)
  case (Suc n)
  show ?case
    unfolding prints_def [of "Suc n"]
  proof (intro conjI allI impI; elim conjE)
    fix d vs r
    assume "list_all (json_ok d) vs" "vs \<noteq> []" "Suc (2 * length (Join (map json_text vs) '','' @ CHR '']'' # r)) < Suc n"
    then show "scan_values (Suc n) d (Join (map json_text vs) '','' @ CHR '']'' # r) = Some (vs, r)"
      using prints_values [OF Suc] by (cases vs) blast+
  next
    fix d ms r
    assume "list_all (\<lambda>(k, v). literal_ok k \<and> json_ok d v) ms" "ms \<noteq> []"
      "2 * length (Join (map member_text ms) '','' @ CHR ''}'' # r) < Suc n"
    then show "scan_members (Suc n) d (Join (map member_text ms) '','' @ CHR ''}'' # r) = Some (ms, r)"
      using prints_members [OF Suc] by (cases ms) (blast, metis surj_pair)
  qed (rule prints_value [OF Suc])
qed (simp add: prints_def)

lemma json_scan_text: "json_ok 0 v \<Longrightarrow> json_scan (json_text v) = Some v"
  using printsD(1) [OF prints_all, of 0 v "[]" "Suc (2 * length (json_text v))"]
  unfolding json_scan_def by (simp add: after_value_def skip_ws_def del: scan_value.simps)

end
