(* ===== verification/Go_Time.thy ===== *)
theory Go_Time
  imports Go_Strings Go_Float
begin

text \<open>
  What the program uses of \<open>time.Parse\<close> and \<open>time.Date\<close>: the layouts \<open>RFC3339\<close>, \<open>RFC3339Nano\<close> and the
  two layouts of BSD syslog, as sequences of the elements into which Go splits a layout, and civil
  dates as nanoseconds since the Unix epoch.  A value that cannot be parsed is \<open>None\<close>.
\<close>

section \<open>Civil dates\<close>

definition leap_year :: "nat \<Rightarrow> bool" where
  "leap_year y \<longleftrightarrow> 4 dvd y \<and> (\<not> 100 dvd y \<or> 400 dvd y)"

definition days_in :: "nat \<Rightarrow> nat \<Rightarrow> nat" where
  "days_in month year = (if month = 2 then (if leap_year year then 29 else 28)
     else if month \<in> {4, 6, 9, 11} then 30 else 31)"

definition days_before_month :: "nat \<Rightarrow> nat \<Rightarrow> nat" where
  "days_before_month month year = (\<Sum>m \<leftarrow> [1..<month]. days_in m year)"

text \<open>Days since 1 January 1970; a day past the end of its month runs into the next one.\<close>

definition civil_days :: "nat \<Rightarrow> nat \<Rightarrow> nat \<Rightarrow> int" where
  "civil_days year month day =
     (let y = int year - 1
      in 365 * y + y div 4 - y div 100 + y div 400 + int (days_before_month month year) + int day - 719163)"

record time_parts =
  tp_year :: nat
  tp_month :: nat
  tp_day :: nat
  tp_hour :: nat
  tp_min :: nat
  tp_sec :: nat
  tp_nsec :: nat
  tp_offset :: int

definition no_parts :: time_parts where
  "no_parts = \<lparr>tp_year = 0, tp_month = 1, tp_day = 1, tp_hour = 0, tp_min = 0, tp_sec = 0, tp_nsec = 0, tp_offset = 0\<rparr>"

text \<open>The instant; the offset of the zone is in seconds.\<close>

definition time_of :: "time_parts \<Rightarrow> go_time" where
  "time_of p = (((civil_days (tp_year p) (tp_month p) (tp_day p) * 24 + int (tp_hour p)) * 60 + int (tp_min p)) * 60
     + int (tp_sec p) - tp_offset p) * Second + int (tp_nsec p)"

text \<open>\<open>t.AddDate(-1, 0, 0)\<close> for a time in UTC.\<close>

definition year_before :: "time_parts \<Rightarrow> time_parts" where
  "year_before p = p\<lparr>tp_year := tp_year p - 1\<rparr>"

section \<open>Elements of a layout\<close>

datatype time_std =
    StdLongYear
  | StdMonth
  | StdZeroMonth
  | StdDay
  | StdUnderDay
  | StdZeroDay
  | StdHour
  | StdZeroMinute
  | StdZeroSecond
  | StdFracSecond9
  | StdISO8601ColonTZ

type_synonym time_layout = "(string \<times> time_std) list"

definition RFC3339 :: time_layout where
  "RFC3339 = [([], StdLongYear), (''-'', StdZeroMonth), (''-'', StdZeroDay), (''T'', StdHour),
     ('':'', StdZeroMinute), ('':'', StdZeroSecond), ([], StdISO8601ColonTZ)]"

definition RFC3339Nano :: time_layout where
  "RFC3339Nano = [([], StdLongYear), (''-'', StdZeroMonth), (''-'', StdZeroDay), (''T'', StdHour),
     ('':'', StdZeroMinute), ('':'', StdZeroSecond), ([], StdFracSecond9), ([], StdISO8601ColonTZ)]"

text \<open>\<open>"2006 Jan 2 15:04:05"\<close>, and the same with \<open>_2\<close>.\<close>

definition bsd_layout :: "time_std \<Rightarrow> time_layout" where
  "bsd_layout day = [([], StdLongYear), ('' '', StdMonth), ('' '', day), ('' '', StdHour),
     ('':'', StdZeroMinute), ('':'', StdZeroSecond)]"

definition is_digit :: "char \<Rightarrow> bool" where
  "is_digit c \<longleftrightarrow> 48 \<le> byte c \<and> byte c \<le> 57"

definition digit_val :: "char \<Rightarrow> nat" where
  "digit_val c = byte c - 48"

definition digits_val :: "string \<Rightarrow> nat" where
  "digits_val s = foldl (\<lambda>n c. 10 * n + digit_val c) 0 s"

text \<open>One or two digits, or exactly two.\<close>

fun getnum :: "bool \<Rightarrow> string \<Rightarrow> (nat \<times> string) option" where
  "getnum fixed (c # d # s) =
     (if \<not> is_digit c then None
      else if is_digit d then Some (10 * digit_val c + digit_val d, s)
      else if fixed then None else Some (digit_val c, d # s))"
| "getnum fixed [c] = (if is_digit c \<and> \<not> fixed then Some (digit_val c, []) else None)"
| "getnum fixed [] = None"

text \<open>The literal text before an element: a blank stands for any number of blanks.\<close>

function time_skip :: "string \<Rightarrow> string \<Rightarrow> string option" where
  "time_skip value [] = Some value"
| "time_skip value (p # ps) =
     (if p = CHR '' '' then
        (if value \<noteq> [] \<and> hd value \<noteq> CHR '' '' then None
         else time_skip (dropWhile (\<lambda>c. c = CHR '' '') value) (dropWhile (\<lambda>c. c = CHR '' '') ps))
      else case value of [] \<Rightarrow> None | v # vs \<Rightarrow> if v = p then time_skip vs ps else None)"
  by pat_completeness auto

termination
  by (relation "measure (\<lambda>(value, prefix). length prefix)") (auto simp: le_imp_less_Suc length_dropWhile_le)

definition short_months :: "string list" where
  "short_months = [''Jan'', ''Feb'', ''Mar'', ''Apr'', ''May'', ''Jun'', ''Jul'', ''Aug'', ''Sep'', ''Oct'', ''Nov'', ''Dec'']"

text \<open>The index of the month whose name begins the value, without regard to case.\<close>

fun month_lookup :: "nat \<Rightarrow> string list \<Rightarrow> string \<Rightarrow> (nat \<times> string) option" where
  "month_lookup i [] value = None"
| "month_lookup i (m # ms) value =
     (if length m \<le> length value \<and> map lower_byte (take (length m) value) = map lower_byte m
      then Some (i, drop (length m) value) else month_lookup (Suc i) ms value)"

definition fraction_at :: "string \<Rightarrow> bool" where
  "fraction_at value \<longleftrightarrow> length value \<ge> 2 \<and> (value ! 0 = CHR ''.'' \<or> value ! 0 = CHR '','') \<and> is_digit (value ! 1)"

text \<open>At most nine digits count.\<close>

definition nanoseconds :: "string \<Rightarrow> nat" where
  "nanoseconds ds = (let ds = take 9 ds in digits_val ds * 10 ^ (9 - length ds))"

definition skip_fraction :: "string \<Rightarrow> time_parts \<Rightarrow> (time_parts \<times> string) option" where
  "skip_fraction value p =
     (if \<not> fraction_at value then Some (p, value)
      else Some (p\<lparr>tp_nsec := nanoseconds (takeWhile is_digit (tl value))\<rparr>, dropWhile is_digit (tl value)))"

definition in_range :: "nat \<Rightarrow> nat \<Rightarrow> (nat \<times> string) option \<Rightarrow> (nat \<times> string) option" where
  "in_range lo hi r = (case r of None \<Rightarrow> None | Some (n, s) \<Rightarrow> if lo \<le> n \<and> n \<le> hi then Some (n, s) else None)"

definition parse_zone :: "string \<Rightarrow> (int \<times> string) option" where
  "parse_zone value =
     (if length value \<ge> 1 \<and> value ! 0 = CHR ''Z'' then Some (0, tl value)
      else if length value < 6 \<or> value ! 3 \<noteq> CHR '':'' then None
      else case (in_range 0 24 (getnum True (take 2 (drop 1 value))), in_range 0 60 (getnum True (take 2 (drop 4 value)))) of
          (Some (hr, _), Some (mm, _)) \<Rightarrow>
            let offset = int ((hr * 60 + mm) * 60)
            in if value ! 0 = CHR ''+'' then Some (offset, drop 6 value)
               else if value ! 0 = CHR ''-'' then Some (- offset, drop 6 value) else None
        | _ \<Rightarrow> None)"

text \<open>\<open>next\<close> is the element after this one: a fraction after the seconds is read even if the layout has none.\<close>

fun parse_std :: "time_std \<Rightarrow> time_std option \<Rightarrow> string \<Rightarrow> time_parts \<Rightarrow> (time_parts \<times> string) option" where
  "parse_std StdLongYear nxt value p =
     (if length value < 4 \<or> \<not> list_all is_digit (take 4 value) then None
      else Some (p\<lparr>tp_year := digits_val (take 4 value)\<rparr>, drop 4 value))"
| "parse_std StdMonth nxt value p =
     map_option (\<lambda>(n, s). (p\<lparr>tp_month := n\<rparr>, s)) (month_lookup 1 short_months value)"
| "parse_std StdZeroMonth nxt value p =
     map_option (\<lambda>(n, s). (p\<lparr>tp_month := n\<rparr>, s)) (in_range 1 12 (getnum True value))"
| "parse_std StdDay nxt value p = map_option (\<lambda>(n, s). (p\<lparr>tp_day := n\<rparr>, s)) (getnum False value)"
| "parse_std StdUnderDay nxt value p =
     map_option (\<lambda>(n, s). (p\<lparr>tp_day := n\<rparr>, s))
       (getnum False (if value \<noteq> [] \<and> hd value = CHR '' '' then tl value else value))"
| "parse_std StdZeroDay nxt value p = map_option (\<lambda>(n, s). (p\<lparr>tp_day := n\<rparr>, s)) (getnum True value)"
| "parse_std StdHour nxt value p =
     map_option (\<lambda>(n, s). (p\<lparr>tp_hour := n\<rparr>, s)) (in_range 0 23 (getnum False value))"
| "parse_std StdZeroMinute nxt value p =
     map_option (\<lambda>(n, s). (p\<lparr>tp_min := n\<rparr>, s)) (in_range 0 59 (getnum True value))"
| "parse_std StdZeroSecond nxt value p =
     (case in_range 0 59 (getnum True value) of
        None \<Rightarrow> None
      | Some (n, s) \<Rightarrow>
          if nxt = Some StdFracSecond9 then Some (p\<lparr>tp_sec := n\<rparr>, s) else skip_fraction s (p\<lparr>tp_sec := n\<rparr>))"
| "parse_std StdFracSecond9 nxt value p = skip_fraction value p"
| "parse_std StdISO8601ColonTZ nxt value p = map_option (\<lambda>(z, s). (p\<lparr>tp_offset := z\<rparr>, s)) (parse_zone value)"

fun parse_layout :: "time_layout \<Rightarrow> string \<Rightarrow> time_parts \<Rightarrow> time_parts option" where
  "parse_layout [] value p = (if value = [] then Some p else None)"
| "parse_layout ((prefix, std) # layout) value p =
     (case time_skip value prefix of
        None \<Rightarrow> None
      | Some value \<Rightarrow> (case parse_std std (case layout of [] \<Rightarrow> None | (_, s) # _ \<Rightarrow> Some s) value p of
          None \<Rightarrow> None
        | Some (p, value) \<Rightarrow> parse_layout layout value p))"

definition time_Parse :: "time_layout \<Rightarrow> string \<Rightarrow> time_parts option" where
  "time_Parse layout value = (case parse_layout layout value no_parts of
     None \<Rightarrow> None
   | Some p \<Rightarrow> if 1 \<le> tp_day p \<and> tp_day p \<le> days_in (tp_month p) (tp_year p) then Some p else None)"

section \<open>Lemmas: layouts that accept the same values\<close>

definition next_std :: "time_layout \<Rightarrow> time_std option" where
  "next_std layout = (case layout of [] \<Rightarrow> None | (_, s) # _ \<Rightarrow> Some s)"

lemma parse_layout_Cons:
  "parse_layout ((prefix, std) # layout) value p =
    Option.bind (time_skip value prefix) (\<lambda>v. Option.bind (parse_std std (next_std layout) v p)
      (\<lambda>(p, v). parse_layout layout v p))"
  by (simp add: next_std_def split: option.split Option.bind_split)

declare parse_layout.simps(2) [simp del]

lemma time_skip_Nil: "time_skip w [] = Some w"
  by simp

lemma time_skip_blank:
  "time_skip w '' '' = (if w \<noteq> [] \<and> hd w \<noteq> CHR '' '' then None else Some (dropWhile (\<lambda>c. c = CHR '' '') w))"
  by simp

lemma time_skip_char:
  "p \<noteq> CHR '' '' \<Longrightarrow> time_skip w [p] = (case w of [] \<Rightarrow> None | v # vs \<Rightarrow> if v = p then Some vs else None)"
  by (simp split: list.split)

declare time_skip.simps [simp del] time_skip_Nil [simp]

text \<open>Only the seconds look at the element after them.\<close>

lemma parse_std_next: "std \<noteq> StdZeroSecond \<Longrightarrow> parse_std std nxt v p = parse_std std nxt' v p"
  by (cases std) simp_all

lemma parse_layout_suffix:
  assumes "\<And>v p. parse_layout l v p = parse_layout l' v p"
    and "next_std l = next_std l' \<or> es \<noteq> [] \<and> snd (last es) \<noteq> StdZeroSecond"
  shows "parse_layout (es @ l) v p = parse_layout (es @ l') v p"
  using assms(2)
proof (induction es arbitrary: v p)
  case (Cons e es)
  obtain prefix std where e: "e = (prefix, std)" by (cases e)
  have "parse_std std (next_std (es @ l)) w q = parse_std std (next_std (es @ l')) w q" for w q
    using Cons.prems parse_std_next [of std] by (cases es) (auto simp: e next_std_def)
  moreover have "parse_layout (es @ l) w q = parse_layout (es @ l') w q" for w q
    using Cons assms(1) by (cases es) auto
  ultimately show ?case by (simp add: e parse_layout_Cons)
qed (simp add: assms(1))

text \<open>A fraction of a second is accepted with either layout.\<close>

lemma RFC3339Nano_same: "time_Parse RFC3339Nano value = time_Parse RFC3339 value"
proof -
  have "parse_layout [('':'', StdZeroSecond), ([], StdFracSecond9), ([], StdISO8601ColonTZ)] v p =
      parse_layout [('':'', StdZeroSecond), ([], StdISO8601ColonTZ)] v p" for v p
    by (cases "time_skip v '':''"; cases "in_range 0 59 (getnum True (the (time_skip v '':'')))")
      (auto simp: parse_layout_Cons next_std_def simp del: parse_std.simps(11))
  from parse_layout_suffix [OF this, where es = "[([], StdLongYear), (''-'', StdZeroMonth), (''-'', StdZeroDay), (''T'', StdHour),
      ('':'', StdZeroMinute)]"]
  have "parse_layout RFC3339Nano value p = parse_layout RFC3339 value p" for p
    by (simp add: RFC3339Nano_def RFC3339_def next_std_def)
  then show ?thesis by (simp add: time_Parse_def)
qed

text \<open>After the blank before the day there is no other blank.\<close>

lemma bsd_layouts_same: "time_Parse (bsd_layout StdUnderDay) value = time_Parse (bsd_layout StdDay) value"
proof -
  have "v = [] \<or> hd v \<noteq> CHR '' ''" if "time_skip w '' '' = Some v" for w v
    using that hd_dropWhile [of "\<lambda>c. c = CHR '' ''" w] by (metis option.distinct(1) option.inject time_skip_blank)
  then have day: "Option.bind (time_skip w '' '') (\<lambda>v. Option.bind (parse_std StdUnderDay nxt v p) f) =
      Option.bind (time_skip w '' '') (\<lambda>v. Option.bind (parse_std StdDay nxt v p) f)"
    for nxt f w p
    by (cases "time_skip w '' ''") auto
  have "parse_layout (('' '', StdUnderDay) # [('' '', StdHour), ('':'', StdZeroMinute), ('':'', StdZeroSecond)]) v p =
      parse_layout (('' '', StdDay) # [('' '', StdHour), ('':'', StdZeroMinute), ('':'', StdZeroSecond)]) v p" for v p
    unfolding parse_layout_Cons by (rule day)
  from parse_layout_suffix [OF this, where es = "[([], StdLongYear), ('' '', StdMonth)]"]
  have "parse_layout (bsd_layout StdUnderDay) value p = parse_layout (bsd_layout StdDay) value p" for p
    by (simp add: bsd_layout_def)
  then show ?thesis by (simp add: time_Parse_def)
qed

section \<open>Lemmas: printed times\<close>

definition digit :: "nat \<Rightarrow> char" where
  "digit n = char_of (48 + n mod 10)"

definition two :: "nat \<Rightarrow> string" where
  "two n = [digit (n div 10), digit n]"

definition four :: "nat \<Rightarrow> string" where
  "four n = [digit (n div 1000), digit (n div 100), digit (n div 10), digit n]"

lemma digit_simps [simp]: "is_digit (digit n)" "digit_val (digit n) = n mod 10"
  by (simp_all add: digit_def is_digit_def digit_val_def byte_char_of)

lemma getnum_two: "n < 100 \<Longrightarrow> getnum fixed (two n @ s) = Some (n, s)"
  by (simp add: two_def)

lemma digits_val_four: "n < 10000 \<Longrightarrow> digits_val (four n) = n"
proof -
  assume "n < 10000"
  then have "n div 1000 < 10" by simp
  moreover have "n div 100 = n div 10 div 10" "n div 1000 = n div 10 div 10 div 10"
    by (simp_all add: div_mult2_eq [symmetric])
  ultimately show ?thesis
    using div_mult_mod_eq [of n 10] div_mult_mod_eq [of "n div 10" 10] div_mult_mod_eq [of "n div 10 div 10" 10]
    by (simp add: digits_val_def four_def)
qed

lemma four_is_digit: "list_all is_digit (four n)"
  by (simp add: four_def)

lemma length_two_four [simp]: "length (two n) = 2" "length (four n) = 4"
  by (simp_all add: two_def four_def)

text \<open>The offset of a zone as \<open>Z\<close> or in hours and minutes.\<close>

datatype zone_text = UTC_zone | East nat nat | West nat nat

fun render_zone :: "zone_text \<Rightarrow> string" where
  "render_zone UTC_zone = ''Z''"
| "render_zone (East h m) = ''+'' @ two h @ '':'' @ two m"
| "render_zone (West h m) = ''-'' @ two h @ '':'' @ two m"

fun zone_offset :: "zone_text \<Rightarrow> int" where
  "zone_offset UTC_zone = 0"
| "zone_offset (East h m) = int ((h * 60 + m) * 60)"
| "zone_offset (West h m) = - int ((h * 60 + m) * 60)"

fun zone_ok :: "zone_text \<Rightarrow> bool" where
  "zone_ok UTC_zone = True"
| "zone_ok (East h m) = (h < 24 \<and> m < 60)"
| "zone_ok (West h m) = (h < 24 \<and> m < 60)"

definition parts_ok :: "time_parts \<Rightarrow> bool" where
  "parts_ok p \<longleftrightarrow> tp_year p < 10000 \<and> 1 \<le> tp_month p \<and> tp_month p \<le> 12 \<and> 1 \<le> tp_day p \<and>
     tp_day p \<le> days_in (tp_month p) (tp_year p) \<and> tp_hour p < 24 \<and> tp_min p < 60 \<and> tp_sec p < 60"

definition render_clock :: "time_parts \<Rightarrow> string" where
  "render_clock p = two (tp_hour p) @ '':'' @ two (tp_min p) @ '':'' @ two (tp_sec p)"

text \<open>\<open>ds\<close> are the digits after the seconds, if there are any.\<close>

definition render_rfc3339 :: "time_parts \<Rightarrow> string \<Rightarrow> zone_text \<Rightarrow> string" where
  "render_rfc3339 p ds z = four (tp_year p) @ ''-'' @ two (tp_month p) @ ''-'' @ two (tp_day p) @ ''T'' @
     render_clock p @ (if ds = [] then [] else ''.'' @ ds) @ render_zone z"

lemma days_in_le: "days_in m y \<le> 31"
  by (simp add: days_in_def)

lemma parse_zone_sign:
  assumes "h < 24" "m < 60" "sign \<noteq> CHR ''Z''"
  shows "parse_zone (sign # two h @ '':'' @ two m) =
    (if sign = CHR ''+'' then Some (int ((h * 60 + m) * 60), [])
     else if sign = CHR ''-'' then Some (- int ((h * 60 + m) * 60), []) else None)"
proof -
  let ?v = "sign # two h @ '':'' @ two m"
  have "take 2 (drop 1 ?v) = two h" "take 2 (drop 4 ?v) = two m" "?v ! 3 = CHR '':''" "drop 6 ?v = []" "length ?v = 6"
    by (simp_all add: two_def)
  moreover have "getnum True (two h) = Some (h, [])" "getnum True (two m) = Some (m, [])"
    using getnum_two [of h True "[]"] getnum_two [of m True "[]"] assms(1,2) by simp_all
  ultimately show ?thesis using assms by (simp add: parse_zone_def in_range_def del: of_nat_mult of_nat_add)
qed

lemma parse_zone_render: "zone_ok z \<Longrightarrow> parse_zone (render_zone z) = Some (zone_offset z, [])"
  using parse_zone_sign [of _ _ "CHR ''+''"] parse_zone_sign [of _ _ "CHR ''-''"]
  by (cases z) (auto simp: parse_zone_def [of "''Z''"])

lemma skip_fraction_render:
  assumes "list_all is_digit ds"
  shows "skip_fraction ((if ds = [] then [] else ''.'' @ ds) @ render_zone z) p =
    Some (if ds = [] then p else p\<lparr>tp_nsec := nanoseconds ds\<rparr>, render_zone z)"
proof -
  obtain c cs where z: "render_zone z = c # cs" "\<not> is_digit c" "c \<noteq> CHR ''.''" "c \<noteq> CHR '',''"
    by (cases z) (auto simp: is_digit_def)
  have "takeWhile is_digit (ds @ c # cs) = ds" "dropWhile is_digit (ds @ c # cs) = c # cs"
    using assms z(2) by (induction ds) auto
  then show ?thesis using assms z by (cases ds) (auto simp: skip_fraction_def fraction_at_def)
qed

lemma parse_year: "n < 10000 \<Longrightarrow> parse_std StdLongYear nxt (four n @ s) p = Some (p\<lparr>tp_year := n\<rparr>, s)"
  using four_is_digit [of n] digits_val_four [of n] by simp

text \<open>One element, and the hours, minutes and seconds.\<close>

lemma parse_element:
  assumes "p \<noteq> CHR '' ''" "parse_std std (next_std layout) w q = Some (q', w')"
  shows "parse_layout (([p], std) # layout) (p # w) q = parse_layout layout w' q'"
  using assms by (simp add: parse_layout_Cons time_skip_char)

lemma parse_first_element:
  assumes "parse_std std (next_std layout) w q = Some (q', w')"
  shows "parse_layout (([], std) # layout) w q = parse_layout layout w' q'"
  using assms by (simp add: parse_layout_Cons)

lemma parse_blank_element:
  assumes "w \<noteq> []" "hd w \<noteq> CHR '' ''" "parse_std std (next_std layout) w q = Some (q', w')"
  shows "parse_layout (('' '', std) # layout) (CHR '' '' # w) q = parse_layout layout w' q'"
  using assms by (cases w) (simp_all add: parse_layout_Cons time_skip_blank)

lemma digit_not_blank [simp]: "digit n \<noteq> CHR '' ''"
  using digit_simps(1) [of n] by (auto simp: is_digit_def)

lemma parse_minutes_seconds:
  assumes "parts_ok t" "skip_fraction s (q\<lparr>tp_min := tp_min t, tp_sec := tp_sec t\<rparr>) = Some (q', s')"
    "next_std layout \<noteq> Some StdFracSecond9"
  shows "parse_layout (('':'', StdZeroMinute) # ('':'', StdZeroSecond) # layout)
      (CHR '':'' # two (tp_min t) @ CHR '':'' # two (tp_sec t) @ s) q = parse_layout layout s' q'"
proof -
  have "tp_min t < 60" "tp_sec t < 60" using assms(1) by (simp_all add: parts_ok_def)
  then show ?thesis
    using assms(2,3) by (subst parse_element, simp, simp add: getnum_two in_range_def, simp)
      (subst parse_element, simp, simp add: getnum_two in_range_def, simp)
qed

lemma time_Parse_rfc3339:
  assumes "parts_ok p" "list_all is_digit ds" "zone_ok z"
    and "tp_nsec p = (if ds = [] then 0 else nanoseconds ds)" "tp_offset p = zone_offset z"
  shows "time_Parse RFC3339 (render_rfc3339 p ds z) = Some p"
proof -
  have p: "tp_year p < 10000" "1 \<le> tp_month p" "tp_month p \<le> 12" "tp_hour p < 24" "tp_day p < 100"
    "1 \<le> tp_day p" "tp_day p \<le> days_in (tp_month p) (tp_year p)"
    using assms(1) days_in_le [of "tp_month p" "tp_year p"] by (auto simp: parts_ok_def)
  let ?f = "(if ds = [] then [] else ''.'' @ ds) @ render_zone z"
  have shape: "render_rfc3339 p ds z = four (tp_year p) @ CHR ''-'' # two (tp_month p) @ CHR ''-'' # two (tp_day p) @
      CHR ''T'' # two (tp_hour p) @ CHR '':'' # two (tp_min p) @ CHR '':'' # two (tp_sec p) @ ?f"
    by (simp add: render_rfc3339_def render_clock_def)
  let ?tail = "CHR '':'' # two (tp_min p) @ CHR '':'' # two (tp_sec p) @ ?f"
  let ?layout = "[('':'', StdZeroMinute), ('':'', StdZeroSecond), ([], StdISO8601ColonTZ)]"
  have "parse_layout RFC3339 (render_rfc3339 p ds z) no_parts =
      parse_layout ((''-'', StdZeroMonth) # (''-'', StdZeroDay) # (''T'', StdHour) # ?layout)
        (CHR ''-'' # two (tp_month p) @ CHR ''-'' # two (tp_day p) @ CHR ''T'' # two (tp_hour p) @ ?tail)
        (no_parts\<lparr>tp_year := tp_year p\<rparr>)"
    unfolding RFC3339_def shape by (rule parse_first_element [OF parse_year [OF p(1)]])
  also have "\<dots> = parse_layout ((''-'', StdZeroDay) # (''T'', StdHour) # ?layout)
      (CHR ''-'' # two (tp_day p) @ CHR ''T'' # two (tp_hour p) @ ?tail)
      (no_parts\<lparr>tp_year := tp_year p, tp_month := tp_month p\<rparr>)"
    using p(2,3) by (intro parse_element) (simp_all add: getnum_two in_range_def)
  also have "\<dots> = parse_layout ((''T'', StdHour) # ?layout) (CHR ''T'' # two (tp_hour p) @ ?tail)
      (no_parts\<lparr>tp_year := tp_year p, tp_month := tp_month p, tp_day := tp_day p\<rparr>)"
    using p(5) by (intro parse_element) (simp_all add: getnum_two)
  also have "\<dots> = parse_layout ?layout ?tail
      (no_parts\<lparr>tp_year := tp_year p, tp_month := tp_month p, tp_day := tp_day p, tp_hour := tp_hour p\<rparr>)"
    using p(4) by (intro parse_element) (simp_all add: getnum_two in_range_def)
  also have "\<dots> = parse_layout [([], StdISO8601ColonTZ)] (render_zone z) (p\<lparr>tp_offset := 0\<rparr>)"
    by (rule parse_minutes_seconds [OF assms(1)])
      (simp_all add: skip_fraction_render [OF assms(2)] next_std_def no_parts_def assms(4))
  also have "\<dots> = Some p"
    by (simp add: parse_layout_Cons parse_zone_render [OF assms(3)] assms(5) [symmetric])
  finally show ?thesis using p(6,7) by (simp add: time_Parse_def)
qed

text \<open>The layouts of BSD syslog: the name of the month, and the day with one or two digits.\<close>

definition render_day :: "nat \<Rightarrow> string" where
  "render_day d = (if d < 10 then [digit d] else two d)"

definition month_name :: "nat \<Rightarrow> string" where
  "month_name m = short_months ! (m - 1)"

lemma month_lookup_append:
  "\<forall>m \<in> set ms. length m = length n \<Longrightarrow>
    month_lookup i ms (n @ s) = map_option (\<lambda>(j, t). (j, t @ s)) (month_lookup i ms n)"
  by (induction ms arbitrary: i) auto

lemma month_names:
  "list_all (\<lambda>m. month_lookup 1 short_months (month_name m) = Some (m, []) \<and> length (month_name m) = 3 \<and>
    hd (month_name m) \<noteq> CHR '' '') [1..<13]" "list_all (\<lambda>m. length m = 3) short_months"
  by code_simp+

lemma month_lookup_name:
  assumes "1 \<le> m" "m \<le> 12"
  shows "month_lookup 1 short_months (month_name m @ s) = Some (m, s)"
    "month_name m @ s \<noteq> []" "hd (month_name m @ s) \<noteq> CHR '' ''"
proof -
  have "month_lookup 1 short_months (month_name m) = Some (m, [])" "length (month_name m) = 3"
    "hd (month_name m) \<noteq> CHR '' ''"
    using month_names(1) assms by (auto simp: list_all_iff)
  moreover have "\<forall>k \<in> set short_months. length k = 3" using month_names(2) by (simp add: list_all_iff)
  ultimately show "month_lookup 1 short_months (month_name m @ s) = Some (m, s)"
    "month_name m @ s \<noteq> []" "hd (month_name m @ s) \<noteq> CHR '' ''"
    by (auto simp: month_lookup_append hd_append)
qed

lemma getnum_day:
  assumes "d < 100"
  shows "getnum False (render_day d @ CHR '' '' # s) = Some (d, CHR '' '' # s)"
  using assms by (simp add: render_day_def getnum_two) (simp add: is_digit_def)

lemma time_Parse_bsd:
  assumes "parts_ok p" "tp_nsec p = 0" "tp_offset p = 0"
  shows "time_Parse (bsd_layout StdDay)
    (four (tp_year p) @ '' '' @ month_name (tp_month p) @ '' '' @ render_day (tp_day p) @ '' '' @ render_clock p) = Some p"
proof -
  have p: "tp_year p < 10000" "1 \<le> tp_month p" "tp_month p \<le> 12" "tp_hour p < 24" "tp_day p < 100"
    "1 \<le> tp_day p" "tp_day p \<le> days_in (tp_month p) (tp_year p)"
    using assms(1) days_in_le [of "tp_month p" "tp_year p"] by (auto simp: parts_ok_def)
  note month = month_lookup_name [OF p(2,3)]
  have day: "render_day (tp_day p) @ s \<noteq> []" "hd (render_day (tp_day p) @ s) \<noteq> CHR '' ''" for s
    by (simp_all add: render_day_def two_def)
  let ?t = "CHR '':'' # two (tp_min p) @ CHR '':'' # two (tp_sec p) @ []"
  have "parse_layout (bsd_layout StdDay) (four (tp_year p) @ '' '' @ month_name (tp_month p) @ '' '' @
      render_day (tp_day p) @ '' '' @ render_clock p) no_parts =
      parse_layout [('' '', StdMonth), ('' '', StdDay), ('' '', StdHour), ('':'', StdZeroMinute), ('':'', StdZeroSecond)]
        (CHR '' '' # month_name (tp_month p) @ CHR '' '' # render_day (tp_day p) @ CHR '' '' # two (tp_hour p) @ ?t)
        (no_parts\<lparr>tp_year := tp_year p\<rparr>)"
    using parse_first_element [OF parse_year [OF p(1)]] by (simp add: bsd_layout_def render_clock_def)
  also have "\<dots> = parse_layout [('' '', StdDay), ('' '', StdHour), ('':'', StdZeroMinute), ('':'', StdZeroSecond)]
      (CHR '' '' # render_day (tp_day p) @ CHR '' '' # two (tp_hour p) @ ?t)
      (no_parts\<lparr>tp_year := tp_year p, tp_month := tp_month p\<rparr>)"
    by (intro parse_blank_element month) (simp add: month [unfolded One_nat_def])
  also have "\<dots> = parse_layout [('' '', StdHour), ('':'', StdZeroMinute), ('':'', StdZeroSecond)]
      (CHR '' '' # two (tp_hour p) @ ?t) (no_parts\<lparr>tp_year := tp_year p, tp_month := tp_month p, tp_day := tp_day p\<rparr>)"
    using day p(5) by (intro parse_blank_element) (simp_all add: getnum_day)
  also have "\<dots> = parse_layout [('':'', StdZeroMinute), ('':'', StdZeroSecond)] ?t
      (no_parts\<lparr>tp_year := tp_year p, tp_month := tp_month p, tp_day := tp_day p, tp_hour := tp_hour p\<rparr>)"
    using p(4) by (intro parse_blank_element) (simp_all add: getnum_two in_range_def, simp_all add: two_def)
  also have "\<dots> = parse_layout [] [] p"
    by (rule parse_minutes_seconds [OF assms(1)])
      (simp_all add: skip_fraction_def fraction_at_def next_std_def no_parts_def assms(2,3))
  finally show ?thesis using p(6,7) by (simp add: time_Parse_def)
qed

end
