(* ===== verification/Time_Format.thy ===== *)
theory Time_Format
  imports Go_Time
begin

text \<open>
  What the program uses of \<open>time.Time.Format\<close> and \<open>time.Time.MarshalJSON\<close>, for times in UTC: the civil
  date and clock of an instant, the text of a time in JSON, which exists for the years 0 to 9999 only,
  and the layout of the names of scheduled backups; and that what is printed is parsed to the same instant.
\<close>

section \<open>The date of a day\<close>

text \<open>The year, and the day in it, of a day counted from 1 January 1970: cycles of 400, 100, 4 and 1 years.\<close>

definition year_day :: "int \<Rightarrow> int \<times> nat" where
  "year_day days =
     (let n = days + 719162; n400 = n div 146097; r = n mod 146097;
          n100 = min 3 (r div 36524); r = r - 36524 * n100;
          n4 = r div 1461; r = r mod 1461;
          n1 = min 3 (r div 365)
      in (400 * n400 + 100 * n100 + 4 * n4 + n1 + 1, nat (r - 365 * n1)))"

text \<open>The month, and the day in it, from month \<open>m\<close> on.\<close>

function month_day :: "nat \<Rightarrow> nat \<Rightarrow> nat \<Rightarrow> nat \<times> nat" where
  "month_day year m d =
     (if m < 12 \<and> days_in m year \<le> d then month_day year (Suc m) (d - days_in m year) else (m, Suc d))"
  by pat_completeness auto

termination
  by (relation "measure (\<lambda>(year, m, d). 12 - m)") auto

declare month_day.simps [simp del]

definition Day :: go_duration where "Day = 24 * Hour"

definition utc_year :: "go_time \<Rightarrow> int" where
  "utc_year t = fst (year_day (t div Day))"

text \<open>The parts of a time that is not before the year 0.\<close>

definition parts_at :: "int \<Rightarrow> nat \<Rightarrow> nat \<Rightarrow> time_parts" where
  "parts_at days s nsec =
     (let (y, yday) = year_day days; (m, d) = month_day (nat y) 1 yday
      in \<lparr>tp_year = nat y, tp_month = m, tp_day = d, tp_hour = s div 3600, tp_min = s div 60 mod 60, tp_sec = s mod 60,
          tp_nsec = nsec, tp_offset = 0\<rparr>)"

definition utc_parts :: "go_time \<Rightarrow> time_parts" where
  "utc_parts t = parts_at (t div Day) (nat (t mod Day div Second)) (nat (t mod Second))"

section \<open>Printing\<close>

definition pad_zeros :: "nat \<Rightarrow> string \<Rightarrow> string" where
  "pad_zeros n s = replicate (n - length s) (CHR ''0'') @ s"

text \<open>The digits after the point, without trailing zeros.\<close>

definition fraction_digits :: "nat \<Rightarrow> nat \<Rightarrow> string" where
  "fraction_digits prec v = TrimRight (pad_zeros prec (show_nat v)) [CHR ''0'']"

text \<open>\<open>MarshalJSON\<close> without its quotes; it fails for a year that does not have four digits.\<close>

definition year_ok :: "go_time \<Rightarrow> bool" where
  "year_ok t \<longleftrightarrow> 0 \<le> utc_year t \<and> utc_year t \<le> 9999"

definition marshal_time :: "go_time \<Rightarrow> string option" where
  "marshal_time t =
     (if year_ok t then Some (render_rfc3339 (utc_parts t) (fraction_digits 9 (tp_nsec (utc_parts t))) UTC_zone) else None)"

text \<open>\<open>Format("2006-01-02T15-04-05")\<close>, for the years with four digits.\<close>

definition file_stamp :: "go_time \<Rightarrow> string" where
  "file_stamp t = (let p = utc_parts t in
     four (tp_year p) @ ''-'' @ two (tp_month p) @ ''-'' @ two (tp_day p) @ ''T'' @
     two (tp_hour p) @ ''-'' @ two (tp_min p) @ ''-'' @ two (tp_sec p))"

section \<open>Lemmas: dates\<close>

definition year_start :: "int \<Rightarrow> int" where
  "year_start y = 365 * (y - 1) + (y - 1) div 4 - (y - 1) div 100 + (y - 1) div 400 - 719162"

definition year_length :: "int \<Rightarrow> int" where
  "year_length y = (if 4 dvd y \<and> (\<not> 100 dvd y \<or> 400 dvd y) then 366 else 365)"

lemma div_bounds: "0 < n \<Longrightarrow> n * (x div n) \<le> x \<and> x < n * (x div n) + n" for n x :: int
  using pos_mod_sign [of n x] pos_mod_bound [of n x] mult_div_mod_eq [of n x] by linarith

lemma div_step: "0 < n \<Longrightarrow> (x + 1) div n = x div n + (if n dvd x + 1 then 1 else 0)" for n x :: int
proof -
  assume n: "0 < n"
  show ?thesis
  proof (cases "n dvd x + 1")
    case True
    then obtain q where "x + 1 = n * q"
      by blast
    moreover from this have "x = n * (q - 1) + (n - 1)"
      by (simp add: algebra_simps)
    then have "x div n = q - 1"
      using n by (intro int_div_pos_eq [of _ _ _ "n - 1"]) simp_all
    ultimately show ?thesis
      using n by simp
  next
    case False
    then have "x mod n + 1 \<noteq> n"
      by (metis dvd_triv_left dvd_add mult_div_mod_eq add.assoc dvd_refl)
    then have "x + 1 = n * (x div n) + (x mod n + 1)" "x mod n + 1 < n"
      using pos_mod_bound [OF n, of x] by simp_all
    then have "(x + 1) div n = x div n"
      using n pos_mod_sign [OF n, of x] by (intro int_div_pos_eq [of _ _ _ "x mod n + 1"]) simp_all
    with False show ?thesis
      by simp
  qed
qed

lemma leap_days:
  "a' = a + (if p then 1 else 0) \<Longrightarrow> b' = b + (if q then 1 else 0) \<Longrightarrow> c' = c + (if r then 1 else 0) \<Longrightarrow> (q \<longrightarrow> p) \<Longrightarrow>
   (r \<longrightarrow> q) \<Longrightarrow> 365 * y + a' - b' + c' - k = 365 * (y - 1) + a - b + c - k + (if p \<and> (\<not> q \<or> r) then 366 else 365)"
  for y :: int
  by (cases p; cases q; cases r; simp)

lemma year_start_step: "year_start (y + 1) = year_start y + year_length y"
proof -
  have "y div n = (y - 1) div n + (if n dvd y then 1 else 0)" if "0 < n" for n
    using div_step [OF that, of "y - 1"] unfolding diff_add_cancel .
  moreover have "100 dvd y \<longrightarrow> 4 dvd y" "400 dvd y \<longrightarrow> 100 dvd y"
    using dvd_trans [of 4 100 y] dvd_trans [of 100 400 y] by simp_all
  ultimately show ?thesis
    unfolding year_start_def year_length_def add_diff_cancel_right' by (intro leap_days) simp_all
qed

lemma year_length_ge: "365 \<le> year_length y"
  by (simp add: year_length_def)

lemma year_start_mono: "x \<le> y \<Longrightarrow> year_start x \<le> year_start y"
proof (induction y rule: int_ge_induct)
  case (step y)
  then show ?case
    using year_start_step [of y] year_length_ge [of y] by simp
qed simp

text \<open>The cycles count the days before a year.\<close>

lemma year_start_cycles:
  assumes "0 \<le> c" "c \<le> 24" "0 \<le> b" "b \<le> 3" "0 \<le> e" "e \<le> 3"
  shows "year_start (400 * a + 100 * b + 4 * c + e + 1) = 146097 * a + 36524 * b + 1461 * c + 365 * e - 719162"
proof -
  let ?n = "400 * a + 100 * b + 4 * c + e"
  have "?n div 4 = 100 * a + 25 * b + c"
    using assms by (intro int_div_pos_eq [of _ _ _ e]) simp_all
  moreover have "?n div 100 = 4 * a + b"
    using assms by (intro int_div_pos_eq [of _ _ _ "4 * c + e"]) simp_all
  moreover have "?n div 400 = a"
    using assms by (intro int_div_pos_eq [of _ _ _ "100 * b + 4 * c + e"]) simp_all
  ultimately show ?thesis
    by (simp add: year_start_def)
qed

lemma year_length_cycles:
  assumes "0 \<le> c" "c \<le> 24" "0 \<le> b" "b \<le> 3" "c < 24 \<or> b = 3"
  shows "year_length (400 * a + 100 * b + 4 * c + 3 + 1) = 366"
proof -
  let ?y = "400 * a + 100 * b + 4 * c + 3 + 1"
  have "?y = 4 * (100 * a + 25 * b + c + 1)"
    by simp
  then have four: "4 dvd ?y"
    by (metis dvd_triv_left)
  show ?thesis
  proof (cases "c < 24")
    case True
    have "?y = 100 * (4 * a + b) + (4 * c + 4)"
      by simp
    then have "?y mod 100 = 4 * c + 4"
      using True assms(1) by (intro int_mod_pos_eq [of _ _ "4 * a + b"]) simp_all
    then have "\<not> 100 dvd ?y"
      using assms(1) by (simp add: dvd_eq_mod_eq_0)
    with four show ?thesis
      by (simp add: year_length_def)
  next
    case False
    then have "?y = 400 * (a + 1)"
      using assms by simp
    then have "400 dvd ?y"
      by (metis dvd_triv_left)
    with four show ?thesis
      by (simp add: year_length_def)
  qed
qed

lemma year_day_correct:
  assumes "year_day days = (y, k)"
  shows "days = year_start y + int k" "int k < year_length y"
proof -
  define n where "n = days + 719162"
  define a where "a = n div 146097"
  define r where "r = n mod 146097"
  define b where "b = min 3 (r div 36524)"
  define r1 where "r1 = r - 36524 * b"
  define c where "c = r1 div 1461"
  define r2 where "r2 = r1 mod 1461"
  define e where "e = min 3 (r2 div 365)"
  have y: "y = 400 * a + 100 * b + 4 * c + e + 1" "k = nat (r2 - 365 * e)"
  proof -
    have "year_day days = (400 * a + 100 * b + 4 * c + e + 1, nat (r2 - 365 * e))"
      unfolding year_day_def Let_def n_def a_def r_def b_def r1_def c_def r2_def e_def by (rule refl)
    then show "y = 400 * a + 100 * b + 4 * c + e + 1" "k = nat (r2 - 365 * e)"
      using assms by (simp_all only: prod.inject)
  qed
  have r: "0 \<le> r" "r < 146097" "n = 146097 * a + r"
    by (simp_all add: r_def a_def)
  have b: "0 \<le> b" "b \<le> 3" "0 \<le> r1" "r1 \<le> 36524" "b < 3 \<Longrightarrow> r1 < 36524"
    using r(1,2) div_bounds [of 36524 r] unfolding b_def r1_def by (auto simp: min_def)
  have c: "0 \<le> c" "c \<le> 24" "r1 = 1461 * c + r2" "0 \<le> r2" "r2 \<le> 1460"
    using b(3,4) div_bounds [of 1461 r1] mult_div_mod_eq [of 1461 r1] pos_mod_sign [of 1461 r1] pos_mod_bound [of 1461 r1]
    unfolding c_def r2_def by linarith+
  have e: "0 \<le> e" "e \<le> 3" "0 \<le> r2 - 365 * e" "r2 - 365 * e \<le> 365" "e < 3 \<Longrightarrow> r2 - 365 * e < 365"
    using c(4,5) div_bounds [of 365 r2] unfolding e_def by (auto simp: min_def)
  have "days = 146097 * a + 36524 * b + 1461 * c + 365 * e + int k - 719162"
    using r(3) c(3) e(3) y(2) by (simp add: n_def r1_def)
  then show "days = year_start y + int k"
    unfolding y(1) year_start_cycles [OF c(1,2) b(1,2) e(1,2)] by simp
  show "int k < year_length y"
  proof (cases "e = 3 \<and> (c < 24 \<or> b = 3)")
    case True
    then show ?thesis
      using year_length_cycles [OF c(1,2) b(1,2), of a] e(3,4) by (simp add: y)
  next
    case False
    have "r2 < 1460" if "c = 24" "b < 3"
      using that b(5) c(3) by simp
    then have "r2 - 365 * e < 365"
      using False e(2,5) b(2) c(2) by (cases "e = 3") auto
    then show ?thesis
      using year_length_ge [of y] e(3) by (simp add: y(2))
  qed
qed

lemma utc_year_le: "utc_year t \<le> y \<longleftrightarrow> t div Day < year_start (y + 1)"
proof -
  obtain z k where z: "year_day (t div Day) = (z, k)"
    by (cases "year_day (t div Day)")
  then have "utc_year t = z"
    by (simp add: utc_year_def)
  then show ?thesis
    using year_day_correct [OF z] year_start_step [of z] year_start_mono [of "z + 1" "y + 1"] year_start_mono [of "y + 1" z]
    by linarith
qed

text \<open>The years with four digits, in seconds.\<close>

lemma year_ok_iff: "year_ok t \<longleftrightarrow> - 62167219200 * Second \<le> t \<and> t < 253402300800 * Second"
proof -
  have "year_ok t \<longleftrightarrow> year_start 0 \<le> t div Day \<and> t div Day < year_start 10000"
    using utc_year_le [of t "-1"] utc_year_le [of t 9999] by (auto simp: year_ok_def)
  also have "\<dots> \<longleftrightarrow> - 719528 * Day \<le> t \<and> t < 2932897 * Day"
    using div_bounds [of Day t] by (simp add: year_start_def Day_def Hour_def Second_def) linarith
  finally show ?thesis
    by (simp add: Day_def Hour_def Second_def)
qed

text \<open>Months.\<close>

lemma days_before_Suc: "1 \<le> m \<Longrightarrow> days_before_month (Suc m) y = days_before_month m y + days_in m y"
  by (simp add: days_before_month_def)

lemma month_day_correct:
  "month_day y m d = (n, x) \<Longrightarrow> 1 \<le> m \<Longrightarrow> m \<le> 12 \<Longrightarrow> days_before_month m y + d < days_before_month 13 y \<Longrightarrow>
   m \<le> n \<and> n \<le> 12 \<and> 1 \<le> x \<and> x \<le> days_in n y \<and> days_before_month n y + x = days_before_month m y + Suc d"
proof (induction y m d rule: month_day.induct)
  case (1 y m d)
  show ?case
  proof (cases "m < 12 \<and> days_in m y \<le> d")
    case True
    then have "month_day y (Suc m) (d - days_in m y) = (n, x)"
      using "1.prems"(1) by (simp add: month_day.simps [of y m])
    from "1.IH" [OF True this] True show ?thesis
      using "1.prems" by (simp add: days_before_Suc)
  next
    case False
    then have "n = m" "x = Suc d"
      using "1.prems"(1) by (simp_all only: month_day.simps [of y m] if_False prod.inject)
    moreover have "d < days_in m y"
      using False "1.prems" days_before_Suc [of 12 y] by (cases "m = 12") auto
    ultimately show ?thesis
      using "1.prems" by simp
  qed
qed

lemma days_in_year: "days_before_month 13 (nat y) = nat (year_length y)" if "0 \<le> y"
proof -
  define n where "n = nat y"
  then have n: "y = int n"
    using that by simp
  have "numeral k dvd n \<longleftrightarrow> (numeral k :: int) dvd int n" for k
    by (metis int_dvd_int_iff of_nat_numeral)
  then have "leap_year (nat y) \<longleftrightarrow> year_length y = 366"
    by (simp add: n leap_year_def year_length_def)
  moreover have "nat (year_length y) = (if year_length y = 366 then 366 else 365)"
    by (simp add: year_length_def)
  moreover have "[1..<13] = [1, 2, 3, 4, 5, 6, 7, 8, 9, 10, 11, 12]"
    by code_simp
  ultimately show ?thesis
    by (simp add: days_before_month_def days_in_def)
qed

section \<open>Lemmas: the parts of a time\<close>

lemma civil_days_year: "0 \<le> y \<Longrightarrow> civil_days (nat y) m d = year_start y + int (days_before_month m (nat y) + d) - 1"
  by (simp add: civil_days_def year_start_def Let_def)

lemma utc_parts_date:
  assumes "0 \<le> utc_year t"
  shows "tp_year (utc_parts t) = nat (utc_year t)" "1 \<le> tp_month (utc_parts t)" "tp_month (utc_parts t) \<le> 12"
    "1 \<le> tp_day (utc_parts t)" "tp_day (utc_parts t) \<le> days_in (tp_month (utc_parts t)) (tp_year (utc_parts t))"
    "civil_days (tp_year (utc_parts t)) (tp_month (utc_parts t)) (tp_day (utc_parts t)) = t div Day"
proof -
  obtain y k where y: "year_day (t div Day) = (y, k)"
    by (cases "year_day (t div Day)")
  obtain m d where m: "month_day (nat y) 1 k = (m, d)"
    by (cases "month_day (nat y) 1 k")
  have nonneg: "0 \<le> y"
    using assms by (simp add: utc_year_def y)
  have parts: "tp_year (utc_parts t) = nat y" "tp_month (utc_parts t) = m" "tp_day (utc_parts t) = d"
    using m by (simp_all add: utc_parts_def parts_at_def y Let_def)
  have "days_before_month 1 (nat y) + k < days_before_month 13 (nat y)"
    using year_day_correct(2) [OF y] unfolding days_in_year [OF nonneg] by (simp add: days_before_month_def)
  note date = month_day_correct [OF m _ _ this]
  show "tp_year (utc_parts t) = nat (utc_year t)" "1 \<le> tp_month (utc_parts t)" "tp_month (utc_parts t) \<le> 12"
    "1 \<le> tp_day (utc_parts t)" "tp_day (utc_parts t) \<le> days_in (tp_month (utc_parts t)) (tp_year (utc_parts t))"
    using date parts by (simp_all add: utc_year_def y)
  have "days_before_month 1 (nat y) = 0"
    by (simp add: days_before_month_def)
  then show "civil_days (tp_year (utc_parts t)) (tp_month (utc_parts t)) (tp_day (utc_parts t)) = t div Day"
    unfolding parts civil_days_year [OF nonneg] using date year_day_correct(1) [OF y] by simp
qed

lemma clock_of_seconds: "(s div 3600 * 60 + s div 60 mod 60) * 60 + s mod 60 = s" for s :: nat
proof -
  have "s div 3600 = s div 60 div 60"
    by (simp add: div_mult2_eq [symmetric])
  then show ?thesis
    using div_mult_mod_eq [of "s div 60" 60] div_mult_mod_eq [of s 60] by simp
qed

lemma utc_parts_clock:
  "tp_hour (utc_parts t) < 24" "tp_min (utc_parts t) < 60" "tp_sec (utc_parts t) < 60" "int (tp_nsec (utc_parts t)) = t mod Second"
  "int ((tp_hour (utc_parts t) * 60 + tp_min (utc_parts t)) * 60 + tp_sec (utc_parts t)) = t mod Day div Second"
  "tp_offset (utc_parts t) = 0"
proof -
  define s where "s = nat (t mod Day div Second)"
  have parts: "tp_hour (utc_parts t) = s div 3600" "tp_min (utc_parts t) = s div 60 mod 60" "tp_sec (utc_parts t) = s mod 60"
    "tp_nsec (utc_parts t) = nat (t mod Second)" "tp_offset (utc_parts t) = 0"
    by (simp_all add: utc_parts_def parts_at_def Let_def s_def split: prod.split)
  have day: "0 \<le> t mod Day" "t mod Day < 86400 * Second"
    using pos_mod_sign [of Day t] pos_mod_bound [of Day t] by (simp_all add: Day_def Hour_def Second_def)
  then have "0 \<le> t mod Day div Second" "t mod Day div Second < 86400"
    using div_bounds [of Second "t mod Day"] by (simp_all add: Second_def)
  then have s: "s < 86400" "int s = t mod Day div Second"
    by (simp_all add: s_def)
  show "tp_hour (utc_parts t) < 24" "tp_min (utc_parts t) < 60" "tp_sec (utc_parts t) < 60" "tp_offset (utc_parts t) = 0"
    using s(1) by (simp_all add: parts)
  show "int (tp_nsec (utc_parts t)) = t mod Second"
    by (simp add: parts Second_def)
  show "int ((tp_hour (utc_parts t) * 60 + tp_min (utc_parts t)) * 60 + tp_sec (utc_parts t)) = t mod Day div Second"
    unfolding parts clock_of_seconds by (rule s(2))
qed

text \<open>Nothing is lost.\<close>

lemma time_of_utc_parts: "0 \<le> utc_year t \<Longrightarrow> time_of (utc_parts t) = t"
proof -
  assume year: "0 \<le> utc_year t"
  let ?p = "utc_parts t"
  have "((civil_days (tp_year ?p) (tp_month ?p) (tp_day ?p) * 24 + int (tp_hour ?p)) * 60 + int (tp_min ?p)) * 60 + int (tp_sec ?p) =
      86400 * (t div Day) + t mod Day div Second"
    unfolding utc_parts_clock(5) [of t, symmetric] utc_parts_date(6) [OF year] by simp
  moreover have "t mod Second = t mod Day mod Second"
    by (simp add: mod_mod_cancel Day_def Hour_def Second_def)
  then have "(86400 * (t div Day) + t mod Day div Second) * Second + t mod Second = t"
    using div_mult_mod_eq [of "t mod Day" Second] div_mult_mod_eq [of t Day]
    by (simp add: Day_def Hour_def Second_def)
  ultimately show "time_of ?p = t"
    by (simp add: time_of_def utc_parts_clock(4,6))
qed

lemma utc_parts_ok: "year_ok t \<Longrightarrow> parts_ok (utc_parts t)"
  using utc_parts_date [of t] utc_parts_clock [of t] by (auto simp: year_ok_def parts_ok_def)

section \<open>Lemmas: printed times\<close>

lemma digits_val_append: "digits_val (s @ [c]) = 10 * digits_val s + digit_val c"
  by (simp add: digits_val_def)

lemma digits_val_zeros: "digits_val (replicate n (CHR ''0'') @ s) = digits_val s"
  by (induction n) (simp_all add: digits_val_def digit_val_def)

lemma digits_val_scaled: "digits_val (s @ replicate k (CHR ''0'')) = digits_val s * 10 ^ k"
proof (induction k)
  case (Suc k)
  have "digits_val (s @ replicate (Suc k) (CHR ''0'')) = 10 * digits_val (s @ replicate k (CHR ''0'')) + digit_val (CHR ''0'')"
    unfolding replicate_append_same [symmetric] append_assoc [symmetric] replicate_Suc by (rule digits_val_append)
  then show ?case
    by (simp add: Suc digit_val_def)
qed simp

lemma digits_val_show: "digits_val (show_nat n) = n"
proof (induction n rule: show_nat.induct)
  case (1 n)
  show ?case
  proof (cases "n < 10")
    case True
    then show ?thesis
      by (simp add: show_nat.simps [of n] digits_val_def digit_val_def byte_char_of)
  next
    case False
    have "digit_val (char_of (48 + n mod 10)) = n mod 10"
      by (simp add: digit_val_def byte_char_of)
    with False 1 show ?thesis
      by (simp add: show_nat.simps [of n] digits_val_append)
  qed
qed

lemma show_nat_is_digit: "list_all is_digit (show_nat n)"
  using show_nat_digits by (auto simp: list_all_iff is_digit_def)

lemma TrimRight_split: "\<exists>k. s = TrimRight s [c] @ replicate k c"
proof -
  have "s = TrimRight s [c] @ rev (takeWhile (\<lambda>x. x \<in> set [c]) (rev s))"
    unfolding TrimRight_def by (metis rev_append rev_rev_ident takeWhile_dropWhile_id)
  moreover have "takeWhile (\<lambda>x. x \<in> set [c]) (rev s) = replicate (length (takeWhile (\<lambda>x. x \<in> set [c]) (rev s))) c"
    by (intro replicate_eqI) (auto dest: set_takeWhileD)
  ultimately show ?thesis
    by (metis rev_replicate)
qed

lemma fraction_digits_correct:
  assumes "v < 10 ^ 9"
  shows "list_all is_digit (fraction_digits 9 v)" "nanoseconds (fraction_digits 9 v) = v" "fraction_digits 9 v = [] \<Longrightarrow> v = 0"
proof -
  obtain k where k: "pad_zeros 9 (show_nat v) = fraction_digits 9 v @ replicate k (CHR ''0'')"
    using TrimRight_split unfolding fraction_digits_def by blast
  have "length (show_nat v) \<le> 9"
    using length_show_nat [of v 8] assms by simp
  then have len: "length (fraction_digits 9 v) + k = 9"
    using arg_cong [OF k, of length] by (simp add: pad_zeros_def)
  have "list_all is_digit (pad_zeros 9 (show_nat v))"
    using show_nat_is_digit [of v] by (auto simp: pad_zeros_def list_all_iff is_digit_def)
  then show "list_all is_digit (fraction_digits 9 v)"
    by (simp add: k)
  have "digits_val (fraction_digits 9 v) * 10 ^ k = v"
    using arg_cong [OF k, of digits_val] by (simp add: pad_zeros_def digits_val_zeros digits_val_show digits_val_scaled)
  moreover have "9 - length (fraction_digits 9 v) = k" "take 9 (fraction_digits 9 v) = fraction_digits 9 v"
    using len by simp_all
  ultimately show nanos: "nanoseconds (fraction_digits 9 v) = v"
    by (simp add: nanoseconds_def Let_def)
  show "v = 0" if "fraction_digits 9 v = []"
    using nanos that by (simp add: nanoseconds_def digits_val_def)
qed

text \<open>A time in JSON is parsed to the same instant.\<close>

lemma utc_time_text:
  assumes "year_ok t"
  shows "parts_ok (utc_parts t) \<and> list_all is_digit (fraction_digits 9 (tp_nsec (utc_parts t))) \<and>
    tp_nsec (utc_parts t) = (if fraction_digits 9 (tp_nsec (utc_parts t)) = [] then 0
      else nanoseconds (fraction_digits 9 (tp_nsec (utc_parts t)))) \<and> tp_offset (utc_parts t) = 0"
proof -
  have "int (tp_nsec (utc_parts t)) < Second"
    using pos_mod_bound [of Second t] by (simp add: utc_parts_clock(4) Second_def)
  then have "tp_nsec (utc_parts t) < 10 ^ 9"
    by (simp add: Second_def)
  from fraction_digits_correct [OF this] show ?thesis
    using utc_parts_ok [OF assms] utc_parts_clock(6) [of t] by auto
qed

lemma marshal_time_parse:
  "case marshal_time t of None \<Rightarrow> \<not> year_ok t | Some s \<Rightarrow> year_ok t \<and> map_option time_of (time_Parse RFC3339 s) = Some t"
proof (cases "year_ok t")
  case True
  then have "time_Parse RFC3339 (render_rfc3339 (utc_parts t) (fraction_digits 9 (tp_nsec (utc_parts t))) UTC_zone) =
      Some (utc_parts t)"
    using utc_time_text [OF True] by (intro time_Parse_rfc3339) simp_all
  with True show ?thesis
    using time_of_utc_parts [of t] by (simp add: marshal_time_def year_ok_def)
qed (simp add: marshal_time_def)

text \<open>Times in different seconds have different stamps.\<close>

lemma two_eq: "m < 100 \<Longrightarrow> n < 100 \<Longrightarrow> two m = two n \<longleftrightarrow> m = n"
  by (metis getnum_two option.inject prod.inject)

lemma four_eq: "m < 10000 \<Longrightarrow> n < 10000 \<Longrightarrow> four m = four n \<longleftrightarrow> m = n"
  using digits_val_four by metis

lemma file_stamp_eq:
  assumes "year_ok t" "year_ok u"
  shows "file_stamp t = file_stamp u \<longleftrightarrow> t div Second = u div Second"
proof
  assume stamp: "file_stamp t = file_stamp u"
  have small: "parts_ok p \<Longrightarrow> tp_year p < 10000 \<and> tp_month p < 100 \<and> tp_day p < 100 \<and> tp_hour p < 100 \<and> tp_min p < 100 \<and> tp_sec p < 100"
    for p
    using days_in_le [of "tp_month p" "tp_year p"] by (auto simp: parts_ok_def)
  have "tp_year (utc_parts t) = tp_year (utc_parts u) \<and> tp_month (utc_parts t) = tp_month (utc_parts u) \<and>
      tp_day (utc_parts t) = tp_day (utc_parts u) \<and> tp_hour (utc_parts t) = tp_hour (utc_parts u) \<and>
      tp_min (utc_parts t) = tp_min (utc_parts u) \<and> tp_sec (utc_parts t) = tp_sec (utc_parts u)"
    using stamp small [OF utc_parts_ok [OF assms(1)]] small [OF utc_parts_ok [OF assms(2)]]
    by (simp add: file_stamp_def Let_def two_eq four_eq)
  then have "time_of (utc_parts t) - int (tp_nsec (utc_parts t)) = time_of (utc_parts u) - int (tp_nsec (utc_parts u))"
    by (simp add: time_of_def utc_parts_clock(6))
  then have "t - t mod Second = u - u mod Second"
    using assms by (simp add: time_of_utc_parts year_ok_def utc_parts_clock(4))
  then show "t div Second = u div Second"
    by (simp add: minus_mod_eq_div_mult Second_def)
next
  assume same: "t div Second = u div Second"
  have seconds: "x div Day = x div Second div 86400" "x mod Day div Second = x div Second mod 86400" for x
  proof -
    show day: "x div Day = x div Second div 86400"
      by (simp add: zdiv_zmult2_eq [symmetric] Day_def Hour_def Second_def)
    have "x mod Day = x + - (86400 * (x div Day)) * Second"
      by (simp add: minus_mult_div_eq_mod [symmetric] Day_def Hour_def Second_def)
    then have "x mod Day div Second = x div Second - 86400 * (x div Day)"
      using div_mult_self1 [of Second x "- (86400 * (x div Day))"] by (simp only:) (simp add: Second_def)
    then show "x mod Day div Second = x div Second mod 86400"
      by (simp add: day minus_mult_div_eq_mod)
  qed
  have "t div Day = u div Day" "t mod Day div Second = u mod Day div Second"
    by (simp_all only: seconds same)
  moreover have "parts_at d s n = (parts_at d s m)\<lparr>tp_nsec := n\<rparr>" for d s m n
    by (simp add: parts_at_def split: prod.split)
  ultimately have "utc_parts u = (utc_parts t)\<lparr>tp_nsec := nat (u mod Second)\<rparr>"
    unfolding utc_parts_def by metis
  then show "file_stamp t = file_stamp u"
    by (simp add: file_stamp_def Let_def)
qed

lemma file_stamp_chars: "set (file_stamp t) \<subseteq> {c. is_digit c} \<union> set ''-T''"
  by (auto simp: file_stamp_def Let_def two_def four_def)

end
