(* ===== verification/Json_Logs.thy ===== *)
theory Json_Logs
  imports Go_Json Time_Format Metrics_Model
begin

text \<open>
  The JSON form of log entries, by the tags of \<open>internal/model/log.go\<close>: \<open>json.Marshal\<close> and \<open>json.Unmarshal\<close>
  for entries and for their attributes.  An object sets the fields it has, in their order, and
  ignores other keys; keys are compared without regard to case; \<open>null\<close> leaves a field alone; a value of
  the wrong type makes the call fail.
\<close>

section \<open>Encoding\<close>

definition string_json :: "string \<Rightarrow> json" where
  "string_json s = JString (escape s)"

definition attributes_json :: "(string \<times> string) list \<Rightarrow> json" where
  "attributes_json attrs = JObject (map (\<lambda>(k, v). (escape k, string_json v)) (sort_key fst attrs))"

definition marshal_attributes :: "(string \<times> string) list \<Rightarrow> string" where
  "marshal_attributes attrs = json_text (attributes_json attrs)"

text \<open>A timestamp is encoded as it was written, which \<open>time\<close> says; the number is left out when it is 0.\<close>

definition entry_json :: "string \<Rightarrow> log_entry \<Rightarrow> json" where
  "entry_json time e = JObject
     ((if le_ID e = 0 then [] else [(''id'', JNumber (show_int (le_ID e)))]) @
      [(''timestamp'', JString time), (''level'', string_json (le_Level e)), (''service'', string_json (le_Service e)),
       (''message'', string_json (le_Message e))] @
      (if le_Attributes e = [] then [] else [(''attributes'', attributes_json (le_Attributes e))]))"

text \<open>An entry whose time is in UTC, and a list of them; a time that cannot be encoded makes the whole call fail.\<close>

definition utc_entry_json :: "log_entry \<Rightarrow> json option" where
  "utc_entry_json e = map_option (\<lambda>time. entry_json time e) (marshal_time (le_Timestamp e))"

definition utc_entries_json :: "log_entry list \<Rightarrow> json option" where
  "utc_entries_json es = map_option JArray (those (map utc_entry_json es))"

section \<open>Decoding\<close>

text \<open>The keys of the fields in the form in which they are compared: two runes outside ASCII fold to \<open>S\<close> and \<open>K\<close>.\<close>

fun fold_name :: "string \<Rightarrow> string" where
  "fold_name [] = []"
| "fold_name (a # s) =
     (if byte a = 0xC5 \<and> s \<noteq> [] \<and> byte (hd s) = 0xBF then CHR ''S'' # fold_name (tl s)
      else if byte a = 0xE2 \<and> length s \<ge> 2 \<and> byte (s ! 0) = 0x84 \<and> byte (s ! 1) = 0xAA then CHR ''K'' # fold_name (drop 2 s)
      else upper_byte a # fold_name s)"

definition decode_string :: "string \<Rightarrow> json \<Rightarrow> string option" where
  "decode_string old v = (case v of JString l \<Rightarrow> Some (unquote l) | JNull \<Rightarrow> Some old | _ \<Rightarrow> None)"

definition decode_int64 :: "int \<Rightarrow> json \<Rightarrow> int option" where
  "decode_int64 old v = (case v of
     JNumber l \<Rightarrow> (case Atoi l of (n, None) \<Rightarrow> Some n | _ \<Rightarrow> None)
   | JNull \<Rightarrow> Some old
   | _ \<Rightarrow> None)"

text \<open>\<open>Time.UnmarshalJSON\<close> looks at the literal as it is written.\<close>

definition decode_time :: "go_time \<Rightarrow> json \<Rightarrow> go_time option" where
  "decode_time old v = (case v of
     JString l \<Rightarrow> map_option time_of (time_Parse RFC3339 l)
   | JNull \<Rightarrow> Some old
   | _ \<Rightarrow> None)"

fun set_attributes :: "(string \<times> json) list \<Rightarrow> (string \<times> string) list \<Rightarrow> (string \<times> string) list option" where
  "set_attributes [] m = Some m"
| "set_attributes ((k, v) # ms) m = (case decode_string [] v of
     None \<Rightarrow> None
   | Some s \<Rightarrow> set_attributes ms (AList.update (unquote k) s m))"

definition decode_attributes :: "(string \<times> string) list \<Rightarrow> json \<Rightarrow> (string \<times> string) list option" where
  "decode_attributes old v = (case v of JObject ms \<Rightarrow> set_attributes ms old | JNull \<Rightarrow> Some [] | _ \<Rightarrow> None)"

definition unmarshal_attributes :: "string \<Rightarrow> (string \<times> string) list option" where
  "unmarshal_attributes s = Option.bind (json_scan s) (decode_attributes [])"

definition decode_field :: "string \<Rightarrow> json \<Rightarrow> log_entry \<Rightarrow> log_entry option" where
  "decode_field k v e = (let name = fold_name (unquote k) in
     if name = ''ID'' then map_option (\<lambda>x. e\<lparr>le_ID := x\<rparr>) (decode_int64 (le_ID e) v)
     else if name = ''TIMESTAMP'' then map_option (\<lambda>x. e\<lparr>le_Timestamp := x\<rparr>) (decode_time (le_Timestamp e) v)
     else if name = ''LEVEL'' then map_option (\<lambda>x. e\<lparr>le_Level := x\<rparr>) (decode_string (le_Level e) v)
     else if name = ''SERVICE'' then map_option (\<lambda>x. e\<lparr>le_Service := x\<rparr>) (decode_string (le_Service e) v)
     else if name = ''MESSAGE'' then map_option (\<lambda>x. e\<lparr>le_Message := x\<rparr>) (decode_string (le_Message e) v)
     else if name = ''ATTRIBUTES'' then map_option (\<lambda>x. e\<lparr>le_Attributes := x\<rparr>) (decode_attributes (le_Attributes e) v)
     else Some e)"

fun decode_fields :: "(string \<times> json) list \<Rightarrow> log_entry \<Rightarrow> log_entry option" where
  "decode_fields [] e = Some e"
| "decode_fields ((k, v) # ms) e = Option.bind (decode_field k v e) (decode_fields ms)"

definition zero_entry :: log_entry where
  "zero_entry = \<lparr>le_ID = 0, le_Timestamp = zero_time, le_Level = [], le_Service = [], le_Message = [], le_Attributes = []\<rparr>"

definition decode_entry :: "json \<Rightarrow> log_entry option" where
  "decode_entry v = (case v of JObject ms \<Rightarrow> decode_fields ms zero_entry | JNull \<Rightarrow> Some zero_entry | _ \<Rightarrow> None)"

fun decode_entries :: "json list \<Rightarrow> log_entry list option" where
  "decode_entries [] = Some []"
| "decode_entries (v # vs) =
     Option.bind (decode_entry v) (\<lambda>e. map_option (\<lambda>es. e # es) (decode_entries vs))"

text \<open>\<open>json.Unmarshal\<close> into one entry, and into a list of entries.\<close>

definition unmarshal_entry :: "string \<Rightarrow> log_entry option" where
  "unmarshal_entry s = Option.bind (json_scan s) decode_entry"

definition unmarshal_entries :: "string \<Rightarrow> log_entry list option" where
  "unmarshal_entries s = Option.bind (json_scan s) (\<lambda>v. case v of
     JArray vs \<Rightarrow> decode_entries vs
   | JNull \<Rightarrow> Some []
   | _ \<Rightarrow> None)"

section \<open>Lemmas: attributes\<close>

definition attributes_ok :: "(string \<times> string) list \<Rightarrow> bool" where
  "attributes_ok attrs \<longleftrightarrow> distinct (map fst attrs) \<and> list_all (\<lambda>(k, v). valid_utf8 k \<and> valid_utf8 v) attrs"

lemma literal_ok_escape: "valid_utf8 s \<Longrightarrow> literal_ok (escape s)"
  by (simp add: literal_ok_def scan_escape)

lemma json_ok_string: "valid_utf8 s \<Longrightarrow> json_ok d (string_json s)"
  by (simp add: string_json_def literal_ok_escape)

lemma json_ok_attributes: "attributes_ok attrs \<Longrightarrow> d < maxNestingDepth \<Longrightarrow> json_ok d (attributes_json attrs)"
  by (auto simp: attributes_ok_def attributes_json_def list_all_iff json_ok_string literal_ok_escape)

lemma set_attributes_fresh:
  "list_all (\<lambda>(k, v). valid_utf8 k \<and> valid_utf8 v) ms \<Longrightarrow> distinct (map fst (m @ ms)) \<Longrightarrow>
   set_attributes (map (\<lambda>(k, v). (escape k, string_json v)) ms) m = Some (m @ ms)"
proof (induction ms arbitrary: m)
  case (Cons a ms)
  obtain k v where a: "a = (k, v)" by (cases a)
  have "set_attributes (map (\<lambda>(k, v). (escape k, string_json v)) ms) (m @ [(k, v)]) = Some ((m @ [(k, v)]) @ ms)"
    using Cons.prems by (intro Cons.IH) (auto simp: a)
  then show ?case
    using Cons.prems by (simp add: a string_json_def decode_string_def unquote_escape update_fresh)
qed simp

lemma decode_attributes_json:
  assumes "attributes_ok attrs"
  shows "decode_attributes [] (attributes_json attrs) = Some (sort_key fst attrs)"
proof -
  have "list_all (\<lambda>(k, v). valid_utf8 k \<and> valid_utf8 v) (sort_key fst attrs)" "distinct (map fst (sort_key fst attrs))"
    using assms by (auto simp: attributes_ok_def list_all_iff distinct_map)
  then show ?thesis
    using set_attributes_fresh [of "sort_key fst attrs" "[]"] by (simp add: decode_attributes_def attributes_json_def)
qed

text \<open>Attributes survive, in the order of their keys.\<close>

lemma unmarshal_marshal_attributes:
  "attributes_ok attrs \<Longrightarrow> unmarshal_attributes (marshal_attributes attrs) = Some (sort_key fst attrs)"
  by (simp add: unmarshal_attributes_def marshal_attributes_def json_scan_text json_ok_attributes decode_attributes_json
      maxNestingDepth_def)

lemma marshal_attributes_nonempty: "marshal_attributes attrs \<noteq> []"
  by (simp add: marshal_attributes_def attributes_json_def)

section \<open>Lemmas: entries\<close>

lemma hd_show_nat_zero: "hd (show_nat n) = CHR ''0'' \<Longrightarrow> n = 0"
proof (induction n rule: show_nat.induct)
  case (1 n)
  show ?case
  proof (cases "n < 10")
    case True
    then show ?thesis
      using arg_cong [OF "1.prems", of byte] by (simp add: show_nat.simps [of n] byte_char_of)
  next
    case False
    then show ?thesis
      using "1.IH" "1.prems" by (simp add: show_nat.simps [of n] show_nat_nonempty)
  qed
qed

lemma json_digits_show: "list_all json_digit (show_nat n)"
  by (auto simp: list_all_iff json_digit_def cont_def dest: show_nat_digits)

lemma number_ok_show: "number_ok (show_nat n)"
proof -
  obtain c t where show_n: "show_nat n = c # t"
    using show_nat_nonempty by (cases "show_nat n") auto
  then have c: "48 \<le> byte c" "byte c \<le> 57"
    using show_nat_digits [of c n] by simp_all
  have "scan_number (show_nat n @ r) = Some (show_nat n, r)" if r: "after_value r" for r
  proof -
    have stop: "r = [] \<or> \<not> json_digit (hd r) \<and> hd r \<noteq> CHR ''.'' \<and> hd r \<noteq> CHR ''e'' \<and> hd r \<noteq> CHR ''E''"
      using r by (auto simp: after_value_def json_digit_def cont_def)
    then have digits: "scan_digits (show_nat n @ r) = Some (show_nat n, r)"
      using json_digits_show [of n] by (cases r) (simp_all add: scan_digits_def show_n list_all_iff)
    have "scan_integer (show_nat n @ r) = Some (show_nat n, r)"
    proof (cases "c = CHR ''0''")
      case True
      then have "n = 0"
        using hd_show_nat_zero [of n] show_n by simp
      then have "show_nat n = ''0''"
        by (simp only:) code_simp
      then show ?thesis
        by (simp add: scan_integer_def)
    next
      case False
      then show ?thesis
        using digits by (simp add: scan_integer_def show_n)
    qed
    moreover have "scan_fraction r = Some ([], r)" "scan_exponent r = Some ([], r)"
      using stop by (cases r; simp add: scan_fraction_def scan_exponent_def)+
    moreover have "\<not> HasPrefix (show_nat n @ r) ''-''"
      using c by (auto simp: show_n HasPrefix_def)
    ultimately show ?thesis
      by (simp add: scan_number_def)
  qed
  moreover have "c \<notin> {quote, CHR '']'', CHR ''['', CHR ''{'', CHR ''n'', CHR ''t'', CHR ''f''}"
    using c by auto
  ultimately show ?thesis
    using c show_n by (auto simp: number_ok_def json_space_def)
qed

text \<open>A time as it is written: its parts, the digits of the fraction, the zone.\<close>

type_synonym time_text = "time_parts \<times> string \<times> zone_text"

definition render_time :: "time_text \<Rightarrow> string" where
  "render_time = (\<lambda>(p, ds, z). render_rfc3339 p ds z)"

definition time_text_ok :: "time_text \<Rightarrow> bool" where
  "time_text_ok = (\<lambda>(p, ds, z). parts_ok p \<and> list_all is_digit ds \<and> zone_ok z \<and>
     tp_nsec p = (if ds = [] then 0 else nanoseconds ds) \<and> tp_offset p = zone_offset z)"

definition entry_text_ok :: "time_text \<times> log_entry \<Rightarrow> bool" where
  "entry_text_ok = (\<lambda>(t, e). time_text_ok t \<and> le_Timestamp e = time_of (fst t) \<and> 0 \<le> le_ID e \<and> le_ID e < 2 ^ 63 \<and>
     valid_utf8 (le_Level e) \<and> valid_utf8 (le_Service e) \<and> valid_utf8 (le_Message e) \<and> attributes_ok (le_Attributes e))"

lemma decode_time_text: "time_text_ok t \<Longrightarrow> decode_time old (JString (render_time t)) = Some (time_of (fst t))"
  by (cases t) (auto simp: time_text_ok_def render_time_def decode_time_def time_Parse_rfc3339)

lemma literal_chars_ok: "list_all literal_char w \<Longrightarrow> literal_ok w"
  by (simp add: literal_ok_def scan_literal_chars)

lemma is_digit_literal: "is_digit c \<Longrightarrow> literal_char c"
  by (auto simp: is_digit_def literal_char_def quote_def backslash_def)

lemma literal_digits [simp]: "literal_char (digit n)" "list_all literal_char (two n)" "list_all literal_char (four n)"
  by (simp_all add: two_def four_def is_digit_literal)

lemma literal_time_chars [simp]:
  "literal_char (CHR ''-'')" "literal_char (CHR '':'')" "literal_char (CHR ''.'')" "literal_char (CHR ''T'')"
  "literal_char (CHR ''Z'')" "literal_char (CHR ''+'')"
  by (simp_all add: literal_char_def quote_def backslash_def)

lemma literal_ok_time: "time_text_ok t \<Longrightarrow> literal_ok (render_time t)"
proof (cases t)
  case (fields p ds z)
  assume "time_text_ok t"
  then have "list_all literal_char ds"
    by (auto simp: fields time_text_ok_def list_all_iff is_digit_literal)
  then show ?thesis
    by (cases z) (simp_all add: fields render_time_def render_rfc3339_def render_clock_def literal_chars_ok)
qed

lemma plain_names:
  "list_all (\<lambda>k. list_all literal_char k \<and> unquote k = k)
    [''id'', ''timestamp'', ''level'', ''service'', ''message'', ''attributes'']"
  "map fold_name [''id'', ''timestamp'', ''level'', ''service'', ''message'', ''attributes''] =
    [''ID'', ''TIMESTAMP'', ''LEVEL'', ''SERVICE'', ''MESSAGE'', ''ATTRIBUTES'']"
  by code_simp+

lemma decode_field_names:
  "decode_field ''id'' v e = map_option (\<lambda>x. e\<lparr>le_ID := x\<rparr>) (decode_int64 (le_ID e) v)"
  "decode_field ''timestamp'' v e = map_option (\<lambda>x. e\<lparr>le_Timestamp := x\<rparr>) (decode_time (le_Timestamp e) v)"
  "decode_field ''level'' v e = map_option (\<lambda>x. e\<lparr>le_Level := x\<rparr>) (decode_string (le_Level e) v)"
  "decode_field ''service'' v e = map_option (\<lambda>x. e\<lparr>le_Service := x\<rparr>) (decode_string (le_Service e) v)"
  "decode_field ''message'' v e = map_option (\<lambda>x. e\<lparr>le_Message := x\<rparr>) (decode_string (le_Message e) v)"
  "decode_field ''attributes'' v e = map_option (\<lambda>x. e\<lparr>le_Attributes := x\<rparr>) (decode_attributes (le_Attributes e) v)"
  using plain_names by (simp_all add: decode_field_def)

lemma decode_string_json [simp]: "valid_utf8 s \<Longrightarrow> decode_string old (string_json s) = Some s"
  by (simp add: decode_string_def string_json_def unquote_escape)

lemma decode_int64_show: "0 \<le> n \<Longrightarrow> n < 2 ^ 63 \<Longrightarrow> decode_int64 old (JNumber (show_int n)) = Some n"
  using Atoi_show_nat [of "nat n"] by (simp add: decode_int64_def show_int_def)

lemma decode_fields_append: "decode_fields (xs @ ys) e = Option.bind (decode_fields xs e) (decode_fields ys)"
  by (induction xs arbitrary: e) (auto split: Option.bind_splits)

definition sorted_attributes :: "log_entry \<Rightarrow> log_entry" where
  "sorted_attributes e = e\<lparr>le_Attributes := sort_key fst (le_Attributes e)\<rparr>"

lemma decode_entry_json:
  assumes "entry_text_ok (t, e)"
  shows "decode_entry (entry_json (render_time t) e) = Some (sorted_attributes e)"
proof -
  have ok: "time_text_ok t" "le_Timestamp e = time_of (fst t)" "0 \<le> le_ID e" "le_ID e < 2 ^ 63"
    "valid_utf8 (le_Level e)" "valid_utf8 (le_Service e)" "valid_utf8 (le_Message e)" "attributes_ok (le_Attributes e)"
    using assms by (simp_all add: entry_text_ok_def)
  show ?thesis
    using ok
    by (simp add: decode_entry_def entry_json_def decode_fields_append decode_field_names decode_int64_show decode_time_text
        zero_entry_def decode_attributes_json sorted_attributes_def)
qed

lemma json_ok_entry:
  assumes "entry_text_ok (t, e)" "d < 100"
  shows "json_ok d (entry_json (render_time t) e)"
  using assms plain_names(1)
  by (simp_all add: entry_json_def entry_text_ok_def number_ok_show show_int_def literal_ok_time json_ok_string json_ok_attributes
      literal_chars_ok maxNestingDepth_def)

definition marshal_entry :: "time_text \<times> log_entry \<Rightarrow> string" where
  "marshal_entry = (\<lambda>(t, e). json_text (entry_json (render_time t) e))"

definition marshal_entries :: "(time_text \<times> log_entry) list \<Rightarrow> string" where
  "marshal_entries es = json_text (JArray (map (\<lambda>(t, e). entry_json (render_time t) e) es))"

lemma unmarshal_marshal_entry:
  "entry_text_ok te \<Longrightarrow> unmarshal_entry (marshal_entry te) = Some (sorted_attributes (snd te))"
  by (cases te) (simp add: unmarshal_entry_def marshal_entry_def json_scan_text json_ok_entry decode_entry_json)

lemma decode_entries_json:
  "list_all entry_text_ok es \<Longrightarrow> decode_entries (map (\<lambda>(t, e). entry_json (render_time t) e) es) =
    Some (map (sorted_attributes \<circ> snd) es)"
  by (induction es) (auto simp: decode_entry_json)

lemma unmarshal_marshal_entries:
  assumes "list_all entry_text_ok es"
  shows "unmarshal_entries (marshal_entries es) = Some (map (sorted_attributes \<circ> snd) es)"
proof -
  have "list_all (json_ok 1) (map (\<lambda>(t, e). entry_json (render_time t) e) es)"
    using assms by (auto simp: list_all_iff json_ok_entry)
  then have "json_scan (marshal_entries es) = Some (JArray (map (\<lambda>(t, e). entry_json (render_time t) e) es))"
    unfolding marshal_entries_def by (intro json_scan_text) (simp add: maxNestingDepth_def)
  then show ?thesis
    by (simp add: unmarshal_entries_def decode_entries_json [OF assms])
qed

text \<open>Entries in UTC: what is sent, and that it can be read back.\<close>

definition utc_text :: "log_entry \<Rightarrow> time_text" where
  "utc_text e = (utc_parts (le_Timestamp e), fraction_digits 9 (tp_nsec (utc_parts (le_Timestamp e))), UTC_zone)"

definition readable_entry :: "log_entry \<Rightarrow> bool" where
  "readable_entry e \<longleftrightarrow> 0 \<le> le_ID e \<and> le_ID e < 2 ^ 63 \<and> valid_utf8 (le_Level e) \<and> valid_utf8 (le_Service e) \<and>
     valid_utf8 (le_Message e) \<and> attributes_ok (le_Attributes e)"

lemma utc_entry_json_eq:
  "utc_entry_json e = (if year_ok (le_Timestamp e) then Some (entry_json (render_time (utc_text e)) e) else None)"
  by (simp add: utc_entry_json_def marshal_time_def render_time_def utc_text_def)

lemma utc_text_ok: "year_ok (le_Timestamp e) \<Longrightarrow> readable_entry e \<Longrightarrow> entry_text_ok (utc_text e, e)"
  using utc_time_text [of "le_Timestamp e"] time_of_utc_parts [of "le_Timestamp e"]
  by (simp add: entry_text_ok_def time_text_ok_def utc_text_def readable_entry_def year_ok_def)

lemma those_map_if: "those (map (\<lambda>x. if P x then Some (f x) else None) xs) = (if list_all P xs then Some (map f xs) else None)"
  by (induction xs) auto

lemma utc_entries_json_eq:
  "utc_entries_json es =
    (if \<forall>e \<in> set es. year_ok (le_Timestamp e) then Some (JArray (map (\<lambda>e. entry_json (render_time (utc_text e)) e) es))
     else None)"
  unfolding utc_entries_json_def utc_entry_json_eq [abs_def] those_map_if by (simp add: list_all_iff)

text \<open>The texts are not changed by \<open>TrimSpace\<close>, and the first byte tells them apart.\<close>

lemma marshal_shape:
  "TrimSpace (marshal_entries es) = marshal_entries es" "HasPrefix (marshal_entries es) ''[''"
  "TrimSpace (marshal_entry te) = marshal_entry te" "HasPrefix (marshal_entry te) ''{''"
proof -
  have "plain_char (CHR ''['')" "plain_char (CHR '']'')" "plain_char (CHR ''{'')" "plain_char (CHR ''}'')"
    by code_simp+
  then show "TrimSpace (marshal_entries es) = marshal_entries es" "TrimSpace (marshal_entry te) = marshal_entry te"
    by (auto simp: marshal_entries_def marshal_entry_def entry_json_def split: prod.split intro!: TrimSpace_plain)
qed (simp_all add: marshal_entries_def marshal_entry_def entry_json_def HasPrefix_def split: prod.split)

end
