(* ===== verification/Sqlite_Storage.thy ===== *)
theory Sqlite_Storage
  imports Json_Logs
begin

text \<open>
  The log storage, \<open>internal/storage/sqlite.go\<close>: what is written for a log entry, the transaction of
  \<open>WriteBatch\<close>, the query that \<open>QueryLogs\<close> builds and how it reads the result, and the threshold of
  \<open>PruneOldLogs\<close>.

  The database driver is a parameter: \<open>sql_driver\<close> holds the calls the code makes, \<open>transactional\<close> what
  it relies on.
\<close>

section \<open>Rows\<close>

text \<open>\<open>Time.UnixMilli\<close> rounds down; \<open>time.UnixMilli\<close> goes back.\<close>

definition UnixMilli :: "go_time \<Rightarrow> int" where
  "UnixMilli t = t div 1000000"

definition time_UnixMilli :: "int \<Rightarrow> go_time" where
  "time_UnixMilli ms = ms * 1000000"

record log_row =
  lr_ts :: int
  lr_level :: string
  lr_service :: string
  lr_message :: string
  lr_attributes :: string

text \<open>The arguments of one \<open>INSERT\<close>; the encoding of a map of strings cannot fail; \<open>now\<close> is the clock, read when the timestamp is 0.  \<open>ToUpper\<close> is
  exact for levels of ASCII letters.\<close>

definition log_row_of :: "go_time \<Rightarrow> log_entry \<Rightarrow> log_row" where
  "log_row_of now entry =
     (let ts = UnixMilli (le_Timestamp entry);
          ts = (if ts = 0 then UnixMilli now else ts);
          attrStr = (if length (le_Attributes entry) > 0 then marshal_attributes (le_Attributes entry) else []);
          level = ToUpper (TrimSpace (le_Level entry));
          level = (if level = [] then ''INFO'' else level);
          service = TrimSpace (le_Service entry);
          service = (if service = [] then ''default'' else service)
      in \<lparr>lr_ts = ts, lr_level = level, lr_service = service, lr_message = le_Message entry,
           lr_attributes = attrStr\<rparr>)"

section \<open>Writing\<close>

datatype storage_error =
    BeginFailed
  | PrepareFailed
  | InsertFailed
  | CommitFailed
  | QueryFailed
  | ScanRowFailed
  | RowsFailed
  | PruneFailed
  | CountFailed

datatype sql_arg = ArgInt int | ArgText string

text \<open>A row as the driver delivers it: the number, the five columns, the last one nullable; a row that
  cannot be scanned is \<open>None\<close>.\<close>

type_synonym raw_row = "(int \<times> int \<times> string \<times> string \<times> string \<times> string option) option"

record 'db sql_driver =
  sd_begin :: "'db \<Rightarrow> bool \<times> 'db"
  sd_prepare :: "'db \<Rightarrow> bool \<times> 'db"
  sd_insert :: "log_row \<Rightarrow> 'db \<Rightarrow> bool \<times> 'db"
  sd_commit :: "'db \<Rightarrow> bool \<times> 'db"
  sd_rollback :: "'db \<Rightarrow> 'db"
  sd_query :: "string \<Rightarrow> sql_arg list \<Rightarrow> 'db \<Rightarrow> (raw_row list \<times> bool) option"
  sd_delete_before :: "int \<Rightarrow> 'db \<Rightarrow> int option \<times> 'db"

text \<open>The loop of inserts; \<open>clock i\<close> is the time at entry \<open>i\<close>.\<close>

fun insert_rows :: "'db sql_driver \<Rightarrow> (nat \<Rightarrow> go_time) \<Rightarrow>
    nat \<Rightarrow> log_entry list \<Rightarrow> 'db \<Rightarrow> bool \<times> 'db" where
  "insert_rows drv clock i [] db = (True, db)"
| "insert_rows drv clock i (entry # entries) db =
     (case sd_insert drv (log_row_of (clock i) entry) db of (ok, db) \<Rightarrow>
        if ok then insert_rows drv clock (Suc i) entries db else (False, db))"

text \<open>The deferred \<open>Rollback\<close> runs on every way out after \<open>Begin\<close>.\<close>

definition WriteBatch :: "'db sql_driver \<Rightarrow> (nat \<Rightarrow> go_time) \<Rightarrow>
    log_entry list \<Rightarrow> 'db \<Rightarrow> storage_error option \<times> 'db" where
  "WriteBatch drv clock entries db =
     (if length entries = 0 then (None, db)
      else case sd_begin drv db of (ok, db) \<Rightarrow>
        if \<not> ok then (Some BeginFailed, db)
        else case sd_prepare drv db of (ok, db) \<Rightarrow>
          if \<not> ok then (Some PrepareFailed, sd_rollback drv db)
          else case insert_rows drv clock 0 entries db of (ok, db) \<Rightarrow>
            if \<not> ok then (Some InsertFailed, sd_rollback drv db)
            else case sd_commit drv db of (ok, db) \<Rightarrow>
              if \<not> ok then (Some CommitFailed, sd_rollback drv db)
              else (None, sd_rollback drv db))"

definition WriteLog :: "'db sql_driver \<Rightarrow> (nat \<Rightarrow> go_time) \<Rightarrow>
    log_entry \<Rightarrow> 'db \<Rightarrow> storage_error option \<times> 'db" where
  "WriteLog drv clock entry db = WriteBatch drv clock [entry] db"

section \<open>Querying\<close>

definition query_conditions :: "log_filter \<Rightarrow> (string \<times> sql_arg) list" where
  "query_conditions f =
     (case lf_StartTime f of None \<Rightarrow> [] | Some t \<Rightarrow> [(''timestamp >= ?'', ArgInt (UnixMilli t))]) @
     (case lf_EndTime f of None \<Rightarrow> [] | Some t \<Rightarrow> [(''timestamp <= ?'', ArgInt (UnixMilli t))]) @
     (if lf_Level f \<noteq> [] then [(''level = ?'', ArgText (ToUpper (lf_Level f)))] else []) @
     (if lf_Service f \<noteq> [] then [(''service = ?'', ArgText (lf_Service f))] else []) @
     (if lf_Search f \<noteq> [] then [(''message LIKE ?'', ArgText (''%'' @ lf_Search f @ ''%''))] else [])"

definition query_limit :: "int \<Rightarrow> int" where
  "query_limit limit = (if limit \<le> 0 \<or> limit > 1000 then 100 else limit)"

definition build_query :: "log_filter \<Rightarrow> string \<times> sql_arg list" where
  "build_query f =
     (let conds = query_conditions f;
          query = ''SELECT id, timestamp, level, service, message, attributes FROM system_logs'';
          query = (if length conds > 0 then query @ '' WHERE '' @ Join (map fst conds) '' AND '' else query);
          query = query @ '' ORDER BY timestamp DESC'';
          query = query @ '' LIMIT ?'';
          args = map snd conds @ [ArgInt (query_limit (lf_Limit f))]
      in if lf_Offset f > 0 then (query @ '' OFFSET ?'', args @ [ArgInt (lf_Offset f)]) else (query, args))"

definition entry_of_row :: "int \<times> int \<times> string \<times> string \<times> string \<times> string option \<Rightarrow> log_entry" where
  "entry_of_row row = (case row of (i, ts, level, service, message, attr) \<Rightarrow>
     \<lparr>le_ID = i, le_Timestamp = time_UnixMilli ts, le_Level = level, le_Service = service,
       le_Message = message,
       le_Attributes = (case attr of
           None \<Rightarrow> []
         | Some s \<Rightarrow> if s \<noteq> [] then (case unmarshal_attributes s of Some attrs \<Rightarrow> attrs | None \<Rightarrow> []) else [])\<rparr>)"

fun read_rows :: "raw_row list \<Rightarrow>
    log_entry list \<Rightarrow> storage_error + log_entry list" where
  "read_rows [] result = Inr result"
| "read_rows (None # rows) result = Inl ScanRowFailed"
| "read_rows (Some row # rows) result =
     read_rows rows (result @ [entry_of_row row])"

definition QueryLogs :: "'db sql_driver \<Rightarrow> log_filter \<Rightarrow> 'db \<Rightarrow> storage_error + log_entry list" where
  "QueryLogs drv f db = (case build_query f of (query, args) \<Rightarrow>
     (case sd_query drv query args db of
        None \<Rightarrow> Inl QueryFailed
      | Some (rows, failed) \<Rightarrow> (case read_rows rows [] of
          Inl e \<Rightarrow> Inl e
        | Inr result \<Rightarrow> if failed then Inl RowsFailed else Inr result)))"

section \<open>Pruning\<close>

definition prune_threshold :: "go_time \<Rightarrow> go_duration \<Rightarrow> int" where
  "prune_threshold now retention = UnixMilli (now - retention)"

definition PruneOldLogs :: "'db sql_driver \<Rightarrow> go_time \<Rightarrow> go_duration \<Rightarrow> 'db \<Rightarrow>
    (storage_error + int) \<times> 'db" where
  "PruneOldLogs drv now retention db =
     (case sd_delete_before drv (prune_threshold now retention) db of
        (None, db) \<Rightarrow> (Inl PruneFailed, db)
      | (Some n, db) \<Rightarrow> (Inr n, db))"

section \<open>What the code relies on\<close>

text \<open>\<open>rows\<close> are the committed rows; \<open>pending\<close> the rows inserted by the open transaction.  Nothing but a
  successful commit or delete changes the committed rows.\<close>

definition transactional :: "'db sql_driver \<Rightarrow> ('db \<Rightarrow> log_row list) \<Rightarrow> ('db \<Rightarrow> log_row list) \<Rightarrow> bool" where
  "transactional drv rows pending \<longleftrightarrow>
     (\<forall>db ok db'. sd_begin drv db = (ok, db') \<longrightarrow> rows db' = rows db \<and> (ok \<longrightarrow> pending db' = [])) \<and>
     (\<forall>db ok db'. sd_prepare drv db = (ok, db') \<longrightarrow> rows db' = rows db \<and> pending db' = pending db) \<and>
     (\<forall>r db ok db'. sd_insert drv r db = (ok, db') \<longrightarrow> rows db' = rows db \<and> (ok \<longrightarrow> pending db' = pending db @ [r])) \<and>
     (\<forall>db ok db'. sd_commit drv db = (ok, db') \<longrightarrow>
        rows db' = (if ok then rows db @ pending db else rows db)) \<and>
     (\<forall>db. rows (sd_rollback drv db) = rows db) \<and>
     (\<forall>ts db n db'. sd_delete_before drv ts db = (n, db') \<longrightarrow>
        rows db' = (if n = None then rows db else filter (\<lambda>r. \<not> lr_ts r < ts) (rows db)))"

lemma transactionalD:
  assumes "transactional drv rows pending"
  shows "sd_begin drv db = (ok, db') \<Longrightarrow> rows db' = rows db \<and> (ok \<longrightarrow> pending db' = [])"
    "sd_prepare drv db = (ok, db') \<Longrightarrow> rows db' = rows db \<and> pending db' = pending db"
    "sd_insert drv r db = (ok, db') \<Longrightarrow> rows db' = rows db \<and> (ok \<longrightarrow> pending db' = pending db @ [r])"
    "sd_commit drv db = (ok, db') \<Longrightarrow> rows db' = (if ok then rows db @ pending db else rows db)"
    "rows (sd_rollback drv db) = rows db"
    "sd_delete_before drv ts db = (n, db') \<Longrightarrow>
      rows db' = (if n = None then rows db else filter (\<lambda>r. \<not> lr_ts r < ts) (rows db))"
  using assms unfolding transactional_def by blast+

section \<open>Lemmas\<close>

definition batch_rows :: "(nat \<Rightarrow> go_time) \<Rightarrow> nat \<Rightarrow>
    log_entry list \<Rightarrow> log_row list" where
  "batch_rows clock i entries =
     map (\<lambda>(j, entry). log_row_of (clock j) entry) (zip [i..<i + length entries] entries)"

lemma batch_rows_Cons:
  "batch_rows clock i (entry # entries) =
    log_row_of (clock i) entry # batch_rows clock (Suc i) entries"
  by (simp add: batch_rows_def upt_rec [of i] Suc_le_eq)

lemma insert_rows_pending:
  assumes "transactional drv rows pending" "insert_rows drv clock i entries db = (ok, db')"
  shows "rows db' = rows db \<and> (ok \<longrightarrow> pending db' = pending db @ batch_rows clock i entries)"
  using assms(2)
proof (induction entries arbitrary: i db)
  case Nil
  then show ?case by (simp add: batch_rows_def)
next
  case (Cons entry entries)
  obtain ok1 db1 where ins: "sd_insert drv (log_row_of (clock i) entry) db = (ok1, db1)"
    by (metis surj_pair)
  from transactionalD(3) [OF assms(1) ins] Cons ins show ?case
    by (cases ok1) (fastforce simp: batch_rows_Cons)+
qed

lemma surj_bool_pair: obtains ok db' where "p = (ok :: bool, db')"
  by (cases p)

lemma WriteBatch_rows:
  assumes "transactional drv rows pending" "WriteBatch drv clock entries db = (err, db')"
  shows "rows db' = (if err = None then rows db @ batch_rows clock 0 entries else rows db)"
proof (cases "entries = []")
  case True
  then show ?thesis using assms(2) by (auto simp: WriteBatch_def batch_rows_def)
next
  case False
  note laws = transactionalD [OF assms(1)]
  obtain ok1 db1 where b: "sd_begin drv db = (ok1, db1)" by (rule surj_bool_pair)
  obtain ok2 db2 where p: "sd_prepare drv db1 = (ok2, db2)" by (rule surj_bool_pair)
  obtain ok3 db3 where i: "insert_rows drv clock 0 entries db2 = (ok3, db3)" by (rule surj_bool_pair)
  obtain ok4 db4 where c: "sd_commit drv db3 = (ok4, db4)" by (rule surj_bool_pair)
  show ?thesis
    using assms(2) False laws(1) [OF b] laws(2) [OF p] insert_rows_pending [OF assms(1) i] laws(4) [OF c] laws(5)
    by (auto simp: WriteBatch_def b p i c split: if_splits)
qed

definition qmarks :: "string \<Rightarrow> nat" where
  "qmarks s = length (filter (\<lambda>c. c = CHR ''?'') s)"

lemma qmarks_append [simp]: "qmarks (s @ t) = qmarks s + qmarks t"
  by (simp add: qmarks_def)

lemma qmarks_Join: "qmarks sep = 0 \<Longrightarrow> qmarks (Join ts sep) = sum_list (map qmarks ts)"
  by (induction ts sep rule: Join.induct) (simp_all add: qmarks_def)

lemma conditions_qmarks: "(t, a) \<in> set (query_conditions f) \<Longrightarrow> qmarks t = 1"
  by (auto simp: query_conditions_def qmarks_def split: option.splits if_splits)

lemma sum_conditions: "\<forall>(t, a) \<in> set cs. qmarks t = 1 \<Longrightarrow> sum_list (map (qmarks \<circ> fst) cs) = length cs"
  by (induction cs) auto

text \<open>Two filters of one shape set the same fields.\<close>

definition same_shape :: "log_filter \<Rightarrow> log_filter \<Rightarrow> bool" where
  "same_shape f g \<longleftrightarrow> (lf_StartTime f = None \<longleftrightarrow> lf_StartTime g = None) \<and>
     (lf_EndTime f = None \<longleftrightarrow> lf_EndTime g = None) \<and> (lf_Level f = [] \<longleftrightarrow> lf_Level g = []) \<and>
     (lf_Service f = [] \<longleftrightarrow> lf_Service g = []) \<and> (lf_Search f = [] \<longleftrightarrow> lf_Search g = []) \<and>
     (lf_Offset f > 0 \<longleftrightarrow> lf_Offset g > 0)"

lemma same_shape_conditions:
  assumes "same_shape f g"
  shows "map fst (query_conditions f) = map fst (query_conditions g)"
proof -
  have opt: "map fst (case x of None \<Rightarrow> [] | Some t \<Rightarrow> [(c, h t)]) = (if x = None then [] else [c])"
    for x :: "go_time option" and c :: string and h :: "go_time \<Rightarrow> sql_arg" by (simp split: option.split)
  show ?thesis using assms by (simp add: query_conditions_def same_shape_def opt)
qed

lemma UnixMilli_mono: "s \<le> t \<Longrightarrow> UnixMilli s \<le> UnixMilli t"
  by (simp add: UnixMilli_def zdiv_mono1)

section \<open>Properties\<close>

text \<open>C7. \<open>WriteBatch\<close> is atomic: whatever the driver does at any of its calls, either it returns no
  error and the committed rows have grown by exactly the rows of all entries, in order, or it
  returns an error and the committed rows are unchanged.\<close>

theorem write_batch_atomic:
  assumes "transactional drv rows pending"
  shows "case WriteBatch drv clock entries db of
      (None, db') \<Rightarrow> rows db' = rows db @ batch_rows clock 0 entries
    | (Some e, db') \<Rightarrow> rows db' = rows db"
  using WriteBatch_rows [OF assms] by (simp split: prod.split option.split)

text \<open>A driver over two lists; the number is how many inserts succeed before the driver fails.\<close>

definition sample_driver :: "(log_row list \<times> log_row list \<times> nat) sql_driver" where
  "sample_driver = \<lparr>
     sd_begin = (\<lambda>(rows, pending, n). (True, (rows, [], n))),
     sd_prepare = (\<lambda>db. (True, db)),
     sd_insert = (\<lambda>r (rows, pending, n). if n = 0 then (False, (rows, pending, n)) else (True, (rows, pending @ [r], n - 1))),
     sd_commit = (\<lambda>(rows, pending, n). (True, (rows @ pending, [], n))),
     sd_rollback = (\<lambda>(rows, pending, n). (rows, [], n)),
     sd_query = (\<lambda>q args db. None),
     sd_delete_before = (\<lambda>ts (rows, pending, n). (Some (int (length (filter (\<lambda>r. lr_ts r < ts) rows))),
       (filter (\<lambda>r. \<not> lr_ts r < ts) rows, pending, n)))\<rparr>"

lemma sample_driver_transactional: "transactional sample_driver fst (\<lambda>db. fst (snd db))"
  by (auto simp: transactional_def sample_driver_def split: if_splits)

definition sample_log :: "go_time \<Rightarrow> string \<Rightarrow> log_entry" where
  "sample_log t m = \<lparr>le_ID = 0, le_Timestamp = t, le_Level = '' warn '', le_Service = [], le_Message = m,
     le_Attributes = [(''k'', ''v'')]\<rparr>"

theorem write_batch_atomic_witness:
  "fst (snd (WriteBatch sample_driver (\<lambda>i. 5) [sample_log 1000000 ''a'', sample_log 0 ''b''] ([], [], 1))) = [] \<and>
   fst (snd (WriteBatch sample_driver (\<lambda>i. 5) [sample_log 1000000 ''a''] ([], [], 1))) =
     batch_rows (\<lambda>i. 5) 0 [sample_log 1000000 ''a'']"
proof -
  have "fst (WriteBatch sample_driver (\<lambda>i. 5) [sample_log 1000000 ''a'', sample_log 0 ''b''] ([], [], 1)) =
      Some InsertFailed"
    "fst (WriteBatch sample_driver (\<lambda>i. 5) [sample_log 1000000 ''a''] ([], [], 1)) = None"
    by code_simp+
  then show ?thesis
    using write_batch_atomic [OF sample_driver_transactional, where clock = "\<lambda>i. 5" and entries = "[sample_log 1000000 ''a'', sample_log 0 ''b'']" and db = "([], [], 1)"]
      write_batch_atomic [OF sample_driver_transactional, where clock = "\<lambda>i. 5" and entries = "[sample_log 1000000 ''a'']" and db = "([], [], 1)"]
    by (auto split: prod.splits option.splits)
qed

text \<open>C25. Queries cannot be injected: the text that \<open>QueryLogs\<close> sends depends only on which fields of the
  filter are set, never on their contents; it has exactly as many placeholders as arguments; and
  the limit is always between 1 and 1000.\<close>

theorem query_parameterised:
  shows "(same_shape f g \<longrightarrow> fst (build_query f) = fst (build_query g)) \<and>
    qmarks (fst (build_query f)) = length (snd (build_query f)) \<and>
    1 \<le> query_limit (lf_Limit f) \<and> query_limit (lf_Limit f) \<le> 1000 \<and>
    ArgInt (query_limit (lf_Limit f)) \<in> set (snd (build_query f))"
proof (intro conjI impI)
  show "fst (build_query f) = fst (build_query g)" if "same_shape f g"
  proof -
    have "query_conditions f = [] \<longleftrightarrow> query_conditions g = []"
      using same_shape_conditions [OF that] by (metis map_is_Nil_conv)
    moreover have "lf_Offset f > 0 \<longleftrightarrow> lf_Offset g > 0" using that by (simp add: same_shape_def)
    ultimately show ?thesis using same_shape_conditions [OF that] by (simp add: build_query_def Let_def)
  qed
  have "qmarks (Join (map fst (query_conditions f)) '' AND '') = length (query_conditions f)"
    using sum_conditions [of "query_conditions f"] conditions_qmarks [of _ _ f]
    by (simp add: qmarks_Join qmarks_def [of "'' AND ''"]) blast
  then show "qmarks (fst (build_query f)) = length (snd (build_query f))"
    by (auto simp: build_query_def Let_def qmarks_def)
qed (auto simp: query_limit_def build_query_def Let_def)

definition sample_filter :: "string \<Rightarrow> log_filter" where
  "sample_filter search = \<lparr>lf_StartTime = Some 5, lf_EndTime = None, lf_Level = ''warn'', lf_Service = [],
     lf_Search = search, lf_Limit = 5000, lf_Offset = 0\<rparr>"

theorem query_parameterised_witness:
  "fst (build_query (sample_filter ''x''))  = fst (build_query (sample_filter ''x' OR '1'='1''))"
proof -
  have "same_shape (sample_filter ''x'') (sample_filter ''x' OR '1'='1'')"
    by (simp add: same_shape_def sample_filter_def)
  then show ?thesis
    using query_parameterised [of "sample_filter ''x''" "sample_filter ''x' OR '1'='1''"] by simp
qed

text \<open>C26. A log entry survives storage: reading back the row that \<open>WriteBatch\<close> writes for an entry whose
  timestamp is not in the first millisecond of 1970 gives the entry with its number, the timestamp
  rounded down to milliseconds, level and service trimmed (level in upper case, with the defaults
  \<open>INFO\<close> and \<open>default\<close>), the message unchanged, and the same attributes, whatever valid UTF-8 they
  contain: quotes, control characters and markup are escaped and restored.\<close>

theorem log_row_roundtrip:
  assumes "attributes_ok (le_Attributes entry)" "UnixMilli (le_Timestamp entry) \<noteq> 0"
  shows "entry_of_row (n, lr_ts (log_row_of now entry), lr_level (log_row_of now entry),
      lr_service (log_row_of now entry), lr_message (log_row_of now entry), Some (lr_attributes (log_row_of now entry))) =
    \<lparr>le_ID = n, le_Timestamp = le_Timestamp entry - le_Timestamp entry mod 1000000,
      le_Level = (if TrimSpace (le_Level entry) = [] then ''INFO'' else ToUpper (TrimSpace (le_Level entry))),
      le_Service = (if TrimSpace (le_Service entry) = [] then ''default'' else TrimSpace (le_Service entry)),
      le_Message = le_Message entry, le_Attributes = sort_key fst (le_Attributes entry)\<rparr>"
proof -
  have "ToUpper s = [] \<longleftrightarrow> s = []" for s by (cases s rule: ToUpper.cases) (simp_all split: list.split)
  moreover have "UnixMilli t * 1000000 = t - t mod 1000000" for t
    by (simp add: UnixMilli_def minus_mod_eq_div_mult)
  ultimately show ?thesis
    using assms unmarshal_marshal_attributes [OF assms(1)] marshal_attributes_nonempty [of "le_Attributes entry"]
    by (simp add: log_row_of_def entry_of_row_def Let_def time_UnixMilli_def)
qed

theorem log_row_roundtrip_witness:
  "entry_of_row (7, lr_ts (log_row_of 0 (sample_log 1234567 ''m'')), lr_level (log_row_of 0 (sample_log 1234567 ''m'')),
      lr_service (log_row_of 0 (sample_log 1234567 ''m'')), lr_message (log_row_of 0 (sample_log 1234567 ''m'')),
      Some (lr_attributes (log_row_of 0 (sample_log 1234567 ''m'')))) =
    \<lparr>le_ID = 7, le_Timestamp = 1000000, le_Level = ''WARN'', le_Service = ''default'', le_Message = ''m'',
      le_Attributes = [(''k'', ''v'')]\<rparr>"
proof -
  have "TrimSpace '' warn '' = ''warn''" "ToUpper ''warn'' = ''WARN''" "TrimSpace [] = []" by code_simp+
  moreover have "attributes_ok (le_Attributes (sample_log 1234567 ''m''))" by code_simp
  ultimately show ?thesis
    using log_row_roundtrip [of "sample_log 1234567 ''m''" 7 0] by (simp add: sample_log_def UnixMilli_def)
qed

text \<open>C28. Retention: after a successful \<open>PruneOldLogs\<close>, the committed rows are those whose timestamp is
  not before \<open>now - retention\<close>: the row of an entry at or after that time is kept, that of an entry
  at least one millisecond older is gone.  In particular an entry without a timestamp (the zero
  \<open>time.Time\<close>, which the test \<open>ts == 0\<close> of \<open>WriteBatch\<close> does not recognise) is stored with the
  year 1 and deleted by the next prune.\<close>

theorem prune_retention:
  assumes "transactional drv rows pending" "PruneOldLogs drv now retention db = (Inr n, db')"
  shows "rows db' = filter (\<lambda>r. prune_threshold now retention \<le> lr_ts r) (rows db) \<and>
    (UnixMilli (le_Timestamp entry) \<noteq> 0 \<longrightarrow> now - retention \<le> le_Timestamp entry \<longrightarrow>
      prune_threshold now retention \<le> lr_ts (log_row_of clk entry)) \<and>
    (UnixMilli (le_Timestamp entry) \<noteq> 0 \<longrightarrow> le_Timestamp entry \<le> now - retention - Millisecond \<longrightarrow>
      lr_ts (log_row_of clk entry) < prune_threshold now retention) \<and>
    (0 \<le> now \<longrightarrow> retention \<le> maxDuration \<longrightarrow> le_Timestamp entry = zero_time \<longrightarrow>
      lr_ts (log_row_of clk entry) < prune_threshold now retention)"
proof -
  obtain k where k: "sd_delete_before drv (prune_threshold now retention) db = (Some k, db')"
    using assms(2) by (auto simp: PruneOldLogs_def split: prod.splits option.splits)
  have "rows db' = filter (\<lambda>r. prune_threshold now retention \<le> lr_ts r) (rows db)"
    using transactionalD(6) [OF assms(1) k] by (simp add: not_less)
  moreover have ts: "lr_ts (log_row_of clk entry) = UnixMilli (le_Timestamp entry)"
    if "UnixMilli (le_Timestamp entry) \<noteq> 0" using that by (simp add: log_row_of_def Let_def)
  moreover have "UnixMilli t < prune_threshold now retention" if "t \<le> now - retention - Millisecond" for t
    using UnixMilli_mono [OF that] by (simp add: prune_threshold_def UnixMilli_def Millisecond_def)
  moreover have "UnixMilli zero_time \<noteq> 0" by (simp add: UnixMilli_def zero_time_def Second_def)
  moreover have "zero_time \<le> now - retention - Millisecond" if "0 \<le> now" "retention \<le> maxDuration"
    using that by (simp add: zero_time_def Millisecond_def maxDuration_def Second_def)
  ultimately show ?thesis using UnixMilli_mono [of "now - retention" "le_Timestamp entry"]
    by (auto simp: prune_threshold_def)
qed

theorem prune_retention_witness:
  "fst (snd (PruneOldLogs sample_driver (100 * Second) (10 * Second)
      ([log_row_of 0 (sample_log zero_time ''a''), log_row_of 0 (sample_log (95 * Second) ''b'')], [], 0))) =
    filter (\<lambda>r. prune_threshold (100 * Second) (10 * Second) \<le> lr_ts r)
      [log_row_of 0 (sample_log zero_time ''a''), log_row_of 0 (sample_log (95 * Second) ''b'')]"
proof -
  let ?db = "([log_row_of 0 (sample_log zero_time ''a''), log_row_of 0 (sample_log (95 * Second) ''b'')],
    [] :: log_row list, 0 :: nat)"
  obtain n db' where p: "PruneOldLogs sample_driver (100 * Second) (10 * Second) ?db = (Inr n, db')"
    by (simp add: PruneOldLogs_def sample_driver_def)
  from prune_retention [OF sample_driver_transactional p] show ?thesis by (simp only: p snd_conv fst_conv)
qed

end
