(* ===== verification/Sqlite_Open.thy ===== *)
theory Sqlite_Open
  imports Sqlite_Storage
begin

text \<open>
  Opening and closing the database, \<open>NewSQLiteStorage\<close>, \<open>initSchema\<close> and \<open>Close\<close> of
  \<open>internal/storage/sqlite.go\<close>, over the connection pool of \<open>database/sql\<close>; and \<open>CountLogs\<close>.
\<close>

section \<open>The connection pool\<close>

text \<open>A connection is known by the statements that were executed on it.  The pool holds the connections
  that are not in use; a caller gets one of them, or a new one.\<close>

record sql_pool =
  pl_free :: "string list list"
  pl_closed :: bool

definition borrow :: "sql_pool \<Rightarrow> string list \<times> sql_pool" where
  "borrow pool = (case pl_free pool of
     [] \<Rightarrow> ([], pool)
   | c # cs \<Rightarrow> (c, pool\<lparr>pl_free := cs\<rparr>))"

text \<open>\<open>DB.Exec\<close> of a statement that succeeds or not.\<close>

definition db_Exec :: "(string \<Rightarrow> bool) \<Rightarrow> string \<Rightarrow> sql_pool \<Rightarrow> bool \<times> sql_pool" where
  "db_Exec ok stmt pool = (case borrow pool of (c, pool) \<Rightarrow>
     (ok stmt, pool\<lparr>pl_free := (if ok stmt then c @ [stmt] else c) # pl_free pool\<rparr>))"

section \<open>Opening\<close>

definition sqlite_pragmas :: "string list" where
  "sqlite_pragmas = [''PRAGMA journal_mode=WAL;'', ''PRAGMA synchronous=NORMAL;'', ''PRAGMA busy_timeout=5000;'',
     ''PRAGMA foreign_keys=ON;'', ''PRAGMA cache_size=-2000;'']"

definition sqlite_schema :: string where
  "sqlite_schema = [CHR 0x0A] @ concat (map (\<lambda>l. (if l = [] then [] else [CHR 0x09]) @ l @ [CHR 0x0A])
     [''CREATE TABLE IF NOT EXISTS system_logs ('',
      CHR 0x09 # ''id INTEGER PRIMARY KEY AUTOINCREMENT,'',
      CHR 0x09 # ''timestamp INTEGER NOT NULL,'',
      CHR 0x09 # ''level TEXT NOT NULL,'',
      CHR 0x09 # ''service TEXT NOT NULL,'',
      CHR 0x09 # ''message TEXT NOT NULL,'',
      CHR 0x09 # ''attributes TEXT'',
      '');'',
      [],
      ''CREATE INDEX IF NOT EXISTS idx_logs_timestamp ON system_logs(timestamp DESC);'',
      ''CREATE INDEX IF NOT EXISTS idx_logs_service_ts ON system_logs(service, timestamp DESC);'',
      ''CREATE INDEX IF NOT EXISTS idx_logs_level_ts ON system_logs(level, timestamp DESC);'']) @ [CHR 0x09]"

text \<open>The error is the statement that failed.\<close>

fun exec_pragmas :: "(string \<Rightarrow> bool) \<Rightarrow> string list \<Rightarrow> sql_pool \<Rightarrow> string option \<times> sql_pool" where
  "exec_pragmas ok [] pool = (None, pool)"
| "exec_pragmas ok (pragma # pragmas) pool = (case db_Exec ok pragma pool of (success, pool) \<Rightarrow>
     if success then exec_pragmas ok pragmas pool else (Some pragma, pool))"

definition initSchema :: "(string \<Rightarrow> bool) \<Rightarrow> sql_pool \<Rightarrow> string option \<times> sql_pool" where
  "initSchema ok pool = (case exec_pragmas ok sqlite_pragmas pool of
     (Some pragma, pool) \<Rightarrow> (Some pragma, pool)
   | (None, pool) \<Rightarrow> (case db_Exec ok sqlite_schema pool of (success, pool) \<Rightarrow>
       (if success then None else Some sqlite_schema, pool)))"

definition sqlite_Close :: "sql_pool \<Rightarrow> sql_pool" where
  "sqlite_Close pool = pool\<lparr>pl_free := [], pl_closed := True\<rparr>"

datatype open_error = SqlOpenFailed string | SchemaFailed string

text \<open>\<open>opened\<close> is the outcome of \<open>sql.Open\<close>, which does not connect yet.  An error leaves a closed pool.\<close>

definition NewSQLiteStorage :: "bool \<Rightarrow> (string \<Rightarrow> bool) \<Rightarrow> string \<Rightarrow> open_error + (string \<times> sql_pool)" where
  "NewSQLiteStorage opened ok dbPath =
     (let dbPath = (if dbPath = [] then ''sugi.db'' else dbPath)
      in if \<not> opened then Inl (SqlOpenFailed dbPath)
         else case initSchema ok \<lparr>pl_free = [], pl_closed = False\<rparr> of
           (Some stmt, pool) \<Rightarrow> Inl (SchemaFailed stmt)
         | (None, pool) \<Rightarrow> Inr (dbPath, pool))"

text \<open>\<open>rows\<close> is the answer to \<open>SELECT COUNT(*) FROM system_logs\<close>.\<close>

definition CountLogs :: "int option \<Rightarrow> int \<times> storage_error option" where
  "CountLogs rows = (case rows of None \<Rightarrow> (0, Some CountFailed) | Some n \<Rightarrow> (n, None))"

section \<open>Lemmas\<close>

lemma exec_pragmas_all:
  "\<forall>p \<in> set ps. ok p \<Longrightarrow> exec_pragmas ok ps \<lparr>pl_free = [c], pl_closed = b\<rparr> = (None, \<lparr>pl_free = [c @ ps], pl_closed = b\<rparr>)"
  by (induction ps arbitrary: c) (simp_all add: db_Exec_def borrow_def)

lemma exec_pragmas_fresh:
  "\<forall>p \<in> set ps. ok p \<Longrightarrow> ps \<noteq> [] \<Longrightarrow>
   exec_pragmas ok ps \<lparr>pl_free = [], pl_closed = b\<rparr> = (None, \<lparr>pl_free = [ps], pl_closed = b\<rparr>)"
  by (cases ps) (simp_all add: db_Exec_def borrow_def exec_pragmas_all)

lemma exec_pragmas_first:
  "\<exists>p \<in> set ps. \<not> ok p \<Longrightarrow> \<exists>p pool'. exec_pragmas ok ps pool = (Some p, pool') \<and> p \<in> set ps \<and> \<not> ok p"
proof (induction ps arbitrary: pool)
  case (Cons p ps)
  obtain c pool0 where "borrow pool = (c, pool0)"
    by (cases "borrow pool")
  then obtain pool1 where "db_Exec ok p pool = (ok p, pool1)"
    by (simp add: db_Exec_def)
  note E = this
  show ?case
  proof (cases "ok p")
    case True
    then have "\<exists>p \<in> set ps. \<not> ok p"
      using Cons.prems by auto
    from Cons.IH [OF this, of pool1] E True show ?thesis
      by (elim exE conjE) (intro exI conjI, simp_all)
  next
    case False
    then show ?thesis
      using E by simp
  qed
qed simp

lemma no_pragmas_left: "sqlite_pragmas \<noteq> []"
  by (simp add: sqlite_pragmas_def)

text \<open>Opening succeeds exactly when every statement does; then all of them have been executed on one
  connection.  The settings of a connection are its own, except for the journal mode: the next
  connection that the pool opens, as soon as the first is in use, has none of them.\<close>

lemma settings_on_one_connection:
  assumes "\<forall>stmt. ok stmt"
  shows "\<exists>pool. NewSQLiteStorage True ok path = Inr (if path = [] then ''sugi.db'' else path, pool) \<and>
    fst (borrow pool) = sqlite_pragmas @ [sqlite_schema] \<and> fst (borrow (snd (borrow pool))) = []"
proof -
  have "exec_pragmas ok sqlite_pragmas \<lparr>pl_free = [], pl_closed = False\<rparr> =
      (None, \<lparr>pl_free = [sqlite_pragmas], pl_closed = False\<rparr>)"
    using assms by (intro exec_pragmas_fresh no_pragmas_left) simp
  then have "NewSQLiteStorage True ok path = Inr (if path = [] then ''sugi.db'' else path,
      \<lparr>pl_free = [sqlite_pragmas @ [sqlite_schema]], pl_closed = False\<rparr>)"
    using assms by (simp add: NewSQLiteStorage_def initSchema_def db_Exec_def borrow_def)
  then show ?thesis
    by (simp add: borrow_def)
qed

lemma open_fails:
  assumes "\<exists>stmt \<in> set sqlite_pragmas \<union> {sqlite_schema}. \<not> ok stmt"
  shows "\<exists>stmt. NewSQLiteStorage True ok path = Inl (SchemaFailed stmt) \<and> \<not> ok stmt"
proof (cases "\<exists>p \<in> set sqlite_pragmas. \<not> ok p")
  case True
  then show ?thesis
    using exec_pragmas_first [OF True, of "\<lparr>pl_free = [], pl_closed = False\<rparr>"]
    by (auto simp: NewSQLiteStorage_def initSchema_def)
next
  case False
  then have "exec_pragmas ok sqlite_pragmas \<lparr>pl_free = [], pl_closed = False\<rparr> =
      (None, \<lparr>pl_free = [sqlite_pragmas], pl_closed = False\<rparr>)"
    by (intro exec_pragmas_fresh no_pragmas_left) simp
  moreover have "\<not> ok sqlite_schema"
    using assms False by blast
  ultimately show ?thesis
    by (simp add: NewSQLiteStorage_def initSchema_def db_Exec_def borrow_def)
qed

end
