(* ===== verification/Log_Query.thy ===== *)
theory Log_Query
  imports Sqlite_Storage "HOL-Library.Multiset"
begin

text \<open>
  What \<open>QueryLogs\<close> of \<open>internal/storage/sqlite.go\<close> returns: the meaning of the statements it builds,
  as SQLite documents it, and the specification that its results meet.
\<close>

section \<open>The meaning of a statement\<close>

text \<open>\<open>LIKE\<close> without an escape character: a percent sign stands for any text, an underscore for one
  character, and ASCII letters match without regard to case.\<close>

function like :: "string \<Rightarrow> string \<Rightarrow> bool" where
  "like [] s \<longleftrightarrow> s = []"
| "like (p # ps) s \<longleftrightarrow>
     (if p = CHR ''%'' then like ps s \<or> (case s of [] \<Rightarrow> False | c # t \<Rightarrow> like (p # ps) t)
      else (case s of
          [] \<Rightarrow> False
        | c # t \<Rightarrow>
            if p = CHR ''_'' then like ps (drop (max 1 (rune_len s)) s)
            else lower_byte p = lower_byte c \<and> like ps t))"
  by pat_completeness auto

termination
  by (relation "measures [\<lambda>(p, s). length p, \<lambda>(p, s). length s]") auto

declare like.simps(2) [simp del]

definition condition_holds :: "string \<times> sql_arg \<Rightarrow> log_row \<Rightarrow> bool" where
  "condition_holds c r \<longleftrightarrow> (case c of
     (t, ArgInt n) \<Rightarrow> t = ''timestamp >= ?'' \<and> n \<le> lr_ts r \<or> t = ''timestamp <= ?'' \<and> lr_ts r \<le> n
   | (t, ArgText x) \<Rightarrow> t = ''level = ?'' \<and> lr_level r = x \<or> t = ''service = ?'' \<and> lr_service r = x \<or>
       t = ''message LIKE ?'' \<and> like x (lr_message r))"

definition known_conditions :: "string list" where
  "known_conditions = [''timestamp >= ?'', ''timestamp <= ?'', ''level = ?'', ''service = ?'', ''message LIKE ?'']"

definition select_text :: "string list \<Rightarrow> bool \<Rightarrow> string" where
  "select_text conds offset =
     ''SELECT id, timestamp, level, service, message, attributes FROM system_logs'' @
     (if conds = [] then [] else '' WHERE '' @ Join conds '' AND '') @ '' ORDER BY timestamp DESC LIMIT ?'' @
     (if offset then '' OFFSET ?'' else [])"

definition raw_of :: "int \<times> log_row \<Rightarrow> raw_row" where
  "raw_of = (\<lambda>(i, r). Some (i, lr_ts r, lr_level r, lr_service r, lr_message r, Some (lr_attributes r)))"

text \<open>The rows selected, newest first; the order of rows with the same timestamp is open.\<close>

definition newest_first :: "(int \<times> log_row \<Rightarrow> bool) \<Rightarrow> (int \<times> log_row) list \<Rightarrow> (int \<times> log_row) list \<Rightarrow> bool" where
  "newest_first P stored xs \<longleftrightarrow> mset xs = mset (filter P stored) \<and>
     sorted_wrt (\<lambda>a b. lr_ts (snd b) \<le> lr_ts (snd a)) xs"

text \<open>\<open>raw\<close> is an answer to a statement with these arguments: for every way to read the statement as a
  selection with a limit and an offset.\<close>

definition sql_answer :: "string \<Rightarrow> sql_arg list \<Rightarrow> (int \<times> log_row) list \<Rightarrow> raw_row list \<Rightarrow> bool" where
  "sql_answer query args stored raw \<longleftrightarrow>
     (\<forall>conds limit offset. set (map fst conds) \<subseteq> set known_conditions \<and> 0 \<le> limit \<and> 0 \<le> offset \<and>
        query = select_text (map fst conds) (offset > 0) \<and>
        args = map snd conds @ [ArgInt limit] @ (if offset > 0 then [ArgInt offset] else []) \<longrightarrow>
        (\<exists>xs. newest_first (\<lambda>(i, r). \<forall>c \<in> set conds. condition_holds c r) stored xs \<and>
          raw = map raw_of (take (nat limit) (drop (nat offset) xs))))"

text \<open>What is relied on: an answer that the driver delivers without an error is one to the statement.\<close>

definition answers_queries :: "'db sql_driver \<Rightarrow> ('db \<Rightarrow> (int \<times> log_row) list) \<Rightarrow> bool" where
  "answers_queries drv stored \<longleftrightarrow>
     (\<forall>query args db raw. sd_query drv query args db = Some (raw, False) \<longrightarrow> sql_answer query args (stored db) raw)"

section \<open>Specification\<close>

text \<open>Which rows a filter asks for.\<close>

definition matches :: "log_filter \<Rightarrow> log_row \<Rightarrow> bool" where
  "matches f r \<longleftrightarrow>
     (case lf_StartTime f of None \<Rightarrow> True | Some t \<Rightarrow> UnixMilli t \<le> lr_ts r) \<and>
     (case lf_EndTime f of None \<Rightarrow> True | Some t \<Rightarrow> lr_ts r \<le> UnixMilli t) \<and>
     (lf_Level f \<noteq> [] \<longrightarrow> lr_level r = ToUpper (lf_Level f)) \<and>
     (lf_Service f \<noteq> [] \<longrightarrow> lr_service r = lf_Service f) \<and>
     Contains (map lower_byte (lr_message r)) (map lower_byte (lf_Search f))"

definition entry_of :: "int \<times> log_row \<Rightarrow> log_entry" where
  "entry_of = (\<lambda>(i, r). entry_of_row (i, lr_ts r, lr_level r, lr_service r, lr_message r, Some (lr_attributes r)))"

section \<open>Lemmas\<close>

lemma like_percent: "like (CHR ''%'' # ps) s \<longleftrightarrow> (\<exists>a b. s = a @ b \<and> like ps b)"
proof (induction s)
  case (Cons c s)
  have "(\<exists>a b. c # s = a @ b \<and> like ps b) \<longleftrightarrow> like ps (c # s) \<or> (\<exists>a b. s = a @ b \<and> like ps b)"
    by (metis append_Cons append_Nil append_eq_Cons_conv)
  then show ?case
    using Cons by (simp add: like.simps(2) [of _ _ "c # s"])
qed (simp add: like.simps(2))

definition no_wildcard :: "string \<Rightarrow> bool" where
  "no_wildcard w \<longleftrightarrow> CHR ''%'' \<notin> set w \<and> CHR ''_'' \<notin> set w"

lemma like_plain:
  "no_wildcard w \<Longrightarrow> like (w @ ps) s \<longleftrightarrow> (\<exists>u v. s = u @ v \<and> map lower_byte u = map lower_byte w \<and> like ps v)"
proof (induction w arbitrary: s)
  case (Cons p w)
  note IH = Cons.IH
  have p: "p \<noteq> CHR ''%''" "p \<noteq> CHR ''_''" and w: "no_wildcard w"
    using Cons.prems by (auto simp: no_wildcard_def)
  show ?case
  proof (cases s)
    case (Cons c t)
    have "like ((p # w) @ ps) (c # t) \<longleftrightarrow> lower_byte p = lower_byte c \<and> like (w @ ps) t"
      using p by (simp add: like.simps(2))
    also have "\<dots> \<longleftrightarrow> (\<exists>u v. c # t = (c # u) @ v \<and> map lower_byte (c # u) = map lower_byte (p # w) \<and> like ps v)"
      unfolding IH [OF w] by (simp add: eq_commute [of "lower_byte p"]) blast
    also have "\<dots> \<longleftrightarrow> (\<exists>u v. c # t = u @ v \<and> map lower_byte u = map lower_byte (p # w) \<and> like ps v)"
    proof
      assume "\<exists>u v. c # t = u @ v \<and> map lower_byte u = map lower_byte (p # w) \<and> like ps v"
      then obtain u v where u: "c # t = u @ v" "map lower_byte u = map lower_byte (p # w)" "like ps v"
        by blast
      then obtain d u' where "u = d # u'"
        by (cases u) simp_all
      with u show "\<exists>u v. c # t = (c # u) @ v \<and> map lower_byte (c # u) = map lower_byte (p # w) \<and> like ps v"
        by auto
    qed blast
    finally show ?thesis
      unfolding Cons .
  qed (use p in \<open>simp add: like.simps(2)\<close>)
qed simp

text \<open>A search without wildcards is a search for the text.\<close>

lemma like_search:
  assumes "no_wildcard w"
  shows "like (''%'' @ w @ ''%'') s \<longleftrightarrow> Contains (map lower_byte s) (map lower_byte w)"
proof -
  have any: "like ''%'' v" for v
    by (simp add: like_percent)
  have "like (''%'' @ w @ ''%'') s \<longleftrightarrow> (\<exists>a u v. s = a @ u @ v \<and> map lower_byte u = map lower_byte w)"
    using like_plain [OF assms, of "''%''"] by (simp add: like_percent any) blast
  also have "\<dots> \<longleftrightarrow> Contains (map lower_byte s) (map lower_byte w)"
  proof
    assume "\<exists>a u v. s = a @ u @ v \<and> map lower_byte u = map lower_byte w"
    then show "Contains (map lower_byte s) (map lower_byte w)"
      unfolding Contains_iff by (metis map_append)
  next
    assume "Contains (map lower_byte s) (map lower_byte w)"
    then obtain x y where "map lower_byte s = x @ map lower_byte w @ y"
      by (auto simp: Contains_iff)
    then obtain a b where a: "s = a @ b" "map lower_byte b = map lower_byte w @ y"
      by (metis map_eq_append_conv)
    then obtain u v where "b = u @ v" "map lower_byte u = map lower_byte w"
      by (metis map_eq_append_conv)
    with a(1) show "\<exists>a u v. s = a @ u @ v \<and> map lower_byte u = map lower_byte w"
      by blast
  qed
  finally show ?thesis .
qed

text \<open>A percent sign in the search is a wildcard: this search finds a message that does not contain it.\<close>

lemma wildcard_search: "like (''%'' @ ''5%0'' @ ''%'') ''takes 5 of 10'' \<and> \<not> Contains ''takes 5 of 10'' ''5%0''"
  by code_simp

lemma build_query_text:
  "build_query f = (select_text (map fst (query_conditions f)) (max 0 (lf_Offset f) > 0),
     map snd (query_conditions f) @ [ArgInt (query_limit (lf_Limit f))] @
       (if max 0 (lf_Offset f) > 0 then [ArgInt (max 0 (lf_Offset f))] else []))"
  by (simp add: build_query_def select_text_def Let_def)

lemma sql_answerD:
  assumes "sql_answer (select_text (map fst conds) (offset > 0)) (map snd conds @ [ArgInt limit] @
      (if offset > 0 then [ArgInt offset] else [])) stored raw"
    and "set (map fst conds) \<subseteq> set known_conditions" "0 \<le> limit" "0 \<le> offset"
  shows "\<exists>xs. newest_first (\<lambda>(i, r). \<forall>c \<in> set conds. condition_holds c r) stored xs \<and>
    raw = map raw_of (take (nat limit) (drop (nat offset) xs))"
  using assms unfolding sql_answer_def by blast

lemma query_conditions_known: "set (map fst (query_conditions f)) \<subseteq> set known_conditions"
  by (auto simp: query_conditions_def known_conditions_def split: option.splits)

lemma condition_holds_simps [simp]:
  "condition_holds (''timestamp >= ?'', ArgInt n) r \<longleftrightarrow> n \<le> lr_ts r"
  "condition_holds (''timestamp <= ?'', ArgInt n) r \<longleftrightarrow> lr_ts r \<le> n"
  "condition_holds (''level = ?'', ArgText x) r \<longleftrightarrow> lr_level r = x"
  "condition_holds (''service = ?'', ArgText x) r \<longleftrightarrow> lr_service r = x"
  "condition_holds (''message LIKE ?'', ArgText x) r \<longleftrightarrow> like x (lr_message r)"
  by (simp_all add: condition_holds_def)

lemma ball_conditions:
  "(\<forall>c \<in> set (case x of None \<Rightarrow> [] | Some t \<Rightarrow> [g t]). P c) \<longleftrightarrow> (case x of None \<Rightarrow> True | Some t \<Rightarrow> P (g t))"
  "(\<forall>c \<in> set (if b then [d] else []). P c) \<longleftrightarrow> (b \<longrightarrow> P d)"
  by (simp_all split: option.split)

lemma conditions_match:
  assumes "no_wildcard (lf_Search f)"
  shows "(\<forall>c \<in> set (query_conditions f). condition_holds c r) \<longleftrightarrow> matches f r"
proof -
  have "Contains s []" for s
    by (cases s) simp_all
  then have "(lf_Search f \<noteq> [] \<longrightarrow> like (''%'' @ lf_Search f @ ''%'') (lr_message r)) \<longleftrightarrow>
      Contains (map lower_byte (lr_message r)) (map lower_byte (lf_Search f))"
    unfolding like_search [OF assms] by auto
  then show ?thesis
    unfolding query_conditions_def matches_def set_append ball_Un ball_conditions condition_holds_simps by blast
qed

lemma read_raw: "read_rows (map raw_of xs) result = Inr (result @ map entry_of xs)"
  by (induction xs arbitrary: result) (auto simp: raw_of_def entry_of_def)

section \<open>Properties\<close>

text \<open>When the database answers, \<open>QueryLogs\<close> returns the entries of the matching rows, newest first.\<close>

lemma query_returns_matches:
  assumes "answers_queries drv stored" "no_wildcard (lf_Search f)"
    and "sd_query drv (fst (build_query f)) (snd (build_query f)) db = Some (raw, False)"
  shows "\<exists>xs. newest_first (\<lambda>(i, r). matches f r) (stored db) xs \<and>
    QueryLogs drv f db = Inr (map entry_of (take (nat (query_limit (lf_Limit f))) (drop (nat (max 0 (lf_Offset f))) xs)))"
proof -
  have "sql_answer (fst (build_query f)) (snd (build_query f)) (stored db) raw"
    using assms(1,3) by (simp add: answers_queries_def)
  moreover have "0 \<le> query_limit (lf_Limit f)"
    by (simp add: query_limit_def)
  ultimately obtain xs where xs: "newest_first (\<lambda>(i, r). \<forall>c \<in> set (query_conditions f). condition_holds c r) (stored db) xs"
    "raw = map raw_of (take (nat (query_limit (lf_Limit f))) (drop (nat (max 0 (lf_Offset f))) xs))"
    using sql_answerD [OF _ query_conditions_known] unfolding build_query_text fst_conv snd_conv by fastforce
  have "QueryLogs drv f db = Inr (map entry_of (take (nat (query_limit (lf_Limit f))) (drop (nat (max 0 (lf_Offset f))) xs)))"
    using assms(3) unfolding QueryLogs_def by (cases "build_query f") (simp add: xs(2) read_raw)
  with xs(1) show ?thesis
    unfolding conditions_match [OF assms(2)] by blast
qed

text \<open>A database with three rows, and a search that finds two.\<close>

definition sample_rows :: "(int \<times> log_row) list" where
  "sample_rows =
     [(1, \<lparr>lr_ts = 5, lr_level = ''INFO'', lr_service = ''db'', lr_message = ''disk ERR'', lr_attributes = []\<rparr>),
      (2, \<lparr>lr_ts = 9, lr_level = ''INFO'', lr_service = ''db'', lr_message = ''fine'', lr_attributes = []\<rparr>),
      (3, \<lparr>lr_ts = 7, lr_level = ''INFO'', lr_service = ''web'', lr_message = ''Error'', lr_attributes = []\<rparr>)]"

definition sample_search :: log_filter where
  "sample_search = \<lparr>lf_StartTime = None, lf_EndTime = None, lf_Level = [], lf_Service = [], lf_Search = ''err'',
     lf_Limit = 0, lf_Offset = 0\<rparr>"

definition sample_found :: "(int \<times> log_row) list" where
  "sample_found = [sample_rows ! 2, sample_rows ! 0]"

definition searching_driver :: "unit sql_driver" where
  "searching_driver = \<lparr>sd_begin = Pair True, sd_prepare = Pair True, sd_insert = (\<lambda>r. Pair False), sd_commit = Pair True,
     sd_rollback = id,
     sd_query = (\<lambda>query args db. if (query, args) = build_query sample_search then Some (map raw_of sample_found, False) else None),
     sd_delete_before = (\<lambda>ts. Pair None)\<rparr>"

lemma sample_search_query:
  "build_query sample_search = (select_text [''message LIKE ?''] False, [ArgText ''%err%'', ArgInt 100])"
  by (simp add: build_query_text sample_search_def query_conditions_def query_limit_def)

lemma sample_found_answer:
  "newest_first (\<lambda>(i, r). condition_holds (''message LIKE ?'', ArgText ''%err%'') r) sample_rows sample_found"
proof -
  have "filter (\<lambda>(i, r). condition_holds (''message LIKE ?'', ArgText ''%err%'') r) sample_rows = [sample_rows ! 0, sample_rows ! 2]"
    by code_simp
  then show ?thesis
    by (simp add: newest_first_def sample_found_def) (simp add: sample_rows_def)
qed

lemma searching_driver_answers: "answers_queries searching_driver (\<lambda>db. sample_rows)"
proof -
  have "sql_answer (select_text [''message LIKE ?''] False) [ArgText ''%err%'', ArgInt 100] sample_rows (map raw_of sample_found)"
    unfolding sql_answer_def
  proof (intro allI impI; elim conjE)
    fix conds limit offset
    assume shape: "select_text [''message LIKE ?''] False = select_text (map fst conds) (offset > 0)"
      "[ArgText ''%err%'', ArgInt 100] = map snd conds @ [ArgInt limit] @ (if (offset :: int) > 0 then [ArgInt offset] else [])"
      "0 \<le> offset"
    then obtain t where c: "conds = [(t, ArgText ''%err%'')]" "limit = 100" "offset = 0"
      by (cases conds; cases "tl conds") (auto split: if_splits)
    then have "t = ''message LIKE ?''"
      using shape(1) by (simp add: select_text_def)
    then show "\<exists>xs. newest_first (\<lambda>(i, r). \<forall>c \<in> set conds. condition_holds c r) sample_rows xs \<and>
        map raw_of sample_found = map raw_of (take (nat limit) (drop (nat offset) xs))"
      using sample_found_answer c by (intro exI [of _ sample_found]) (simp add: sample_found_def del: condition_holds_simps)
  qed
  then show ?thesis
    by (auto simp: answers_queries_def searching_driver_def sample_search_query split: if_splits)
qed

end
