(* ===== verification/Retention.thy ===== *)
theory Retention
  imports Go_Float Go_Strings
begin

text \<open>
  The retention period on the command line, \<open>parseRetention\<close> of \<open>cmd/sugi/main.go\<close>, with the two
  functions of the standard library it is built on: \<open>fmt.Sscanf\<close> with the format \<open>%dd\<close>, and
  \<open>time.ParseDuration\<close>.
\<close>

section \<open>Integers of 64 bits\<close>

text \<open>The value of an \<open>int64\<close> operation that wraps around.\<close>

definition int64 :: "int \<Rightarrow> int" where
  "int64 x = (x + 2 ^ 63) mod 2 ^ 64 - 2 ^ 63"

lemma int64_id: "- (2 ^ 63) \<le> x \<Longrightarrow> x < 2 ^ 63 \<Longrightarrow> int64 x = x"
  by (simp add: int64_def)

section \<open>fmt.Sscanf with the format %dd\<close>

definition is_digit :: "char \<Rightarrow> bool" where
  "is_digit c \<longleftrightarrow> 48 \<le> byte c \<and> byte c \<le> 57"

text \<open>ASCII blanks before the number are skipped (a newline is an error); then a sign, at least one digit, and
  the letter of the format.  What follows in the input is not looked at.\<close>

definition sscanf_days :: "string \<Rightarrow> int option" where
  "sscanf_days s =
     (let s = dropWhile (\<lambda>c. byte c \<in> {9, 11, 12, 13, 32}) s;
          neg = HasPrefix s ''-'';
          s = (if HasPrefix s ''-'' \<or> HasPrefix s ''+'' then drop 1 s else s);
          tok = takeWhile is_digit s; rest = dropWhile is_digit s
      in case parse_signed neg tok of (n, err) \<Rightarrow>
           if err \<noteq> None \<or> \<not> HasPrefix rest ''d'' then None else Some n)"

section \<open>time.ParseDuration\<close>

datatype duration_error = ErrInvalidDuration | ErrMissingUnit | ErrUnknownUnit

text \<open>The digits before the point; \<open>None\<close> on overflow of \<open>2 ^ 63\<close>.\<close>

fun leadingInt :: "nat \<Rightarrow> string \<Rightarrow> (nat \<times> string) option" where
  "leadingInt x [] = Some (x, [])"
| "leadingInt x (c # s) =
     (if \<not> is_digit c then Some (x, c # s)
      else if x > 2 ^ 63 div 10 then None
      else (let x = x * 10 + (byte c - 48) in if x > 2 ^ 63 then None else leadingInt x s))"

text \<open>The digits after the point, with the scale; digits after an overflow are skipped.\<close>

fun leadingFraction :: "nat \<Rightarrow> f64 \<Rightarrow> bool \<Rightarrow> string \<Rightarrow> nat \<times> f64 \<times> string" where
  "leadingFraction x scale overflow [] = (x, scale, [])"
| "leadingFraction x scale overflow (c # s) =
     (if \<not> is_digit c then (x, scale, c # s)
      else if overflow then leadingFraction x scale True s
      else if x > (2 ^ 63 - 1) div 10 then leadingFraction x scale True s
      else (let y = x * 10 + (byte c - 48)
            in if y > 2 ^ 63 then leadingFraction x scale True s
               else leadingFraction y (f64_mul scale 10) False s))"

text \<open>The units; \<open>us\<close> is also written with either of the two Unicode letters mu.\<close>

definition unitMap :: "(string \<times> nat) list" where
  "unitMap = [(''ns'', 1), (''us'', 1000), ([CHR 0xC2, CHR 0xB5, CHR ''s''], 1000),
     ([CHR 0xCE, CHR 0xBC, CHR ''s''], 1000), (''ms'', 1000000), (''s'', 1000000000),
     (''m'', 60000000000), (''h'', 3600000000000)]"

text \<open>The number before a unit: \<open>None\<close> when it is invalid.\<close>

definition duration_number :: "string \<Rightarrow> (nat \<times> nat \<times> f64 \<times> string) option" where
  "duration_number s =
     (if \<not> (case s of c # _ \<Rightarrow> c = CHR ''.'' \<or> is_digit c | [] \<Rightarrow> False) then None
      else case leadingInt 0 s of
        None \<Rightarrow> None
      | Some (v, s1) \<Rightarrow>
          (let pre = length s1 \<noteq> length s in
           if HasPrefix s1 ''.'' then
             (case leadingFraction 0 1 False (drop 1 s1) of (f, scale, s2) \<Rightarrow>
                if \<not> pre \<and> length s2 = length s1 - 1 then None else Some (v, f, scale, s2))
           else if \<not> pre then None else Some (v, 0, 1, s1)))"

definition unit_char :: "char \<Rightarrow> bool" where
  "unit_char c \<longleftrightarrow> \<not> (c = CHR ''.'' \<or> is_digit c)"

text \<open>The value of one number with its unit, in nanoseconds; \<open>None\<close> on overflow.\<close>

definition duration_term :: "nat \<Rightarrow> nat \<Rightarrow> f64 \<Rightarrow> nat \<Rightarrow> nat option" where
  "duration_term v f scale unit =
     (if v > 2 ^ 63 div unit then None
      else (let v = v * unit;
                v = (if f > 0 then v + nat \<lfloor>f64_mul (fl (of_nat f)) (f64_div (of_nat unit) scale)\<rfloor> else v)
            in if v > 2 ^ 63 then None else Some v))"

text \<open>The loop over the terms; the fuel is the length of the text, and each term consumes some of it.\<close>

fun duration_loop :: "nat \<Rightarrow> nat \<Rightarrow> string \<Rightarrow> duration_error + nat" where
  "duration_loop n d [] = Inr d"
| "duration_loop 0 d s = Inl ErrInvalidDuration"
| "duration_loop (Suc n) d s = (case duration_number s of
     None \<Rightarrow> Inl ErrInvalidDuration
   | Some (v, f, scale, s2) \<Rightarrow>
       (let u = takeWhile unit_char s2; s3 = dropWhile unit_char s2 in
        if u = [] then Inl ErrMissingUnit
        else case map_of unitMap u of
          None \<Rightarrow> Inl ErrUnknownUnit
        | Some unit \<Rightarrow> (case duration_term v f scale unit of
            None \<Rightarrow> Inl ErrInvalidDuration
          | Some v \<Rightarrow> if d + v > 2 ^ 63 then Inl ErrInvalidDuration else duration_loop n (d + v) s3)))"

definition ParseDuration :: "string \<Rightarrow> duration_error + go_duration" where
  "ParseDuration orig =
     (let neg = HasPrefix orig ''-'';
          s = (if HasPrefix orig ''-'' \<or> HasPrefix orig ''+'' then drop 1 orig else orig)
      in if s = ''0'' then Inr 0
         else if s = [] then Inl ErrInvalidDuration
         else case duration_loop (length s) 0 s of
           Inl e \<Rightarrow> Inl e
         | Inr d \<Rightarrow> if neg then Inr (int64 (- int d))
             else if d > 2 ^ 63 - 1 then Inl ErrInvalidDuration else Inr (int d))"

section \<open>parseRetention\<close>

definition parseRetention :: "string \<Rightarrow> go_duration" where
  "parseRetention s =
     (if s = [] then 7 * 24 * Hour
      else let days = (if length s > 1 \<and> last s = CHR ''d'' then sscanf_days s else None) in
        case (case days of Some n \<Rightarrow> if n > 0 then Some n else None | None \<Rightarrow> None) of
          Some n \<Rightarrow> int64 (int64 (n * 24) * Hour)
        | None \<Rightarrow> (case ParseDuration s of Inl e \<Rightarrow> 7 * 24 * Hour | Inr d \<Rightarrow> d))"

section \<open>Lemmas\<close>

text \<open>The fuel is enough: the number consumes at least one byte, and the unit never gives any back.\<close>

lemma leadingInt_length: "leadingInt x s = Some (v, s') \<Longrightarrow> length s' \<le> length s"
  by (induction x s rule: leadingInt.induct) (auto simp: Let_def split: if_splits intro: le_SucI)

lemma leadingFraction_length: "leadingFraction x sc ov s = (f, sc', s') \<Longrightarrow> length s' \<le> length s"
  by (induction x sc ov s rule: leadingFraction.induct) (auto simp: Let_def split: if_splits intro: le_SucI)

lemma duration_number_length:
  "duration_number s = Some (v, f, scale, s') \<Longrightarrow> length s' < length s"
  by (auto simp: duration_number_def Let_def HasPrefix_def split: if_splits option.splits prod.splits list.splits
      dest!: leadingInt_length leadingFraction_length)

lemma duration_loop_fuel:
  "length s \<le> n \<Longrightarrow> length s \<le> m \<Longrightarrow> duration_loop n d s = duration_loop m d s"
proof (induction n d s arbitrary: m rule: duration_loop.induct)
  case (3 n d c s)
  then obtain k where m: "m = Suc k" by (cases m) auto
  show ?case
  proof (cases "duration_number (c # s)")
    case (Some q)
    obtain v f scale s2 where q: "q = (v, f, scale, s2)" by (cases q)
    have "length (dropWhile unit_char s2) \<le> length s2" by (rule length_dropWhile_le)
    then have len: "length (dropWhile unit_char s2) \<le> n" "length (dropWhile unit_char s2) \<le> k"
      using duration_number_length [OF Some [unfolded q]] 3(2,3) by (simp_all add: m)
    show ?thesis
      using 3(1) [OF Some [unfolded q] refl refl refl refl refl _ _ _ _ len(1)] len(2)
      by (simp add: m Some q Let_def split: option.split)
  qed (simp add: m)
qed auto

lemma show_nat_digit_list: "takeWhile is_digit (show_nat n @ c # t) = show_nat n"
    "dropWhile is_digit (show_nat n @ c # t) = c # t" if "\<not> is_digit c"
  using that show_nat_digits [of _ n]
  by (auto simp: takeWhile_append dropWhile_append is_digit_def)

lemma hd_show_digit: "\<exists>c s. show_nat n = c # s \<and> is_digit c"
  using hd_show_nat [of n] show_nat_plain [of n]
  by (cases "show_nat n") (auto simp: plain_word_def is_digit_def)

lemma parse_signed_show: "n < 2 ^ 63 \<Longrightarrow> parse_signed False (show_nat n) = (int n, None)"
  using hd_show_digit [of n] parse_digits_show [of n] by (auto simp: parse_signed_def simp del: show_nat.simps)

lemma sscanf_days_show: "n < 2 ^ 63 \<Longrightarrow> sscanf_days (show_nat n @ ''d'' @ t) = Some (int n)"
proof -
  assume n: "n < 2 ^ 63"
  obtain c s where cs: "show_nat n = c # s" "is_digit c" using hd_show_digit by blast
  have "dropWhile (\<lambda>c. byte c \<in> {9, 11, 12, 13, 32}) (show_nat n @ ''d'' @ t) = show_nat n @ ''d'' @ t"
    using cs by (simp add: is_digit_def del: show_nat.simps)
  moreover have "\<not> HasPrefix (show_nat n @ ''d'' @ t) ''-''" "\<not> HasPrefix (show_nat n @ ''d'' @ t) ''+''"
    using cs by (auto simp: HasPrefix_def is_digit_def simp del: show_nat.simps)
  moreover have "\<not> is_digit (CHR ''d'')" by (simp add: is_digit_def)
  ultimately show ?thesis
    using show_nat_digit_list [of "CHR ''d''" n t] parse_signed_show [OF n]
    by (simp add: sscanf_days_def Let_def HasPrefix_def del: show_nat.simps)
qed

lemma parse_digits_mono: "parse_digits x ds = (n, None) \<Longrightarrow> x \<le> n"
  by (induction x ds rule: parse_digits.induct) (auto simp: Let_def split: if_splits)

lemma leadingInt_digits:
  "\<lbrakk>parse_digits x ds = (n, None); n \<le> 2 ^ 63; \<not> is_digit c\<rbrakk> \<Longrightarrow> leadingInt x (ds @ c # t) = Some (n, c # t)"
proof (induction x ds rule: parse_digits.induct)
  case (2 x b ds)
  then have b: "is_digit b" "parse_digits (10 * x + (byte b - 48)) ds = (n, None)"
    by (auto simp: is_digit_def Let_def split: if_splits)
  have "10 * x + (byte b - 48) \<le> n" using parse_digits_mono [OF b(2)] .
  then show ?case using 2 b by (auto simp: Let_def is_digit_def mult.commute split: if_splits)
qed simp

lemma leadingInt_show: "n \<le> 2 ^ 63 \<Longrightarrow> \<not> is_digit c \<Longrightarrow> leadingInt 0 (show_nat n @ c # t) = Some (n, c # t)"
  using parse_digits_show [of n] by (intro leadingInt_digits) simp_all

lemma duration_number_show:
  "n \<le> 2 ^ 63 \<Longrightarrow> unit_char c \<Longrightarrow> duration_number (show_nat n @ c # t) = Some (n, 0, 1, c # t)"
  using leadingInt_show [of n c t] hd_show_digit [of n]
  by (auto simp: duration_number_def unit_char_def HasPrefix_def Let_def simp del: show_nat.simps)

lemma ParseDuration_hours:
  assumes "int n * Hour \<le> 2 ^ 63 - 1"
  shows "ParseDuration (show_nat n @ ''h'') = Inr (int n * Hour)"
proof -
  let ?s = "show_nat n @ ''h''"
  have bound: "n * 3600000000000 \<le> 2 ^ 63 - 1" using assms by (simp add: Hour_def Second_def)
  have h: "unit_char (CHR ''h'')" by (simp add: unit_char_def is_digit_def)
  have num: "duration_number ?s = Some (n, 0, 1, ''h'')" using duration_number_show [of n "CHR ''h''" "[]"] h bound by simp
  obtain c s where cs: "show_nat n = c # s" "is_digit c" using hd_show_digit by blast
  have "map_of unitMap ''h'' = Some 3600000000000" by (simp add: unitMap_def)
  moreover have "duration_term n 0 1 3600000000000 = Some (n * 3600000000000)"
    using bound by (simp add: duration_term_def)
  ultimately have "duration_loop (Suc (length s + 1)) 0 (c # s @ ''h'') = Inr (n * 3600000000000)"
    using num h bound cs by (simp del: show_nat.simps)
  moreover have "\<not> HasPrefix ?s ''-''" "\<not> HasPrefix ?s ''+''"
    using cs by (auto simp: HasPrefix_def is_digit_def simp del: show_nat.simps)
  moreover have "?s = c # s @ ''h''" "length ?s = Suc (length s + 1)" "?s \<noteq> ''0''" using cs by (auto simp del: show_nat.simps)
  ultimately show ?thesis using bound
    by (simp add: ParseDuration_def Let_def Hour_def Second_def del: show_nat.simps duration_loop.simps)
qed

section \<open>Properties\<close>

lemma retention_values:
  shows "(0 < n \<and> n \<le> 106751 \<longrightarrow> parseRetention (show_nat n @ ''d'') = int n * 24 * Hour) \<and>
    (int n * Hour \<le> maxDuration \<longrightarrow> parseRetention (show_nat n @ ''h'') = int n * Hour) \<and>
    parseRetention [] = 7 * 24 * Hour \<and>
    (last s \<noteq> CHR ''d'' \<and> ParseDuration s = Inl e \<longrightarrow> parseRetention s = 7 * 24 * Hour)"
proof (intro conjI impI)
  assume n: "0 < n \<and> n \<le> 106751"
  have "length (show_nat n @ ''d'') > 1" using show_nat_nonempty [of n] by (cases "show_nat n") auto
  moreover have "int64 (int64 (int n * 24) * Hour) = int n * 24 * Hour"
    using n by (simp add: int64_id Hour_def Second_def)
  ultimately show "parseRetention (show_nat n @ ''d'') = int n * 24 * Hour"
    using n sscanf_days_show [of n "[]"] show_nat_nonempty by (simp add: parseRetention_def del: show_nat.simps)
next
  assume "int n * Hour \<le> maxDuration"
  then show "parseRetention (show_nat n @ ''h'') = int n * Hour"
    using ParseDuration_hours [of n] by (simp add: parseRetention_def maxDuration_def del: show_nat.simps)
qed (auto simp: parseRetention_def)

lemma retention_wraps:
  "parseRetention ''213504d'' = 1526 * Second + 290448384 \<and> parseRetention ''106752d'' < 0 \<and>
   parseRetention ''7days12d'' = 7 * 24 * Hour"
  by (intro conjI; code_simp)

text \<open>C31. The retention given on the command line means what it says: \<open>Nd\<close> is \<open>N\<close> days for every \<open>N\<close>
  from 1 to 106751 (292 years, the range of \<open>time.Duration\<close>), and \<open>Nh\<close> is \<open>N\<close> hours for every \<open>N\<close>
  whose hours fit; the empty text, and any text not ending in \<open>d\<close> that \<open>ParseDuration\<close> rejects,
  means 7 days.  But from 106752 days on the product wraps around in 64 bits without an error:
  \<open>213504d\<close>, 584 years, is a retention of 25 minutes and 26 seconds, so that the first prune deletes
  everything older; \<open>106752d\<close> is negative; and \<open>7days12d\<close> is accepted as 7 days, because the scan does
  not look at the rest of its input.\<close>

theorem retention_parsed:
  shows "(0 < n \<and> n \<le> 106751 \<longrightarrow> parseRetention (show_nat n @ ''d'') = int n * 24 * Hour) \<and>
    (int n * Hour \<le> maxDuration \<longrightarrow> parseRetention (show_nat n @ ''h'') = int n * Hour) \<and>
    parseRetention [] = 7 * 24 * Hour \<and>
    (last s \<noteq> CHR ''d'' \<and> ParseDuration s = Inl e \<longrightarrow> parseRetention s = 7 * 24 * Hour) \<and>
    parseRetention ''213504d'' = 1526 * Second + 290448384 \<and> parseRetention ''106752d'' < 0 \<and>
    parseRetention ''7days12d'' = 7 * 24 * Hour"
  using retention_values [of n s e] retention_wraps by blast

theorem retention_parsed_witness:
  "parseRetention (show_nat 30 @ ''d'') = int 30 * 24 * Hour \<and> parseRetention (show_nat 36 @ ''h'') = int 36 * Hour \<and>
   parseRetention ''soon'' = 7 * 24 * Hour"
proof -
  have "ParseDuration ''soon'' = Inl ErrInvalidDuration" by code_simp
  moreover have "int 36 * Hour \<le> maxDuration" by (simp add: Hour_def Second_def maxDuration_def)
  ultimately show ?thesis
    using retention_parsed [of 30 "''soon''" ErrInvalidDuration] retention_parsed [of 36 "''soon''" ErrInvalidDuration]
    by (simp del: show_nat.simps)
qed

end
