(* ===== verification/Syslog_Parser.thy ===== *)
theory Syslog_Parser
  imports Metrics_Model Go_Time
begin

text \<open>
  The parser of syslog lines in \<open>internal/collector/log_harvester.go\<close>: the timestamp in one of two
  formats, host name, service and process id, the message and the level inferred from it; and what
  it makes of the lines that rsyslog writes.
\<close>

section \<open>The parser\<close>

text \<open>The two readings of the clock: the time, and the year in the local zone as text.\<close>

record syslog_clock =
  sy_now :: go_time
  sy_year :: string

definition infer_level :: "string \<Rightarrow> string" where
  "infer_level message = (let lowerMsg = ToLower message in
     if Contains lowerMsg ''fail'' \<or> Contains lowerMsg ''fatal'' \<or> Contains lowerMsg ''error'' \<or>
        Contains lowerMsg ''panic'' \<or> Contains lowerMsg ''segfault'' \<or> Contains lowerMsg ''critical'' \<or>
        Contains lowerMsg ''alert'' \<or> Contains lowerMsg ''emerg'' then ''ERROR''
     else if Contains lowerMsg ''warn'' \<or> Contains lowerMsg ''warning'' \<or> Contains lowerMsg ''denied'' \<or>
        Contains lowerMsg ''reject'' \<or> Contains lowerMsg ''timeout'' \<or> Contains lowerMsg ''retry'' then ''WARN''
     else if Contains lowerMsg ''debug'' \<or> Contains lowerMsg ''trace'' then ''DEBUG''
     else ''INFO'')"

text \<open>A date without a year that lies more than a day ahead is taken to be of the year before.\<close>

definition bsd_time :: "go_time \<Rightarrow> time_parts \<Rightarrow> go_time" where
  "bsd_time now t = (if time_of t > now + 24 * Hour then time_of (year_before t) else time_of t)"

text \<open>The timestamp and the number of fields it takes.\<close>

definition syslog_timestamp :: "syslog_clock \<Rightarrow> string list \<Rightarrow> (go_time \<times> nat) option" where
  "syslog_timestamp clock parts = (case time_Parse RFC3339Nano (parts ! 0) of
     Some t \<Rightarrow> Some (time_of t, 1)
   | None \<Rightarrow> (case time_Parse RFC3339 (parts ! 0) of
       Some t \<Rightarrow> Some (time_of t, 1)
     | None \<Rightarrow>
         if length parts \<ge> 3 then
           (let timeStr = parts ! 0 @ '' '' @ parts ! 1 @ '' '' @ parts ! 2;
                timeStrWithYear = sy_year clock @ '' '' @ timeStr
            in case time_Parse (bsd_layout StdDay) timeStrWithYear of
                 Some t \<Rightarrow> Some (bsd_time (sy_now clock) t, 3)
               | None \<Rightarrow> (case time_Parse (bsd_layout StdUnderDay) timeStrWithYear of
                   Some t \<Rightarrow> Some (bsd_time (sy_now clock) t, 3)
                 | None \<Rightarrow> None))
         else None))"

text \<open>Service and process id of a tag such as \<open>sshd[123]:\<close>.\<close>

definition parse_tag :: "string \<Rightarrow> string \<times> string option" where
  "parse_tag token = (let serviceToken = TrimSuffix token '':'' in
     case IndexByte serviceToken (CHR ''['') of
       None \<Rightarrow> (serviceToken, None)
     | Some idx \<Rightarrow> (take idx serviceToken,
         case IndexByte serviceToken (CHR '']'') of
           None \<Rightarrow> None
         | Some endIdx \<Rightarrow> if endIdx > idx then Some (take (endIdx - (idx + 1)) (drop (idx + 1) serviceToken)) else None))"

text \<open>Host name, tag and message after a timestamp of \<open>msgIndex\<close> fields; the keys are new to the map.\<close>

definition syslog_fields :: "string list \<Rightarrow> nat \<Rightarrow> log_entry \<Rightarrow> log_entry" where
  "syslog_fields parts msgIndex entry =
     (if msgIndex > 0 \<and> length parts > msgIndex then
        let entry = entry\<lparr>le_Attributes := le_Attributes entry @ [(''hostname'', parts ! msgIndex)]\<rparr>;
            msgIndex = msgIndex + 1;
            (entry, msgIndex) =
              (if length parts > msgIndex then
                 (case parse_tag (parts ! msgIndex) of (service, pid) \<Rightarrow>
                    (entry\<lparr>le_Service := service, le_Attributes := le_Attributes entry @
                       (case pid of None \<Rightarrow> [] | Some d \<Rightarrow> [(''pid'', d)])\<rparr>, msgIndex + 1))
               else (entry, msgIndex))
        in if length parts \<ge> msgIndex then entry\<lparr>le_Message := Join (drop msgIndex parts) '' ''\<rparr> else entry
      else entry)"

definition ParseSyslogLine :: "syslog_clock \<Rightarrow> string \<Rightarrow> string \<Rightarrow> log_entry" where
  "ParseSyslogLine clock raw sourcePath =
     (let raw = TrimSpace raw;
          entry = \<lparr>le_ID = 0, le_Timestamp = sy_now clock, le_Level = ''INFO'', le_Service = ''syslog'',
            le_Message = raw, le_Attributes = [(''source'', sourcePath)]\<rparr>
      in if raw = [] then entry
         else let parts = Fields raw in
           if length parts < 3 then entry
           else let entry = (case syslog_timestamp clock parts of
                    None \<Rightarrow> entry
                  | Some (t, msgIndex) \<Rightarrow> syslog_fields parts msgIndex (entry\<lparr>le_Timestamp := t\<rparr>))
             in entry\<lparr>le_Level := infer_level (le_Message entry)\<rparr>)"

section \<open>Lemmas\<close>

text \<open>The second layout of each pair never succeeds where the first one fails.\<close>

lemma syslog_timestamp_eq:
  "syslog_timestamp clock parts = (case time_Parse RFC3339 (parts ! 0) of
     Some t \<Rightarrow> Some (time_of t, 1)
   | None \<Rightarrow> if length parts \<ge> 3 then
       map_option (\<lambda>t. (bsd_time (sy_now clock) t, 3)) (time_Parse (bsd_layout StdDay)
         (sy_year clock @ '' '' @ parts ! 0 @ '' '' @ parts ! 1 @ '' '' @ parts ! 2))
       else None)"
  by (simp add: syslog_timestamp_def RFC3339Nano_same bsd_layouts_same Let_def split: option.split)

text \<open>A tag with a process id, and one without.\<close>

definition tag_name :: "string \<Rightarrow> bool" where
  "tag_name s \<longleftrightarrow> plain_word s \<and> set s \<inter> {CHR '':'', CHR ''['', CHR '']''} = {}"

lemma TrimSuffix_append [simp]: "TrimSuffix (s @ t) t = s"
  by (simp add: TrimSuffix_def)

lemma parse_tag_pid:
  assumes "CHR ''['' \<notin> set tag" "CHR '']'' \<notin> set tag" "CHR '']'' \<notin> set pid"
  shows "parse_tag (tag @ ''['' @ pid @ '']:'') = (tag, Some pid)"
proof -
  let ?s = "tag @ ''['' @ pid @ '']''"
  have "TrimSuffix (tag @ ''['' @ pid @ '']:'') '':'' = ?s" using TrimSuffix_append [of ?s "'':''"] by simp
  moreover have "IndexByte ?s (CHR ''['') = Some (length tag)" using IndexByte_append assms(1) by fastforce
  moreover have "IndexByte ?s (CHR '']'') = Some (length (tag @ ''['' @ pid))"
    using IndexByte_append [of "CHR '']''" "tag @ ''['' @ pid" "[]"] assms(2,3) by simp
  ultimately show ?thesis by (simp add: parse_tag_def)
qed

lemma parse_tag_plain:
  assumes "CHR ''['' \<notin> set tag"
  shows "parse_tag (tag @ '':'') = (tag, None)"
  using assms IndexByte_None [of tag "CHR ''[''"] by (simp add: parse_tag_def)

lemma plain_digit [simp]: "plain_char (digit n)"
  by (simp add: digit_def plain_char_def byte_char_of)

lemma plain_punctuation [simp]:
  "plain_char (CHR ''-'')" "plain_char (CHR ''+'')" "plain_char (CHR '':'')" "plain_char (CHR ''.'')"
  "plain_char (CHR ''T'')" "plain_char (CHR ''Z'')" "plain_char (CHR ''['')" "plain_char (CHR '']'')"
  by (simp_all add: plain_char_def)

lemma plain_words [simp]:
  "list_all is_digit ds \<Longrightarrow> plain_word (render_rfc3339 p ds z)" "plain_word (render_clock p)" "plain_word (render_day d)"
proof -
  assume "list_all is_digit ds"
  then have "list_all plain_char ds" by (auto simp: list_all_iff is_digit_def plain_char_def)
  moreover have "list_all plain_char (render_zone z)" by (cases z) (simp_all add: two_def)
  ultimately show "plain_word (render_rfc3339 p ds z)"
    by (simp add: render_rfc3339_def render_clock_def four_def two_def plain_word_def)
qed (simp_all add: render_clock_def render_day_def two_def plain_word_def)

lemma plain_month: "1 \<le> m \<Longrightarrow> m \<le> 12 \<Longrightarrow> plain_word (month_name m)"
proof -
  assume "1 \<le> m" "m \<le> 12"
  moreover have "list_all (\<lambda>m. plain_word (month_name m)) [1..<13]" by code_simp
  ultimately show ?thesis by (auto simp: list_all_iff)
qed

lemma month_not_rfc3339: "1 \<le> m \<Longrightarrow> m \<le> 12 \<Longrightarrow> time_Parse RFC3339 (month_name m) = None"
proof -
  assume "1 \<le> m" "m \<le> 12"
  moreover have "list_all (\<lambda>m. length (month_name m) = 3) [1..<13]" by code_simp
  ultimately show ?thesis
    by (auto simp: list_all_iff time_Parse_def RFC3339_def parse_layout_Cons)
qed

text \<open>What follows the timestamp.\<close>

lemma syslog_fields_tag:
  "syslog_fields (ts @ host # token # ws) (length ts) entry = (if ts = [] then entry
    else entry\<lparr>le_Service := fst (parse_tag token), le_Message := Join ws '' '',
      le_Attributes := le_Attributes entry @ [(''hostname'', host)] @
        (case snd (parse_tag token) of None \<Rightarrow> [] | Some d \<Rightarrow> [(''pid'', d)])\<rparr>)"
  by (simp add: syslog_fields_def Let_def nth_append split: prod.split)

lemma ParseSyslogLine_fields:
  assumes "Fields raw = ts @ host # token # ws" "TrimSpace raw = raw" "raw \<noteq> []" "ts \<noteq> []"
    and "syslog_timestamp clock (ts @ host # token # ws) = Some (t, length ts)"
  shows "ParseSyslogLine clock raw source = \<lparr>le_ID = 0, le_Timestamp = t, le_Level = infer_level (Join ws '' ''),
    le_Service = fst (parse_tag token), le_Message = Join ws '' '', le_Attributes = [(''source'', source), (''hostname'', host)] @
        (case snd (parse_tag token) of None \<Rightarrow> [] | Some d \<Rightarrow> [(''pid'', d)])\<rparr>"
proof -
  have "\<not> length (ts @ host # token # ws) < 3" using assms(4) by (cases ts) simp_all
  then show ?thesis
    using assms syslog_fields_tag [of ts host token ws] by (simp add: ParseSyslogLine_def Let_def del: Join.simps)
qed

lemma Fields_padded:
  assumes "plain_word w" "list_all plain_word ws"
  shows "Fields (w @ CHR '' '' # replicate k (CHR '' '') @ Join ws '' '') = w # ws"
  using assms by (simp add: Fields_word_blank Fields_blanks Fields_words del: Join.simps)

lemma TrimSpace_padded:
  assumes "plain_word w" "list_all plain_word ws" "ws \<noteq> []"
  shows "TrimSpace (w @ CHR '' '' # replicate k (CHR '' '') @ Join ws '' '') = w @ CHR '' '' # replicate k (CHR '' '') @ Join ws '' ''"
proof -
  have ne: "list_all (\<lambda>w. w \<noteq> []) ws" using assms(2) by (auto simp: list_all_iff plain_word_def)
  obtain v vs where ws: "ws = v # vs" using assms(3) by (cases ws) auto
  have "Join ws '' '' \<noteq> []" using ne by (simp add: ws Join_eq_Nil del: Join.simps)
  moreover have "plain_char (last (last ws))" using assms(2,3) by (simp add: list_all_iff plain_word_last)
  moreover have "hd (w @ s) = hd w" "w \<noteq> []" for s using assms(1) by (simp_all add: plain_word_def)
  ultimately show ?thesis
    using plain_word_hd [OF assms(1)] last_Join [OF ne assms(3), of "'' ''"] by (intro TrimSpace_plain) simp_all
qed

text \<open>A line of fewer than three words keeps the level \<open>INFO\<close> whatever it says; a line in the format of
  RFC 5424 proper, with its priority and version in front, is not recognised and keeps the time at
  which it was read.\<close>

lemma short_line_is_info:
  "length (Fields (TrimSpace raw)) < 3 \<Longrightarrow> le_Level (ParseSyslogLine clock raw source) = ''INFO''"
  by (simp add: ParseSyslogLine_def Let_def)

lemma short_line_example:
  "le_Level (ParseSyslogLine clock ''kernel panic'' source) = ''INFO'' \<and> infer_level ''kernel panic'' = ''ERROR''"
proof
  have "length (Fields (TrimSpace ''kernel panic'')) < 3" by code_simp
  then show "le_Level (ParseSyslogLine clock ''kernel panic'' source) = ''INFO''" by (rule short_line_is_info)
  show "infer_level ''kernel panic'' = ''ERROR''" by code_simp
qed

lemma rfc5424_header_not_recognised:
  "ParseSyslogLine \<lparr>sy_now = t, sy_year = ''2026''\<rparr> ''<34>1 2026-09-01T12:00:07Z web su 42 - - login'' source =
    \<lparr>le_ID = 0, le_Timestamp = t, le_Level = ''INFO'', le_Service = ''syslog'',
      le_Message = ''<34>1 2026-09-01T12:00:07Z web su 42 - - login'', le_Attributes = [(''source'', source)]\<rparr>"
proof -
  let ?l = "''<34>1 2026-09-01T12:00:07Z web su 42 - - login''"
  have "TrimSpace ?l = ?l" "\<not> length (Fields ?l) < 3" "infer_level ?l = ''INFO''" "time_Parse RFC3339 (Fields ?l ! 0) = None"
    "time_Parse (bsd_layout StdDay) (''2026'' @ '' '' @ Fields ?l ! 0 @ '' '' @ Fields ?l ! 1 @ '' '' @ Fields ?l ! 2) = None"
    by code_simp+
  then show ?thesis by (simp add: ParseSyslogLine_def syslog_timestamp_eq Let_def)
qed

section \<open>Properties\<close>

text \<open>The line \<open>timestamp host tag[pid]: message\<close>.\<close>

definition syslog_words :: "string \<Rightarrow> string \<Rightarrow> string \<Rightarrow> string list \<Rightarrow> string list" where
  "syslog_words host tag pid ws = host # (tag @ ''['' @ pid @ '']:'') # ws"

definition syslog_entry :: "go_time \<Rightarrow> string \<Rightarrow> string \<Rightarrow> string \<Rightarrow> string \<Rightarrow> string list \<Rightarrow> log_entry" where
  "syslog_entry t source host tag pid ws = \<lparr>le_ID = 0, le_Timestamp = t, le_Level = infer_level (Join ws '' ''),
     le_Service = tag, le_Message = Join ws '' '',
     le_Attributes = [(''source'', source), (''hostname'', host), (''pid'', pid)]\<rparr>"

text \<open>C32. What rsyslog writes is parsed back, in both of its formats.  With an RFC 3339 timestamp (any
  date, with or without a fraction of a second, in any zone) the entry has exactly that instant; with
  the traditional timestamp (name of the month, day padded with blanks, time) it has that date in the
  current year, or in the year before if that would be more than a day ahead, read as UTC.  Host
  name, tag and process id are recovered, and the message is the words after the tag.\<close>

theorem syslog_roundtrip:
  assumes "parts_ok p" "plain_word host" "tag_name tag" "plain_word pid" "CHR '']'' \<notin> set pid" "list_all plain_word ws"
  shows "(zone_ok z \<and> list_all is_digit ds \<and> tp_nsec p = (if ds = [] then 0 else nanoseconds ds) \<and>
      tp_offset p = zone_offset z \<longrightarrow>
    ParseSyslogLine clock (Join (render_rfc3339 p ds z # syslog_words host tag pid ws) '' '') source =
      syslog_entry (time_of p) source host tag pid ws) \<and>
    (tp_nsec p = 0 \<and> tp_offset p = 0 \<and> sy_year clock = four (tp_year p) \<longrightarrow>
    ParseSyslogLine clock (month_name (tp_month p) @ CHR '' '' # replicate k (CHR '' '') @
        Join (render_day (tp_day p) # render_clock p # syslog_words host tag pid ws) '' '') source =
      syslog_entry (if time_of p > sy_now clock + 24 * Hour then time_of (year_before p) else time_of p)
        source host tag pid ws)"
proof (intro conjI impI)
  let ?token = "tag @ ''['' @ pid @ '']:''"
  have tag: "parse_tag (tag @ CHR ''['' # pid @ '']:'') = (tag, Some pid)"
    using parse_tag_pid [of tag pid] assms(3,5) by (auto simp: tag_name_def)
  have rest: "list_all plain_word (syslog_words host tag pid ws)"
    using assms(2-4,6) by (simp add: syslog_words_def tag_name_def plain_word_def)
  have month: "1 \<le> tp_month p" "tp_month p \<le> 12" using assms(1) by (simp_all add: parts_ok_def)
  note finish = ParseSyslogLine_fields [where host = host and token = ?token and ws = ws and source = source and clock = clock]
  show "ParseSyslogLine clock (Join (render_rfc3339 p ds z # syslog_words host tag pid ws) '' '') source =
      syslog_entry (time_of p) source host tag pid ws"
    if z: "zone_ok z \<and> list_all is_digit ds \<and> tp_nsec p = (if ds = [] then 0 else nanoseconds ds) \<and> tp_offset p = zone_offset z"
  proof -
    let ?ws = "render_rfc3339 p ds z # syslog_words host tag pid ws"
    have ws: "list_all plain_word ?ws" using rest z by simp
    have "time_Parse RFC3339 (render_rfc3339 p ds z) = Some p" by (rule time_Parse_rfc3339) (use assms(1) z in auto)
    with finish [of "Join ?ws '' ''" "[render_rfc3339 p ds z]" "time_of p"] show ?thesis
      using Fields_words [OF ws] TrimSpace_words [OF ws] Join_eq_Nil [of "render_rfc3339 p ds z"] z
      by (simp add: syslog_words_def syslog_timestamp_eq tag syslog_entry_def plain_word_def render_rfc3339_def del: Join.simps)
  qed
  show "ParseSyslogLine clock (month_name (tp_month p) @ CHR '' '' # replicate k (CHR '' '') @
        Join (render_day (tp_day p) # render_clock p # syslog_words host tag pid ws) '' '') source =
      syslog_entry (if time_of p > sy_now clock + 24 * Hour then time_of (year_before p) else time_of p)
        source host tag pid ws"
    if z: "tp_nsec p = 0 \<and> tp_offset p = 0 \<and> sy_year clock = four (tp_year p)"
  proof -
    let ?ws = "render_day (tp_day p) # render_clock p # syslog_words host tag pid ws"
    have ws: "list_all plain_word ?ws" using rest by simp
    have "time_Parse (bsd_layout StdDay) (four (tp_year p) @ '' '' @ month_name (tp_month p) @ '' '' @
        render_day (tp_day p) @ '' '' @ render_clock p) = Some p" by (rule time_Parse_bsd) (use assms(1) z in auto)
    with finish [of "month_name (tp_month p) @ CHR '' '' # replicate k (CHR '' '') @ Join ?ws '' ''"
        "[month_name (tp_month p), render_day (tp_day p), render_clock p]" "bsd_time (sy_now clock) p"] show ?thesis
      using Fields_padded [OF plain_month [OF month] ws] TrimSpace_padded [OF plain_month [OF month] ws] z
        month_not_rfc3339 [OF month]
      by (simp add: syslog_words_def syslog_timestamp_eq tag syslog_entry_def bsd_time_def del: Join.simps)
  qed
qed

definition sample_parts :: time_parts where
  "sample_parts = \<lparr>tp_year = 2026, tp_month = 9, tp_day = 1, tp_hour = 12, tp_min = 0, tp_sec = 7, tp_nsec = 0, tp_offset = 0\<rparr>"

theorem syslog_roundtrip_witness:
  "ParseSyslogLine \<lparr>sy_now = 0, sy_year = ''2026''\<rparr> ''Sep  1 12:00:07 web sshd[42]: login failed'' ''auth.log'' =
    syslog_entry (time_of (year_before sample_parts)) ''auth.log'' ''web'' ''sshd'' ''42'' [''login'', ''failed''] \<and>
   infer_level ''login failed'' = ''ERROR''"
proof
  have line: "month_name (tp_month sample_parts) @ CHR '' '' # replicate 1 (CHR '' '') @
        Join (render_day (tp_day sample_parts) # render_clock sample_parts # syslog_words ''web'' ''sshd'' ''42'' [''login'', ''failed'']) '' '' =
      ''Sep  1 12:00:07 web sshd[42]: login failed''" by code_simp
  have "parts_ok sample_parts" "time_of sample_parts > 0 + 24 * Hour" "plain_word ''web''" "tag_name ''sshd''" "plain_word ''42''"
    "list_all plain_word [''login'', ''failed'']" "four (tp_year sample_parts) = ''2026''"
    by code_simp+
  with syslog_roundtrip [of sample_parts "''web''" "''sshd''" "''42''" "[''login'', ''failed'']" UTC_zone "[]"
      "\<lparr>sy_now = 0, sy_year = ''2026''\<rparr>" "''auth.log''" 1, unfolded line]
  show "ParseSyslogLine \<lparr>sy_now = 0, sy_year = ''2026''\<rparr> ''Sep  1 12:00:07 web sshd[42]: login failed'' ''auth.log'' =
    syslog_entry (time_of (year_before sample_parts)) ''auth.log'' ''web'' ''sshd'' ''42'' [''login'', ''failed'']"
    by (simp add: sample_parts_def)
  show "infer_level ''login failed'' = ''ERROR''" by code_simp
qed

end
