(* ===== verification/Log_Harvester.thy ===== *)
theory Log_Harvester
  imports Syslog_Parser Go_Concurrency
begin

text \<open>
  The log harvester, \<open>internal/collector/log_harvester.go\<close>: which files are watched, the last lines of a
  file, and the loop that tails one file as a transition system, in which the processes that write
  the file and the clock move as well.
\<close>

section \<open>Configuration and targets\<close>

record harvester_config =
  hv_AutoSyslog :: bool
  hv_WatchPaths :: "string list"
  hv_TailLines :: int
  hv_PollInterval :: go_duration
  hv_MaxRate :: int

definition DefaultLogHarvesterConfig :: harvester_config where
  "DefaultLogHarvesterConfig = \<lparr>hv_AutoSyslog = True, hv_WatchPaths = [], hv_TailLines = 50,
     hv_PollInterval = 1 * Second, hv_MaxRate = 500\<rparr>"

definition NewLogHarvester :: "harvester_config \<Rightarrow> harvester_config" where
  "NewLogHarvester cfg = cfg\<lparr>
     hv_TailLines := (if hv_TailLines cfg \<le> 0 then 50 else hv_TailLines cfg),
     hv_PollInterval := (if hv_PollInterval cfg \<le> 0 then 1 * Second else hv_PollInterval cfg),
     hv_MaxRate := (if hv_MaxRate cfg \<le> 0 then 500 else hv_MaxRate cfg)\<rparr>"

definition defaultSyslogCandidates :: "string list" where
  "defaultSyslogCandidates = [''/var/log/syslog'', ''/var/log/auth.log'', ''/var/log/messages'']"

text \<open>The keys of the map of targets; \<open>readable\<close> says which files can be opened.\<close>

definition harvest_targets :: "harvester_config \<Rightarrow> (string \<Rightarrow> bool) \<Rightarrow> string list" where
  "harvest_targets cfg readable =
     (let targets = fold List.insert (filter (\<lambda>p. p \<noteq> []) (map TrimSpace (hv_WatchPaths cfg))) []
      in if hv_AutoSyslog cfg then fold List.insert (filter readable defaultSyslogCandidates) targets else targets)"

lemma fold_insert_set: "set (fold List.insert xs ys) = set xs \<union> set ys"
  by (induction xs arbitrary: ys) auto

lemma fold_insert_distinct: "distinct ys \<Longrightarrow> distinct (fold List.insert xs ys)"
  by (induction xs arbitrary: ys) auto

text \<open>Every file is tailed once: the given paths, and the readable candidates if they are wanted.\<close>

lemma harvest_targets_once:
  "distinct (harvest_targets cfg readable) \<and> [] \<notin> set (harvest_targets cfg readable) \<and>
   set (harvest_targets cfg readable) = TrimSpace ` set (hv_WatchPaths cfg) - {[]} \<union>
     (if hv_AutoSyslog cfg then {p \<in> set defaultSyslogCandidates. readable p} else {})"
proof -
  have "[] \<notin> set defaultSyslogCandidates" by (simp add: defaultSyslogCandidates_def)
  then show ?thesis by (auto simp: harvest_targets_def fold_insert_set fold_insert_distinct)
qed

text \<open>The harvester with its list of active files.  \<open>Start\<close> iterates over the map of targets in the
  order \<open>ord\<close> and starts a tailer for each; a second \<open>Stop\<close> closes a closed channel, which is a panic.\<close>

record harvester =
  hs_cfg :: harvester_config
  hs_active :: "string list"
  hs_stopped :: bool

definition harvester_Start :: "(string \<Rightarrow> bool) \<Rightarrow> string list \<Rightarrow> harvester \<Rightarrow> harvester" where
  "harvester_Start readable ord h =
     (if length (harvest_targets (hs_cfg h) readable) = 0 then h
      else fold (\<lambda>path h. h\<lparr>hs_active := hs_active h @ [path]\<rparr>) ord h)"

definition ActiveFiles :: "harvester \<Rightarrow> string list" where
  "ActiveFiles h = hs_active h"

definition harvester_Stop :: "harvester \<Rightarrow> harvester option" where
  "harvester_Stop h = (if hs_stopped h then None else Some (h\<lparr>hs_stopped := True\<rparr>))"

lemma started_active: "hs_active (fold (\<lambda>path h. h\<lparr>hs_active := hs_active h @ [path]\<rparr>) ord h) = hs_active h @ ord"
  by (induction ord arbitrary: h) simp_all

lemma ActiveFiles_started:
  assumes "set ord = set (harvest_targets (hs_cfg h) readable)" "distinct ord" "hs_active h = []"
  shows "distinct (ActiveFiles (harvester_Start readable ord h)) \<and>
    set (ActiveFiles (harvester_Start readable ord h)) = set (harvest_targets (hs_cfg h) readable)"
  using assms by (auto simp: ActiveFiles_def harvester_Start_def started_active)

section \<open>The last lines of a file\<close>

text \<open>\<open>stat\<close> is the size, if it can be read; \<open>content\<close> is the file when it is read, from which fewer
  bytes may come than asked for (the rest of the buffer stays 0); \<open>failed\<close> is an error other than
  the end of the file.\<close>

definition readLastLines :: "nat option \<Rightarrow> string \<Rightarrow> bool \<Rightarrow> int \<Rightarrow> string list" where
  "readLastLines stat content failed n =
     (if n \<le> 0 then []
      else case stat of None \<Rightarrow> [] | Some fileSize \<Rightarrow>
        if fileSize = 0 then []
        else let bufSize = 64 * 1024;
                 readBytes = (if bufSize > fileSize then fileSize else bufSize);
                 got = take readBytes (drop (fileSize - readBytes) content);
                 buf = got @ replicate (readBytes - length got) (CHR 0x00)
          in if failed then []
             else let lines = Split buf (CHR 0x0A);
                      lines = (if length lines > 0 \<and> last lines = [] then butlast lines else lines)
               in if int (length lines) > n then last_n (nat n) lines else lines)"

section \<open>Tailing a file\<close>

text \<open>\<open>tl_content\<close> is the file; the reader has taken \<open>tl_pos\<close> bytes of it and still holds \<open>tl_buffer\<close>.
  \<open>tl_entries\<close> are the entries handed to \<open>onLog\<close>.\<close>

datatype tail_phase = Tailing | TailStopped

record tailer =
  tl_content :: string
  tl_buffer :: string
  tl_pos :: nat
  tl_offset :: int
  tl_count :: int
  tl_entries :: "log_entry list"
  tl_phase :: tail_phase

definition reader_size :: nat where
  "reader_size = 64 * 1024"

text \<open>\<open>ReadString\<close> up to a newline.  The reader looks in its buffer, sets a full buffer aside, and
  otherwise fills the buffer from the file; at the end of the file it returns what it has, and
  whether there was a newline.\<close>

function read_line :: "string \<Rightarrow> string \<Rightarrow> string \<Rightarrow> nat \<Rightarrow> string \<times> bool \<times> string \<times> nat" where
  "read_line content acc buf pos =
     (case IndexByte buf (CHR 0x0A) of
        Some i \<Rightarrow> (acc @ take (Suc i) buf, True, drop (Suc i) buf, pos)
      | None \<Rightarrow>
          if length buf \<ge> reader_size then read_line content (acc @ buf) [] pos
          else let chunk = take (reader_size - length buf) (drop pos content)
               in if chunk = [] then (acc @ buf, False, [], pos)
                  else read_line content acc (buf @ chunk) (pos + length chunk))"
  by pat_completeness auto

termination
proof (relation "measures [\<lambda>(content, acc, buf, pos). length content - pos, \<lambda>(content, acc, buf, pos). length buf]", goal_cases)
  case (2 content acc buf pos)
  then show ?case by (auto simp: reader_size_def)
next
  case (3 content acc buf pos chunk)
  then have "0 < length chunk" "pos < length content" by auto
  then show ?case by (simp add: diff_less_mono2)
qed simp

declare read_line.simps [simp del]

definition ReadString :: "tailer \<Rightarrow> string \<times> bool \<times> tailer" where
  "ReadString t = (case read_line (tl_content t) [] (tl_buffer t) (tl_pos t) of
     (line, found, buf, pos) \<Rightarrow> (line, found, t\<lparr>tl_buffer := buf, tl_pos := pos\<rparr>))"

text \<open>What is done with a complete line: cut off, shortened, parsed.\<close>

definition line_text :: "string \<Rightarrow> string" where
  "line_text line = (let trimmed = TrimRight line [CHR 0x0D, CHR 0x0A]
     in if length trimmed > 4096 then take 4096 trimmed else trimmed)"

definition line_entries :: "syslog_clock \<Rightarrow> string \<Rightarrow> string \<Rightarrow> log_entry list" where
  "line_entries clock path line =
     (let trimmed = line_text line in if trimmed \<noteq> [] then [ParseSyslogLine clock trimmed path] else [])"

text \<open>The start: the last lines of the file as it is at first, then the position at its end, which may
  have moved on.  \<open>op_stat\<close>, \<open>op_failed\<close> and \<open>op_seek\<close> are the outcomes of the calls on the file; the clock
  is read for every line.\<close>

record tail_open =
  op_stat :: "nat option"
  op_before :: string
  op_failed :: bool
  op_seek :: bool
  op_after :: string
  op_clock :: "nat \<Rightarrow> syslog_clock"

definition tail_start :: "harvester_config \<Rightarrow> string \<Rightarrow> tail_open \<Rightarrow> tailer" where
  "tail_start cfg path op =
     (let initialLines = (if hv_TailLines cfg > 0
            then readLastLines (op_stat op) (op_before op) (op_failed op) (hv_TailLines cfg) else []);
          offset = (if op_seek op then length (op_after op) else 0)
      in \<lparr>tl_content = op_after op, tl_buffer = [], tl_pos = offset, tl_offset = int offset, tl_count = 0,
           tl_entries = map (\<lambda>(i, line). ParseSyslogLine (op_clock op i) line path)
             (enumerate 0 (filter (\<lambda>line. TrimSpace line \<noteq> []) initialLines)),
           tl_phase = Tailing\<rparr>)"

text \<open>One turn of the loop after the \<open>select\<close>: nothing while the rate is exhausted, a line, or the end of
  the file with the check for truncation, if the size can be read.\<close>

definition tail_turn :: "harvester_config \<Rightarrow> string \<Rightarrow> syslog_clock \<Rightarrow> bool \<Rightarrow> tailer \<Rightarrow> tailer" where
  "tail_turn cfg path clock statOk t =
     (if tl_count t \<ge> hv_MaxRate cfg then t
      else case ReadString t of (line, found, t) \<Rightarrow>
        if found then t\<lparr>tl_offset := tl_offset t + int (length line), tl_count := tl_count t + 1,
            tl_entries := tl_entries t @ line_entries clock path line\<rparr>
        else if statOk \<and> int (length (tl_content t)) < tl_offset t
          then t\<lparr>tl_pos := 0, tl_offset := 0, tl_buffer := []\<rparr> else t)"

text \<open>A read that fails after some more bytes: they are lost, with what was in the buffer.\<close>

definition tail_failed :: "harvester_config \<Rightarrow> nat \<Rightarrow> tailer \<Rightarrow> tailer" where
  "tail_failed cfg k t =
     (if tl_count t \<ge> hv_MaxRate cfg \<or> CHR 0x0A \<in> set (tl_buffer t) then t
      else t\<lparr>tl_buffer := [], tl_pos := tl_pos t + k\<rparr>)"

datatype tail_event =
    AppendFile string
  | ReplaceFile string
  | RateTick
  | Turn syslog_clock bool
  | TurnFailed nat
  | StopTail

fun tail_step :: "harvester_config \<Rightarrow> string \<Rightarrow> tail_event \<Rightarrow> tailer \<Rightarrow> tailer option" where
  "tail_step cfg path (AppendFile s) t = Some (t\<lparr>tl_content := tl_content t @ s\<rparr>)"
| "tail_step cfg path (ReplaceFile s) t = Some (t\<lparr>tl_content := s\<rparr>)"
| "tail_step cfg path RateTick t = (if tl_phase t = Tailing then Some (t\<lparr>tl_count := 0\<rparr>) else None)"
| "tail_step cfg path (Turn clock statOk) t =
     (if tl_phase t = Tailing then Some (tail_turn cfg path clock statOk t) else None)"
| "tail_step cfg path (TurnFailed k) t = (if tl_phase t = Tailing then Some (tail_failed cfg k t) else None)"
| "tail_step cfg path StopTail t = (if tl_phase t = Tailing then Some (t\<lparr>tl_phase := TailStopped\<rparr>) else None)"

text \<open>A harvester started on a host whose files are \<open>files\<close>: \<open>None\<close> for a path that cannot be opened.  The
  goroutine of such a path returns at once and never comes back to it.\<close>

definition fileIsReadable :: "(string \<Rightarrow> tail_open option) \<Rightarrow> string \<Rightarrow> bool" where
  "fileIsReadable files path = (case files path of None \<Rightarrow> False | Some f \<Rightarrow> True)"

definition tailFile_open :: "harvester_config \<Rightarrow> (string \<Rightarrow> tail_open option) \<Rightarrow> string \<Rightarrow> tailer option" where
  "tailFile_open cfg files path = (case files path of None \<Rightarrow> None | Some file \<Rightarrow> Some (tail_start cfg path file))"

lemma candidates_tailed:
  assumes "path \<in> set (harvest_targets cfg (fileIsReadable files))" and "path \<notin> TrimSpace ` set (hv_WatchPaths cfg)"
  shows "tailFile_open cfg files path \<noteq> None"
  using assms harvest_targets_once [of cfg "fileIsReadable files"]
  by (auto simp: fileIsReadable_def tailFile_open_def split: option.splits if_splits)

text \<open>A watched path that cannot be opened is among the active files, though nobody reads it.\<close>

lemma unreadable_path_active:
  assumes ord: "set ord = set (harvest_targets (hs_cfg h) (fileIsReadable files))" "distinct ord" "hs_active h = []"
    and path: "path \<in> set (hv_WatchPaths (hs_cfg h))" "TrimSpace path \<noteq> []" "files (TrimSpace path) = None"
  shows "TrimSpace path \<in> set (ActiveFiles (harvester_Start (fileIsReadable files) ord h)) \<and>
    tailFile_open (hs_cfg h) files (TrimSpace path) = None"
  using ActiveFiles_started [OF ord] harvest_targets_once [of "hs_cfg h" "fileIsReadable files"] path
  by (auto simp: tailFile_open_def)

lemma unreadable_path_active_sample:
  "let cfg = (NewLogHarvester DefaultLogHarvesterConfig)\<lparr>hv_WatchPaths := ['' /srv/app.log'']\<rparr>;
       h = harvester_Start (fileIsReadable (\<lambda>path. None)) [''/srv/app.log''] \<lparr>hs_cfg = cfg, hs_active = [], hs_stopped = False\<rparr>
   in ActiveFiles h = [''/srv/app.log''] \<and> tailFile_open cfg (\<lambda>path. None) ''/srv/app.log'' = None"
  by code_simp

section \<open>Lemmas: reading lines\<close>

definition unread :: "tailer \<Rightarrow> string" where
  "unread t = tl_buffer t @ drop (tl_pos t) (tl_content t)"

lemma take_length_drop: "take n xs @ drop (length (take n xs)) xs = xs"
  by (cases "n \<le> length xs") auto

lemma split_first_unique:
  "l @ b # r = l' @ b # r' \<Longrightarrow> b \<notin> set l \<Longrightarrow> b \<notin> set l' \<Longrightarrow> l = l' \<and> r = r'"
proof (induction l arbitrary: l')
  case Nil
  then show ?case by (cases l') auto
next
  case (Cons c l)
  then show ?case by (cases l') auto
qed

text \<open>The result depends only on what has not been read, however it is spread over buffer and file.\<close>

lemma read_line_result:
  assumes "read_line content acc buf pos = (line, found, buf', pos')" "CHR 0x0A \<notin> set acc"
  shows "line @ buf' @ drop pos' content = acc @ buf @ drop pos content \<and>
    (found \<longleftrightarrow> CHR 0x0A \<in> set (buf @ drop pos content)) \<and>
    (found \<longrightarrow> (\<exists>l. line = l @ [CHR 0x0A] \<and> CHR 0x0A \<notin> set l)) \<and>
    (\<not> found \<longrightarrow> buf' = [] \<and> drop pos' content = []) \<and> (pos \<le> length content \<longrightarrow> pos' \<le> length content)"
  using assms
proof (induction content acc buf pos arbitrary: line found buf' pos' rule: read_line.induct)
  case (1 content acc buf pos)
  show ?case
  proof (cases "IndexByte buf (CHR 0x0A)")
    case (Some i)
    then have i: "i < length buf" "buf ! i = CHR 0x0A" "CHR 0x0A \<notin> set (take i buf)" by (auto dest: IndexByte_Some)
    then have "take (Suc i) buf = take i buf @ [CHR 0x0A]" by (simp add: take_Suc_conv_app_nth)
    moreover have "CHR 0x0A \<in> set buf" using i(1,2) nth_mem by force
    ultimately show ?thesis
      using "1.prems" Some i(3) append_take_drop_id [of "Suc i" buf]
      by (auto simp: read_line.simps [of content acc buf] intro!: exI [of _ "acc @ take i buf"])
  next
    case None
    then have nl: "CHR 0x0A \<notin> set buf" by (simp add: IndexByte_None)
    show ?thesis
    proof (cases "length buf \<ge> reader_size")
      case True
      with "1.prems"(1) None have "read_line content (acc @ buf) [] pos = (line, found, buf', pos')"
        by (simp add: read_line.simps [of content acc buf])
      from "1.IH"(1) [OF None True this] nl "1.prems"(2) show ?thesis by simp
    next
      case False
      let ?chunk = "take (reader_size - length buf) (drop pos content)"
      show ?thesis
      proof (cases "?chunk = []")
        case True
        then show ?thesis using "1.prems" None False nl
          by (auto simp: read_line.simps [of content acc buf] Let_def)
      next
        case chunk: False
        with "1.prems"(1) None False have
          step: "read_line content acc (buf @ ?chunk) (pos + length ?chunk) = (line, found, buf', pos')"
          by (simp add: read_line.simps [of content acc buf] Let_def)
        have "?chunk @ drop (pos + length ?chunk) content = drop pos content"
          using take_length_drop [of "reader_size - length buf" "drop pos content"] by (simp only: drop_drop add.commute)
        then have whole: "(buf @ ?chunk) @ drop (pos + length ?chunk) content = buf @ drop pos content"
          by (simp only: append.assoc)
        have le: "pos \<le> length content \<longrightarrow> pos + length ?chunk \<le> length content" by auto
        from "1.IH"(2) [OF None False refl chunk step "1.prems"(2)] le show ?thesis unfolding whole by blast
      qed
    qed
  qed
qed

section \<open>Lemmas: tailing\<close>

text \<open>The position lies within the file, and the offset at least as far from its end as there is left to read.\<close>

definition in_file :: "tailer \<Rightarrow> bool" where
  "in_file t \<longleftrightarrow> tl_pos t \<le> length (tl_content t) \<and> tl_offset t + int (length (unread t)) \<le> int (length (tl_content t))"

lemma tail_turn_line:
  assumes "unread t = l @ CHR 0x0A # rest" "CHR 0x0A \<notin> set l" "tl_count t < hv_MaxRate cfg"
  shows "\<exists>buf pos. buf @ drop pos (tl_content t) = rest \<and> (tl_pos t \<le> length (tl_content t) \<longrightarrow> pos \<le> length (tl_content t)) \<and>
    tail_turn cfg path clock statOk t = t\<lparr>tl_buffer := buf, tl_pos := pos,
      tl_offset := tl_offset t + int (length l) + 1, tl_count := tl_count t + 1,
      tl_entries := tl_entries t @ line_entries clock path (l @ [CHR 0x0A])\<rparr>"
proof -
  obtain line found buf pos where r: "read_line (tl_content t) [] (tl_buffer t) (tl_pos t) = (line, found, buf, pos)"
    by (cases "read_line (tl_content t) [] (tl_buffer t) (tl_pos t)") auto
  have "CHR 0x0A \<in> set (tl_buffer t @ drop (tl_pos t) (tl_content t))" using assms(1) by (simp add: unread_def)
  with read_line_result [OF r] assms(1) obtain l' where
    l': "found" "line = l' @ [CHR 0x0A]" "CHR 0x0A \<notin> set l'" "line @ buf @ drop pos (tl_content t) = l @ CHR 0x0A # rest"
    unfolding unread_def by auto
  then have "l' @ CHR 0x0A # (buf @ drop pos (tl_content t)) = l @ CHR 0x0A # rest" by simp
  from split_first_unique [OF this l'(3) assms(2)] have "l' = l" "buf @ drop pos (tl_content t) = rest" by simp_all
  then show ?thesis using assms(3) l'(1,2) r read_line_result [OF r]
    by (intro exI [of _ buf] exI [of _ pos]) (simp add: tail_turn_def ReadString_def)
qed

lemma tail_turn_eof:
  assumes "CHR 0x0A \<notin> set (unread t)" "tl_count t < hv_MaxRate cfg" "in_file t"
  shows "tail_turn cfg path clock statOk t = t\<lparr>tl_buffer := [], tl_pos := length (tl_content t)\<rparr>"
proof -
  obtain line found buf pos where r: "read_line (tl_content t) [] (tl_buffer t) (tl_pos t) = (line, found, buf, pos)"
    by (cases "read_line (tl_content t) [] (tl_buffer t) (tl_pos t)") auto
  from read_line_result [OF r] assms(1,3) have "\<not> found" "buf = []" "pos = length (tl_content t)"
    by (auto simp: unread_def in_file_def)
  then show ?thesis using assms(2,3) r by (simp add: tail_turn_def ReadString_def in_file_def)
qed

text \<open>Whole lines: what a writer appends that flushes at the ends of lines.\<close>

definition whole_lines :: "string \<Rightarrow> bool" where
  "whole_lines s \<longleftrightarrow> s = [] \<or> last s = CHR 0x0A"

definition lines_ok :: "string list \<Rightarrow> bool" where
  "lines_ok ls \<longleftrightarrow> (\<forall>l \<in> set ls. CHR 0x0A \<notin> set l)"

lemma unlines_append: "unlines (xs @ ys) = unlines xs @ unlines ys"
  by (simp add: unlines_def)

lemma unlines_inject:
  assumes "lines_ok ls" "lines_ok ls'" "unlines ls = unlines ls'"
  shows "ls = ls'"
proof -
  have "ls @ [[]] = Split (unlines ls) (CHR 0x0A)" using assms(1) by (simp add: Split_unlines lines_ok_def)
  also have "\<dots> = ls' @ [[]]" unfolding assms(3) using assms(2) by (simp add: Split_unlines lines_ok_def)
  finally show ?thesis by simp
qed

lemma whole_lines_unlines: "whole_lines s \<Longrightarrow> \<exists>ls. s = unlines ls \<and> lines_ok ls"
proof (induction s rule: length_induct)
  case (1 s)
  show ?case
  proof (cases "s = []")
    case True
    then show ?thesis by (intro exI [of _ "[]"]) (simp add: unlines_def lines_ok_def)
  next
    case False
    then have "CHR 0x0A \<in> set s" using 1 by (metis last_in_set whole_lines_def)
    then obtain l r where s: "s = l @ CHR 0x0A # r" "CHR 0x0A \<notin> set l" by (meson split_list_first)
    have "last s = CHR 0x0A" using "1.prems" False by (simp add: whole_lines_def)
    then have "whole_lines r" using s by (cases "r = []") (simp_all add: whole_lines_def)
    moreover have "length r < length s" by (simp add: s(1))
    ultimately obtain ls where "r = unlines ls" "lines_ok ls" using "1.IH" by blast
    with s show ?thesis by (intro exI [of _ "l # ls"]) (simp add: unlines_Cons lines_ok_def)
  qed
qed

fun quiet :: "tail_event \<Rightarrow> bool" where
  "quiet (AppendFile s) = whole_lines s"
| "quiet (ReplaceFile s) = False"
| "quiet (TurnFailed k) = False"
| "quiet _ = True"

definition appended :: "tail_event list \<Rightarrow> string" where
  "appended es = concat (map (\<lambda>e. case e of AppendFile s \<Rightarrow> s | _ \<Rightarrow> []) es)"

text \<open>Each line that is not empty gives one entry, parsed at some reading of the clock.\<close>

definition entries_of :: "string \<Rightarrow> log_entry list \<Rightarrow> string list \<Rightarrow> bool" where
  "entries_of path new ls \<longleftrightarrow> list_all2 (\<lambda>e l. \<exists>clock. e = ParseSyslogLine clock (line_text l) path)
     new (filter (\<lambda>l. line_text l \<noteq> []) ls)"

lemma line_text_newline [simp]: "line_text (l @ [CHR 0x0A]) = line_text l"
  by (simp add: line_text_def TrimRight_def)

lemma entries_of_snoc:
  "entries_of path new ls \<Longrightarrow> entries_of path (new @ line_entries clock path (l @ [CHR 0x0A])) (ls @ [l])"
  by (auto simp: entries_of_def line_entries_def Let_def intro: list_all2_appendI)

text \<open>How the state stands to the lines appended so far.\<close>

definition tail_at :: "string \<Rightarrow> log_entry list \<Rightarrow> string list \<Rightarrow> nat \<Rightarrow> tailer \<Rightarrow> bool" where
  "tail_at path old ls k t \<longleftrightarrow> lines_ok ls \<and> k \<le> length ls \<and> unread t = unlines (drop k ls) \<and> in_file t \<and>
     (\<exists>new. tl_entries t = old @ new \<and> entries_of path new (take k ls))"

lemma tail_at_turn:
  assumes "tail_at path old ls k t"
  shows "tail_at path old ls
    (if tl_count t < hv_MaxRate cfg \<and> k < length ls then Suc k else k) (tail_turn cfg path clock statOk t)"
proof (cases "tl_count t < hv_MaxRate cfg")
  case False
  then show ?thesis using assms by (simp add: tail_turn_def)
next
  case count: True
  note at = assms [unfolded tail_at_def]
  show ?thesis
  proof (cases "k < length ls")
    case False
    then have "CHR 0x0A \<notin> set (unread t)" using at by (simp add: unlines_def)
    from tail_turn_eof [OF this count] at False show ?thesis
      by (auto simp: tail_at_def unread_def in_file_def unlines_def)
  next
    case True
    then have u: "unread t = ls ! k @ CHR 0x0A # unlines (drop (Suc k) ls)" and nl: "CHR 0x0A \<notin> set (ls ! k)"
      using at by (simp_all add: Cons_nth_drop_Suc [symmetric] unlines_Cons lines_ok_def)
    from tail_turn_line [OF u nl count, of path clock statOk] obtain buf pos where
      t': "buf @ drop pos (tl_content t) = unlines (drop (Suc k) ls)"
      "tl_pos t \<le> length (tl_content t) \<longrightarrow> pos \<le> length (tl_content t)"
      "tail_turn cfg path clock statOk t = t\<lparr>tl_buffer := buf, tl_pos := pos,
        tl_offset := tl_offset t + int (length (ls ! k)) + 1, tl_count := tl_count t + 1,
        tl_entries := tl_entries t @ line_entries clock path (ls ! k @ [CHR 0x0A])\<rparr>" by blast
    obtain new where new: "tl_entries t = old @ new" "entries_of path new (take k ls)" using at by blast
    have left: "unread (tail_turn cfg path clock statOk t) = unlines (drop (Suc k) ls)"
      unfolding t'(3) by (simp add: unread_def t'(1))
    moreover have "in_file (tail_turn cfg path clock statOk t)"
      using at t'(2) unfolding in_file_def left by (simp add: t'(3) u)
    moreover have "entries_of path (new @ line_entries clock path (ls ! k @ [CHR 0x0A])) (take (Suc k) ls)"
      using entries_of_snoc [OF new(2)] True by (simp add: take_Suc_conv_app_nth)
    ultimately show ?thesis using at True count new(1) by (auto simp: tail_at_def t'(3))
  qed
qed

lemma tail_at_append:
  assumes "tail_at path old ls k t" "lines_ok new"
  shows "tail_at path old (ls @ new) k (t\<lparr>tl_content := tl_content t @ unlines new\<rparr>)"
proof -
  have "unread (t\<lparr>tl_content := tl_content t @ unlines new\<rparr>) = unread t @ unlines new"
    using assms(1) by (simp add: unread_def tail_at_def in_file_def)
  then show ?thesis using assms by (auto simp: tail_at_def in_file_def lines_ok_def unlines_append)
qed

lemma tail_at_other:
  assumes "tail_at path old ls k t" "tl_content t' = tl_content t" "tl_buffer t' = tl_buffer t" "tl_pos t' = tl_pos t"
    "tl_offset t' = tl_offset t" "tl_entries t' = tl_entries t"
  shows "tail_at path old ls k t'"
proof -
  have "unread t' = unread t" using assms(2-4) by (simp add: unread_def)
  then show ?thesis using assms by (auto simp: tail_at_def in_file_def)
qed

lemma tail_at_step:
  assumes "tail_at path old ls k t" "tail_step cfg path e t = Some t'" "quiet e" "appended [e] = unlines new" "lines_ok new"
  shows "\<exists>k' \<ge> k. tail_at path old (ls @ new) k' t'"
proof (cases e)
  case (AppendFile s)
  with assms show ?thesis by (auto simp: appended_def intro: tail_at_append)
next
  case (Turn clock statOk)
  with assms(2,4) have "new = []" "t' = tail_turn cfg path clock statOk t"
    by (auto simp: appended_def unlines_def split: if_splits)
  with tail_at_turn [OF assms(1), of cfg clock statOk] show ?thesis
    by (intro exI [of _ "if tl_count t < hv_MaxRate cfg \<and> k < length ls then Suc k else k"]) simp
next
  case RateTick
  with assms tail_at_other [OF assms(1), of "t\<lparr>tl_count := 0\<rparr>"] show ?thesis
    by (intro exI [of _ k]) (auto simp: appended_def unlines_def split: if_splits)
next
  case StopTail
  with assms tail_at_other [OF assms(1), of "t\<lparr>tl_phase := TailStopped\<rparr>"] show ?thesis
    by (intro exI [of _ k]) (auto simp: appended_def unlines_def split: if_splits)
qed (use assms(3) in simp_all)

text \<open>Runs in which only whole lines are appended.\<close>

lemma tail_at_run:
  assumes "tail_at path old ls k t" "run (tail_step cfg path) es t = Some t'" "\<forall>e \<in> set es. quiet e"
  shows "\<exists>new k'. appended es = unlines new \<and> k \<le> k' \<and> tail_at path old (ls @ new) k' t'"
  using assms
proof (induction es arbitrary: t ls k)
  case Nil
  then show ?case by (intro exI [of _ "[]"] exI [of _ k]) (simp add: appended_def unlines_def)
next
  case (Cons e es)
  then obtain t1 where t1: "tail_step cfg path e t = Some t1" "run (tail_step cfg path) es t1 = Some t'"
    by (auto split: option.splits)
  obtain new where new: "appended [e] = unlines new" "lines_ok new"
  proof (cases e)
    case (AppendFile s)
    then show ?thesis using Cons.prems(3) whole_lines_unlines [of s] that by (auto simp: appended_def)
  qed (use that [of "[]"] in \<open>simp_all add: appended_def unlines_def lines_ok_def\<close>)
  from tail_at_step [OF Cons.prems(1) t1(1) _ new] Cons.prems(3) obtain k1 where
    k1: "k \<le> k1" "tail_at path old (ls @ new) k1 t1" by auto
  from Cons.IH [OF k1(2) t1(2)] Cons.prems(3) obtain new' k' where
    "appended es = unlines new'" "k1 \<le> k'" "tail_at path old (ls @ new @ new') k' t'" by auto
  with new k1(1) show ?case
    by (intro exI [of _ "new @ new'"] exI [of _ k']) (simp add: appended_def unlines_append)
qed

lemma tail_at_start:
  assumes "op_seek op"
  shows "tail_at path (tl_entries (tail_start cfg path op)) [] 0 (tail_start cfg path op)"
  using assms by (simp add: tail_at_def tail_start_def unread_def in_file_def lines_ok_def unlines_def entries_of_def Let_def)

text \<open>A second in which the ticker fires and the loop then takes a turn.\<close>

fun by_tailer :: "tail_event \<Rightarrow> bool" where
  "by_tailer RateTick = True"
| "by_tailer (Turn clock statOk) = True"
| "by_tailer _ = False"

definition second :: "tail_event list \<Rightarrow> bool" where
  "second es \<longleftrightarrow> list_all by_tailer es \<and> (\<exists>xs clock statOk ys. es = xs @ [RateTick, Turn clock statOk] @ ys)"

lemma ReadString_frame:
  assumes "ReadString t = (line, found, t')"
  shows "tl_phase t' = tl_phase t" "tl_count t' = tl_count t" "tl_entries t' = tl_entries t"
  using assms by (auto simp: ReadString_def split: prod.splits)

lemma tail_turn_phase [simp]: "tl_phase (tail_turn cfg path clock statOk t) = tl_phase t"
  by (auto simp: tail_turn_def dest: ReadString_frame split: prod.split)

lemma tail_steps:
  assumes "tail_at path old ls k t" "tl_phase t = Tailing" "list_all by_tailer es"
  shows "\<exists>t' k'. run (tail_step cfg path) es t = Some t' \<and> tl_phase t' = Tailing \<and> k \<le> k' \<and> tail_at path old ls k' t'"
  using assms
proof (induction es arbitrary: t k)
  case (Cons e es)
  obtain t1 k1 where t1: "tail_step cfg path e t = Some t1" "tl_phase t1 = Tailing" "k \<le> k1" "tail_at path old ls k1 t1"
  proof (cases e)
    case RateTick
    then show ?thesis using Cons.prems(1,2) by (intro that [of "t\<lparr>tl_count := 0\<rparr>" k]) (auto intro: tail_at_other)
  next
    case (Turn clock statOk)
    then show ?thesis using Cons.prems(2) tail_at_turn [OF Cons.prems(1), of cfg clock statOk]
      by (intro that [of "tail_turn cfg path clock statOk t"]) auto
  qed (use Cons.prems(3) in auto)
  from Cons.IH [OF t1(4,2)] Cons.prems(3) obtain t' k' where
    "run (tail_step cfg path) es t1 = Some t'" "tl_phase t' = Tailing" "k1 \<le> k'" "tail_at path old ls k' t'" by auto
  with t1(1,3) show ?case by (intro exI [of _ t'] exI [of _ k']) simp
qed auto

lemma tail_second:
  assumes "tail_at path old ls k t" "tl_phase t = Tailing" "second es" "0 < hv_MaxRate cfg"
  shows "\<exists>t' k'. run (tail_step cfg path) es t = Some t' \<and> tl_phase t' = Tailing \<and> min (Suc k) (length ls) \<le> k' \<and>
    tail_at path old ls k' t'"
proof -
  from assms(3) obtain xs clock statOk ys where es: "es = xs @ [RateTick, Turn clock statOk] @ ys"
    "list_all by_tailer xs" "list_all by_tailer ys" by (auto simp: second_def)
  from tail_steps [OF assms(1,2) es(2), of cfg] obtain t1 k1 where
    t1: "run (tail_step cfg path) xs t = Some t1" "tl_phase t1 = Tailing" "k \<le> k1" "tail_at path old ls k1 t1" by blast
  let ?t2 = "tail_turn cfg path clock statOk (t1\<lparr>tl_count := 0\<rparr>)" and ?k2 = "if k1 < length ls then Suc k1 else k1"
  have "tail_at path old ls k1 (t1\<lparr>tl_count := 0\<rparr>)" by (rule tail_at_other [OF t1(4)]) simp_all
  from tail_at_turn [OF this, of cfg clock statOk] assms(4) have "tail_at path old ls ?k2 ?t2" by simp
  from tail_steps [OF this _ es(3), of cfg] t1(2) obtain t3 k3 where
    "run (tail_step cfg path) ys ?t2 = Some t3" "tl_phase t3 = Tailing" "?k2 \<le> k3" "tail_at path old ls k3 t3" by auto
  then show ?thesis using t1 by (intro exI [of _ t3] exI [of _ k3]) (auto simp: es run_append split: if_splits)
qed

lemma tail_seconds:
  assumes "tail_at path old ls k t" "tl_phase t = Tailing" "\<forall>es \<in> set ess. second es" "0 < hv_MaxRate cfg"
  shows "\<exists>t' k'. run (tail_step cfg path) (concat ess) t = Some t' \<and> min (k + length ess) (length ls) \<le> k' \<and>
    tail_at path old ls k' t'"
  using assms
proof (induction ess arbitrary: t k)
  case (Cons es ess)
  from tail_second [OF Cons.prems(1,2) _ Cons.prems(4), of es] Cons.prems(3) obtain t1 k1 where
    t1: "run (tail_step cfg path) es t = Some t1" "tl_phase t1 = Tailing" "min (Suc k) (length ls) \<le> k1" "tail_at path old ls k1 t1"
    by auto
  from Cons.IH [OF t1(4,2) _ Cons.prems(4)] Cons.prems(3) obtain t' k' where
    "run (tail_step cfg path) (concat ess) t1 = Some t'" "min (k1 + length ess) (length ls) \<le> k'" "tail_at path old ls k' t'" by auto
  with t1(1,3) show ?case by (intro exI [of _ t'] exI [of _ k']) (auto simp: run_append)
qed (auto simp: tail_at_def)

text \<open>Lines in a period.\<close>

definition rate_ticks :: "tail_event list \<Rightarrow> nat" where
  "rate_ticks es = length (filter (\<lambda>e. e = RateTick) es)"

lemma tail_turn_count:
  assumes "tl_count t \<le> hv_MaxRate cfg"
  shows "tl_count (tail_turn cfg path clock statOk t) \<le> hv_MaxRate cfg \<and>
    int (length (tl_entries (tail_turn cfg path clock statOk t))) - tl_count (tail_turn cfg path clock statOk t)
      \<le> int (length (tl_entries t)) - tl_count t"
proof -
  obtain line found t1 where r: "ReadString t = (line, found, t1)" by (cases "ReadString t") auto
  show ?thesis using assms ReadString_frame [OF r] by (simp add: tail_turn_def r line_entries_def Let_def)
qed

lemma tail_step_rate:
  assumes "tail_step cfg path e t = Some t'" "tl_count t \<le> hv_MaxRate cfg" "0 \<le> hv_MaxRate cfg"
  shows "tl_count t' \<le> hv_MaxRate cfg \<and> int (length (tl_entries t')) - tl_count t'
    \<le> int (length (tl_entries t)) - tl_count t + hv_MaxRate cfg * int (rate_ticks [e])"
proof (cases e)
  case (Turn clock statOk)
  then show ?thesis using assms tail_turn_count [OF assms(2), of path clock statOk]
    by (auto simp: rate_ticks_def split: if_splits)
qed (use assms in \<open>auto simp: rate_ticks_def tail_failed_def split: if_splits\<close>)

lemma tail_run_rate:
  assumes "run (tail_step cfg path) es t = Some t'" "tl_count t \<le> hv_MaxRate cfg" "0 \<le> hv_MaxRate cfg"
  shows "tl_count t' \<le> hv_MaxRate cfg \<and> int (length (tl_entries t')) - tl_count t'
    \<le> int (length (tl_entries t)) - tl_count t + hv_MaxRate cfg * int (rate_ticks es)"
  using assms
proof (induction es arbitrary: t)
  case Nil
  then show ?case by (simp add: rate_ticks_def)
next
  case (Cons e es)
  then obtain t1 where t1: "tail_step cfg path e t = Some t1" "run (tail_step cfg path) es t1 = Some t'"
    by (auto split: option.splits)
  have "rate_ticks (e # es) = rate_ticks [e] + rate_ticks es" by (simp add: rate_ticks_def)
  then show ?case
    using tail_step_rate [OF t1(1) Cons.prems(2,3)] Cons.IH [OF t1(2) _ Cons.prems(3)]
    by (simp add: distrib_left)
qed

section \<open>Lemmas: the last lines\<close>

lemma Split_whole:
  "a \<noteq> [] \<Longrightarrow> last a = b \<Longrightarrow> \<exists>xs. xs \<noteq> [] \<and> (\<forall>s. Split (a @ s) b = xs @ Split s b)"
proof (induction a)
  case (Cons c a)
  show ?case
  proof (cases "a = []")
    case True
    then show ?thesis using Cons.prems by (intro exI [of _ "[[]]"]) simp
  next
    case False
    with Cons obtain xs where "xs \<noteq> []" "\<forall>s. Split (a @ s) b = xs @ Split s b" by auto
    then show ?thesis
      by (cases xs) (auto intro: exI [of _ "[] # xs"] exI [of _ "(c # hd xs) # tl xs"])
  qed
qed simp

lemma Split_none: "b \<notin> set p \<Longrightarrow> Split p b = [p]"
  by (induction p) auto

lemma Split_lines: "lines_ok ls \<Longrightarrow> CHR 0x0A \<notin> set p \<Longrightarrow> Split (unlines ls @ p) (CHR 0x0A) = ls @ [p]"
proof (induction ls)
  case Nil
  then show ?case by (simp add: unlines_def Split_none)
next
  case (Cons l ls)
  then show ?case by (simp add: lines_ok_def unlines_Cons Split_append)
qed

lemma readLastLines_file:
  "readLastLines (Some (length c)) c False n =
    (let k = (if 65536 > length c then length c else 65536); lines = Split (take k (drop (length c - k) c)) (CHR 0x0A);
       lines = (if length lines > 0 \<and> last lines = [] then butlast lines else lines)
     in if n \<le> 0 \<or> c = [] then [] else if int (length lines) > n then last_n (nat n) lines else lines)"
  by (simp add: readLastLines_def Let_def)

section \<open>Properties\<close>

text \<open>C33. At the start, exactly the last lines of the file are taken: whatever comes before, if the last
  \<open>n\<close> lines fit into 64 KiB, \<open>readLastLines\<close> returns them, or all lines if the file has no more.  An
  incomplete line at the end counts as a line.\<close>

theorem read_last_lines:
  fixes ls :: "string list" and p :: string
  defines "rows \<equiv> ls @ (if p = [] then [] else [p])"
  assumes "lines_ok ls" "CHR 0x0A \<notin> set p" "whole_lines pre" "length (unlines ls @ p) \<le> 65536"
    and "pre = [] \<or> n \<le> int (length rows)"
  shows "readLastLines (Some (length (pre @ unlines ls @ p))) (pre @ unlines ls @ p) False n = last_n (nat n) rows"
proof -
  let ?c = "pre @ unlines ls @ p"
  let ?k = "if 65536 > length ?c then length ?c else 65536"
  let ?w = "drop (length ?c - ?k) pre"
  have window: "take ?k (drop (length ?c - ?k) ?c) = ?w @ unlines ls @ p" using assms(5) by simp
  have "?w = [] \<or> last ?w = CHR 0x0A"
    using assms(4) by (cases "?w = []") (auto simp: whole_lines_def last_drop)
  then obtain xs where xs: "Split (?w @ unlines ls @ p) (CHR 0x0A) = xs @ ls @ [p]" "?w = [] \<longrightarrow> xs = []"
    using Split_whole [of ?w "CHR 0x0A"] Split_lines [OF assms(2,3)] by (cases "?w = []") auto
  have strip: "(if length (xs @ ls @ [p]) > 0 \<and> last (xs @ ls @ [p]) = [] then butlast (xs @ ls @ [p]) else xs @ ls @ [p]) = xs @ rows"
    by (simp add: rows_def butlast_append)
  have pick: "(if int (length (xs @ rows)) > n then last_n (nat n) (xs @ rows) else xs @ rows) = last_n (nat n) rows"
    if "0 < n"
  proof (cases "pre = []")
    case True
    then show ?thesis using xs(2) that by simp
  next
    case False
    with that assms(6) have n: "nat n \<le> length rows" "n \<le> int (length rows)" by simp_all
    show ?thesis
    proof (cases "xs = []")
      case False
      then have "n < int (length (xs @ rows))" using n(2) by (cases xs) simp_all
      with last_n_append [OF n(1), of xs] show ?thesis by simp
    qed (use n(2) that in simp)
  qed
  have none: "rows = []" if "?c = []" using that by (cases ls) (auto simp: rows_def unlines_Cons)
  show ?thesis
  proof (cases "n \<le> 0 \<or> ?c = []")
    case True
    then show ?thesis using none by (auto simp: readLastLines_def)
  next
    case False
    then show ?thesis unfolding readLastLines_file Let_def window xs(1) strip using pick by (simp only: if_False) linarith
  qed
qed

theorem read_last_lines_witness:
  "readLastLines (Some (length (unlines [''a'', ''b''] @ unlines [''c''] @ ''d'')))
     (unlines [''a'', ''b''] @ unlines [''c''] @ ''d'') False 2 = [''c'', ''d'']"
  using read_last_lines [of "[''c'']" "''d''" "unlines [''a'', ''b'']" 2]
  by (simp add: lines_ok_def whole_lines_def unlines_def last_n_def)

text \<open>C34. Tailing loses, duplicates and reorders nothing: from the start of a tailer, in any interleaving of
  its turns, ticks and its end with writers that append whole lines, the entries handed on are those
  of a prefix of the appended lines, one for every line that is not empty (shortened to 4096 bytes),
  in order, after the entries of the start; and what has not been read are exactly the other lines.\<close>

theorem tail_lines_in_order:
  assumes "op_seek op" "run (tail_step cfg path) es (tail_start cfg path op) = Some t" "\<forall>e \<in> set es. quiet e"
  shows "\<exists>done todo new. appended es = unlines (done @ todo) \<and> lines_ok (done @ todo) \<and>
    tl_entries t = tl_entries (tail_start cfg path op) @ new \<and> entries_of path new done \<and> unread t = unlines todo"
proof -
  from tail_at_run [OF tail_at_start [OF assms(1)] assms(2,3)] obtain ls k where
    ls: "appended es = unlines ls" "tail_at path (tl_entries (tail_start cfg path op)) ls k t" by auto
  then obtain new where "tl_entries t = tl_entries (tail_start cfg path op) @ new" "entries_of path new (take k ls)"
    "lines_ok ls" "unread t = unlines (drop k ls)" by (auto simp: tail_at_def)
  with ls(1) show ?thesis by (intro exI [of _ "take k ls"] exI [of _ "drop k ls"] exI [of _ new]) simp
qed

definition sample_open :: "string \<Rightarrow> tail_open" where
  "sample_open s = \<lparr>op_stat = Some (length s), op_before = s, op_failed = False, op_seek = True, op_after = s,
     op_clock = (\<lambda>i. \<lparr>sy_now = 0, sy_year = ''2026''\<rparr>)\<rparr>"

lemma sample_start:
  "tail_start DefaultLogHarvesterConfig path (sample_open []) = \<lparr>tl_content = [], tl_buffer = [], tl_pos = 0,
    tl_offset = 0, tl_count = 0, tl_entries = [], tl_phase = Tailing\<rparr>"
  by (simp add: tail_start_def sample_open_def readLastLines_def Let_def)

lemma sample_seek: "op_seek (sample_open s)"
  by (simp add: sample_open_def)

lemma default_rate: "hv_MaxRate DefaultLogHarvesterConfig = 500"
  by (simp add: DefaultLogHarvesterConfig_def)

definition sample_clock :: syslog_clock where
  "sample_clock = \<lparr>sy_now = 7, sy_year = ''2026''\<rparr>"

theorem tail_lines_in_order_witness:
  "\<exists>t done todo new. run (tail_step DefaultLogHarvesterConfig ''f'')
      [AppendFile (unlines [''one'', ''two'']), Turn sample_clock True] (tail_start DefaultLogHarvesterConfig ''f'' (sample_open [])) = Some t \<and>
    appended [AppendFile (unlines [''one'', ''two'']), Turn sample_clock True] = unlines (done @ todo) \<and>
    entries_of ''f'' new done \<and> unread t = unlines todo"
proof -
  let ?es = "[AppendFile (unlines [''one'', ''two'']), Turn sample_clock True]"
  obtain t where t: "run (tail_step DefaultLogHarvesterConfig ''f'') ?es (tail_start DefaultLogHarvesterConfig ''f'' (sample_open [])) = Some t"
    by (simp add: sample_start)
  have "\<forall>e \<in> set ?es. quiet e" by (simp add: whole_lines_def unlines_def)
  from tail_lines_in_order [OF sample_seek t this] show ?thesis
    by (elim exE conjE, intro exI conjI) (rule t, assumption+)
qed

text \<open>C35. The tailer catches up: from any state that it reaches as above and in which it has not been
  stopped, if nothing more is appended, once as many seconds have passed as lines were appended, in
  each of which the ticker fires and the loop takes a turn, every appended line has been handed on and
  nothing is left unread.\<close>

theorem tail_catches_up:
  assumes "op_seek op" "0 < hv_MaxRate cfg" "run (tail_step cfg path) es (tail_start cfg path op) = Some t"
    and "\<forall>e \<in> set es. quiet e" "tl_phase t = Tailing" "appended es = unlines ls" "lines_ok ls"
    and "\<forall>s \<in> set seconds. second s" "length ls \<le> length seconds"
  shows "\<exists>t' new. run (tail_step cfg path) (concat seconds) t = Some t' \<and> unread t' = [] \<and>
    tl_entries t' = tl_entries (tail_start cfg path op) @ new \<and> entries_of path new ls"
proof -
  from tail_at_run [OF tail_at_start [OF assms(1)] assms(3,4)] obtain ls' k where
    ls': "appended es = unlines ls'" "tail_at path (tl_entries (tail_start cfg path op)) ls' k t" by auto
  then have "lines_ok ls'" by (simp add: tail_at_def)
  then have "ls' = ls" using ls'(1) assms(6,7) by (intro unlines_inject) simp_all
  with tail_seconds [OF ls'(2) assms(5,8,2)] obtain t' k' where
    t': "run (tail_step cfg path) (concat seconds) t = Some t'" "min (k + length seconds) (length ls) \<le> k'"
    "tail_at path (tl_entries (tail_start cfg path op)) ls k' t'" by auto
  then have "k' = length ls" using assms(9) by (simp add: tail_at_def)
  with t' show ?thesis by (auto simp: tail_at_def unlines_def)
qed

theorem tail_catches_up_witness:
  "\<exists>t new. run (tail_step DefaultLogHarvesterConfig ''f'') (concat [[RateTick, Turn sample_clock True]])
      ((tail_start DefaultLogHarvesterConfig ''f'' (sample_open []))\<lparr>tl_content := unlines [''one'']\<rparr>) = Some t \<and>
    unread t = [] \<and> entries_of ''f'' new [''one'']"
proof -
  let ?cfg = "DefaultLogHarvesterConfig"
  have start: "run (tail_step ?cfg ''f'') [AppendFile (unlines [''one''])] (tail_start ?cfg ''f'' (sample_open [])) =
      Some ((tail_start ?cfg ''f'' (sample_open []))\<lparr>tl_content := unlines [''one'']\<rparr>)"
    by (simp add: sample_start)
  have "second [RateTick, Turn sample_clock True]"
    unfolding second_def by (intro conjI exI [of _ "[]"] exI [of _ sample_clock] exI [of _ True]) simp_all
  then have "\<forall>s \<in> set [[RateTick, Turn sample_clock True]]. second s" by simp
  moreover have "0 < hv_MaxRate ?cfg" by (simp add: default_rate)
  moreover have "\<forall>e \<in> set [AppendFile (unlines [''one''])]. quiet e" by (simp add: whole_lines_def unlines_def)
  moreover have "tl_phase ((tail_start ?cfg ''f'' (sample_open []))\<lparr>tl_content := unlines [''one'']\<rparr>) = Tailing"
    by (simp add: sample_start)
  moreover have "appended [AppendFile (unlines [''one''])] = unlines [''one'']" "lines_ok [''one'']"
    by (simp_all add: appended_def lines_ok_def)
  ultimately show ?thesis
    using tail_catches_up [OF sample_seek _ start, of "[''one'']" "[[RateTick, Turn sample_clock True]]"] by auto
qed

text \<open>Between two ticks of the rate ticker at most \<open>MaxRate\<close> lines are handed on.\<close>

lemma tail_rate_limited:
  assumes "run (tail_step (NewLogHarvester cfg) path) es (tail_start (NewLogHarvester cfg) path op) = Some t"
  shows "int (length (tl_entries t)) \<le> int (length (tl_entries (tail_start (NewLogHarvester cfg) path op))) +
      hv_MaxRate (NewLogHarvester cfg) * int (1 + rate_ticks es) \<and> 0 < hv_MaxRate (NewLogHarvester cfg)"
proof -
  have pos: "0 < hv_MaxRate (NewLogHarvester cfg)" by (simp add: NewLogHarvester_def)
  with tail_run_rate [OF assms] show ?thesis
    by (simp add: tail_start_def Let_def distrib_left)
qed

text \<open>C36. A line that is written in two pieces is cut: if the tailer reaches the end of the file between
  them, the first piece is read and thrown away, only the second becomes an entry, and the offset
  stays behind by the length of the first, so that a later truncation may be noticed too late.\<close>

theorem partial_line_lost:
  fixes path p q :: string
  assumes "op_seek op" "0 < hv_MaxRate cfg" "CHR 0x0A \<notin> set p" "CHR 0x0A \<notin> set q"
  defines "t0 \<equiv> tail_start cfg path op"
  shows "\<exists>t. run (tail_step cfg path) [AppendFile p, Turn c1 ok1, AppendFile (q @ [CHR 0x0A]), Turn c2 ok2] t0 = Some t \<and>
    tl_entries t = tl_entries t0 @ line_entries c2 path (q @ [CHR 0x0A]) \<and> unread t = [] \<and>
    tl_offset t = int (length (tl_content t)) - int (length p)"
proof -
  let ?n = "length (op_after op)"
  have t0: "tl_content t0 = op_after op" "tl_buffer t0 = []" "tl_pos t0 = ?n" "tl_offset t0 = int ?n" "tl_count t0 = 0"
    "tl_phase t0 = Tailing" using assms(1) by (simp_all add: t0_def tail_start_def Let_def)
  let ?t1 = "t0\<lparr>tl_content := op_after op @ p\<rparr>"
  have t1: "unread ?t1 = p" by (simp add: unread_def t0)
  have "tail_turn cfg path c1 ok1 ?t1 = ?t1\<lparr>tl_buffer := [], tl_pos := length (tl_content ?t1)\<rparr>"
    by (rule tail_turn_eof) (use assms(2,3) in \<open>simp_all add: t1 t0 in_file_def\<close>)
  then have turn1: "tail_turn cfg path c1 ok1 ?t1 = t0\<lparr>tl_content := op_after op @ p, tl_pos := ?n + length p\<rparr>"
    by (simp add: t0)
  let ?t2 = "t0\<lparr>tl_pos := ?n + length p, tl_content := op_after op @ p @ q @ [CHR 0x0A]\<rparr>"
  have "unread ?t2 = q @ CHR 0x0A # []" by (simp add: unread_def t0)
  from tail_turn_line [OF this assms(4), of cfg path c2 ok2] assms(2) obtain buf pos where
    "buf @ drop pos (tl_content ?t2) = []" "tail_turn cfg path c2 ok2 ?t2 = ?t2\<lparr>tl_buffer := buf, tl_pos := pos,
      tl_offset := tl_offset ?t2 + int (length q) + 1, tl_count := tl_count ?t2 + 1,
      tl_entries := tl_entries ?t2 @ line_entries c2 path (q @ [CHR 0x0A])\<rparr>" by (auto simp: t0)
  then show ?thesis by (simp add: t0 turn1 unread_def) arith
qed

theorem partial_line_lost_witness:
  "\<exists>t. run (tail_step DefaultLogHarvesterConfig ''f'') [AppendFile ''disk '', Turn sample_clock True,
      AppendFile (''failure'' @ [CHR 0x0A]), Turn sample_clock True] (tail_start DefaultLogHarvesterConfig ''f'' (sample_open [])) = Some t \<and>
    map le_Message (tl_entries t) = [''failure'']"
proof -
  have "map le_Message (line_entries sample_clock ''f'' (''failure'' @ [CHR 0x0A])) = [''failure'']" by code_simp
  moreover have "tl_entries (tail_start DefaultLogHarvesterConfig ''f'' (sample_open [])) = []"
    by (simp add: sample_start)
  moreover have rate: "0 < hv_MaxRate DefaultLogHarvesterConfig" by (simp add: default_rate)
  have pieces: "CHR 0x0A \<notin> set ''disk ''" "CHR 0x0A \<notin> set ''failure''" by simp_all
  from partial_line_lost [OF sample_seek rate pieces, of "''f''" sample_clock True sample_clock True "[]"]
  obtain t where "run (tail_step DefaultLogHarvesterConfig ''f'') [AppendFile ''disk '', Turn sample_clock True,
      AppendFile (''failure'' @ [CHR 0x0A]), Turn sample_clock True] (tail_start DefaultLogHarvesterConfig ''f'' (sample_open [])) = Some t"
    "tl_entries t = tl_entries (tail_start DefaultLogHarvesterConfig ''f'' (sample_open [])) @
      line_entries sample_clock ''f'' (''failure'' @ [CHR 0x0A])" by (elim exE conjE)
  ultimately show ?thesis by (intro exI [of _ t]) simp
qed

end
