(* ===== verification/Go_Path.thy ===== *)
theory Go_Path
  imports Go_Strings
begin

text \<open>
  Paths: \<open>path.Clean\<close> and \<open>filepath.Join\<close> of Go's standard library on slash-separated paths, and the
  clean path that \<open>http.ServeMux\<close> matches its patterns against.
\<close>

text \<open>The elements between the slashes; those kept so far are in reverse order.\<close>

fun clean_loop :: "bool \<Rightarrow> string list \<Rightarrow> string list \<Rightarrow> string list" where
  "clean_loop rooted out [] = rev out"
| "clean_loop rooted out (e # es) =
     (if e = [] \<or> e = ''.'' then clean_loop rooted out es
      else if e = ''..'' then
        (if out \<noteq> [] \<and> hd out \<noteq> ''..'' then clean_loop rooted (tl out) es
         else if rooted then clean_loop rooted out es
         else clean_loop rooted (e # out) es)
      else clean_loop rooted (e # out) es)"

definition filepath_Clean :: "string \<Rightarrow> string" where
  "filepath_Clean path =
     (let rooted = HasPrefix path ''/'';
          out = (if rooted then ''/'' else []) @ Join (clean_loop rooted [] (Split path (CHR ''/''))) ''/''
      in if out = [] then ''.'' else out)"

definition filepath_Join :: "string \<Rightarrow> string \<Rightarrow> string" where
  "filepath_Join dir name =
     (if dir = [] \<and> name = [] then []
      else filepath_Clean (if dir = [] then name else if name = [] then dir else dir @ ''/'' @ name))"

definition cleanPath :: "string \<Rightarrow> string" where
  "cleanPath p =
     (let p = (if HasPrefix p ''/'' then p else ''/'' @ p);
          np = filepath_Clean p
      in if last p = CHR ''/'' \<and> np \<noteq> ''/'' then np @ ''/'' else np)"

text \<open>A name in a directory: the name of a file is kept, whatever the directory is.\<close>

definition file_name :: "string \<Rightarrow> bool" where
  "file_name name \<longleftrightarrow> name \<noteq> [] \<and> CHR ''/'' \<notin> set name \<and> name \<noteq> ''.'' \<and> name \<noteq> ''..''"

lemma Split_plain: "b \<notin> set s \<Longrightarrow> Split s b = [s]"
  by (induction s) auto

lemma Split_name: "b \<notin> set name \<Longrightarrow> Split (dir @ b # name) b = Split dir b @ [name]"
  by (induction dir) (auto simp: Split_plain split: list.split)

lemma clean_loop_name:
  "file_name name \<Longrightarrow> clean_loop rooted out (es @ [name]) = clean_loop rooted out es @ [name]"
  by (induction rooted out es rule: clean_loop.induct) (auto simp: file_name_def)

lemma Join_snoc: "Join (ws @ [w]) sep = (if ws = [] then w else Join ws sep @ sep @ w)"
  by (induction ws sep rule: Join.induct) auto

text \<open>What stands before the name.\<close>

definition join_prefix :: "string \<Rightarrow> string" where
  "join_prefix dir =
     (let rooted = HasPrefix dir ''/''; es = clean_loop rooted [] (Split dir (CHR ''/''))
      in (if rooted then ''/'' else []) @ (if es = [] then [] else Join es ''/'' @ ''/''))"

lemma filepath_Join_name:
  assumes "file_name name"
  shows "filepath_Join dir name = join_prefix dir @ name"
proof -
  have name: "name \<noteq> []" "CHR ''/'' \<notin> set name" "\<not> HasPrefix name ''/''"
    using assms by (cases name; auto simp: file_name_def HasPrefix_def)+
  show ?thesis
  proof (cases dir)
    case Nil
    have "clean_loop False [] [name] = [name]"
      using clean_loop_name [OF assms, of False "[]" "[]"] by simp
    then show ?thesis
      using name Nil by (simp add: filepath_Join_def filepath_Clean_def join_prefix_def Split_plain Let_def HasPrefix_def)
  next
    case (Cons c cs)
    then have "HasPrefix (dir @ ''/'' @ name) ''/'' = HasPrefix dir ''/''"
      by (simp add: HasPrefix_def)
    moreover have "Split (dir @ ''/'' @ name) (CHR ''/'') = Split dir (CHR ''/'') @ [name]"
      using Split_name [OF name(2), of dir] by simp
    ultimately show ?thesis
      using name Cons by (simp add: filepath_Join_def filepath_Clean_def join_prefix_def Let_def clean_loop_name [OF assms] Join_snoc)
  qed
qed

lemma set_Split: "w \<in> set (Split s b) \<Longrightarrow> set w \<subseteq> set s"
  by (induction s arbitrary: w) (fastforce split: if_splits list.splits)+

lemma set_clean_loop: "set (clean_loop rooted out es) \<subseteq> set out \<union> set es"
proof (induction rooted out es rule: clean_loop.induct)
  case (2 rooted out e es)
  then show ?case
    by (cases out) auto
qed simp

lemma set_join_prefix: "set (join_prefix dir) \<subseteq> insert (CHR ''/'') (set dir)"
proof -
  have "set (Join (clean_loop rooted [] (Split dir (CHR ''/''))) ''/'') \<subseteq> insert (CHR ''/'') (set dir)" for rooted
    using set_Join [of "clean_loop rooted [] (Split dir (CHR ''/''))" "''/''"]
      set_clean_loop [of rooted "[]" "Split dir (CHR ''/'')"] set_Split [of _ dir "CHR ''/''"] by fastforce
  then show ?thesis
    by (auto simp: join_prefix_def Let_def)
qed

text \<open>A clean path begins with a slash.\<close>

lemma cleanPath_root: "HasPrefix (cleanPath p) ''/''"
  by (cases "HasPrefix p ''/''") (simp_all add: cleanPath_def filepath_Clean_def Let_def HasPrefix_def)

end
