(* ===== verification/Backup.thy ===== *)
theory Backup
  imports Go_Path Time_Format
begin

text \<open>
  Backup and restore, \<open>internal/storage/backup.go\<close>, over a file system that maps paths to contents.
  The outcomes of the calls into the operating system are inputs; SQLite's \<open>VACUUM INTO\<close> is a
  parameter, with what is relied on as a hypothesis.
\<close>

section \<open>The file system\<close>

type_synonym file_system = "string \<Rightarrow> string option"

text \<open>\<open>os.Remove\<close>: whether it succeeds is an input for files that exist; the error for a file that does
  not exist is told apart.\<close>

datatype remove_result = Removed | NotExist | RemoveFailed

definition os_Remove :: "(string \<Rightarrow> bool) \<Rightarrow> string \<Rightarrow> file_system \<Rightarrow> remove_result \<times> file_system" where
  "os_Remove removable p fs =
     (if fs p = None then (NotExist, fs)
      else if removable p then (Removed, fs(p := None)) else (RemoveFailed, fs))"

section \<open>Restore\<close>

datatype backup_error =
    OpenBackupFailed
  | MkdirFailed
  | RemoveOldFailed
  | CheckpointFailed
  | VacuumFailed
  | CreateFailed
  | CopyFailed

text \<open>\<open>re_copied\<close> is the number of bytes after which copying fails.\<close>

record restore_env =
  re_readable :: bool
  re_mkdir :: bool
  re_removable :: "string \<Rightarrow> bool"
  re_create :: bool
  re_copied :: "nat option"

definition remove_artifacts :: "(string \<Rightarrow> bool) \<Rightarrow> string \<Rightarrow> file_system \<Rightarrow> file_system" where
  "remove_artifacts removable destDBPath fs =
     (let fs = snd (os_Remove removable destDBPath fs);
          fs = snd (os_Remove removable (destDBPath @ ''-wal'') fs)
      in snd (os_Remove removable (destDBPath @ ''-shm'') fs))"

text \<open>The backup is read through the open file: it can still be read after its name has been removed,
  but not after it has been truncated under the same name.\<close>

definition RestoreDatabase :: "restore_env \<Rightarrow> string \<Rightarrow> string \<Rightarrow> file_system \<Rightarrow> backup_error option \<times> file_system" where
  "RestoreDatabase env backupPath destDBPath fs =
     (case (if re_readable env then fs backupPath else None) of
        None \<Rightarrow> (Some OpenBackupFailed, fs)
      | Some src \<Rightarrow>
          if \<not> re_mkdir env then (Some MkdirFailed, fs)
          else let fs = remove_artifacts (re_removable env) destDBPath fs
            in if \<not> re_create env then (Some CreateFailed, fs)
               else let src = (if backupPath = destDBPath \<and> fs destDBPath \<noteq> None then [] else src)
                 in case re_copied env of
                      None \<Rightarrow> (None, fs(destDBPath \<mapsto> src))
                    | Some n \<Rightarrow> (Some CopyFailed, fs(destDBPath \<mapsto> take n src)))"

section \<open>Backup\<close>

definition backup_query :: "string \<Rightarrow> string" where
  "backup_query destPath = ''VACUUM INTO '' @ [CHR 0x27] @ destPath @ [CHR 0x27] @ '';''"

text \<open>\<open>be_exec\<close> runs a statement of SQL against the database and the file system.\<close>

record 'db backup_env =
  be_mkdir :: bool
  be_removable :: "string \<Rightarrow> bool"
  be_checkpoint :: bool
  be_exec :: "string \<Rightarrow> 'db \<Rightarrow> file_system \<Rightarrow> bool \<times> 'db \<times> file_system"

definition Backup :: "'db backup_env \<Rightarrow> string \<Rightarrow> 'db \<Rightarrow> file_system \<Rightarrow> backup_error option \<times> 'db \<times> file_system" where
  "Backup env destPath db fs =
     (if \<not> be_mkdir env then (Some MkdirFailed, db, fs)
      else case os_Remove (be_removable env) destPath fs of (removed, fs) \<Rightarrow>
        if removed = RemoveFailed then (Some RemoveOldFailed, db, fs)
        else if \<not> be_checkpoint env then (Some CheckpointFailed, db, fs)
        else case be_exec env (backup_query destPath) db fs of (ok, db, fs) \<Rightarrow>
          if ok then (None, db, fs) else (Some VacuumFailed, db, fs))"

section \<open>Scheduled backups\<close>

text \<open>The file of a scheduled backup, named after the clock.\<close>

definition backup_file :: "string \<Rightarrow> go_time \<Rightarrow> string" where
  "backup_file backupDir now = filepath_Join backupDir (''sugi-backup-'' @ file_stamp now @ ''.db'')"

text \<open>The loop: a tick brings the environment, the clock and the database of that moment.  An error is
  logged, and the loop goes on; the result lists what was logged.\<close>

fun backup_loop :: "string \<Rightarrow> ('db backup_env \<times> go_time \<times> 'db) list \<Rightarrow> file_system \<Rightarrow>
    (backup_error option \<times> 'db) list \<times> file_system" where
  "backup_loop backupDir [] fs = ([], fs)"
| "backup_loop backupDir ((env, now, db) # ticks) fs =
     (case Backup env (backup_file backupDir now) db fs of (err, db', fs) \<Rightarrow>
      case backup_loop backupDir ticks fs of (logged, fs) \<Rightarrow> ((err, db') # logged, fs))"

section \<open>String literals of SQL\<close>

text \<open>A literal ends at a quote that is not doubled; a doubled quote stands for one.  The result is the
  value and what follows the literal.\<close>

fun sql_literal_rest :: "string \<Rightarrow> (string \<times> string) option" where
  "sql_literal_rest [] = None"
| "sql_literal_rest [c] = (if c = CHR 0x27 then Some ([], []) else None)"
| "sql_literal_rest (c # d # s) =
     (if c = CHR 0x27 then
        (if d = CHR 0x27 then map_option (\<lambda>(v, r). (CHR 0x27 # v, r)) (sql_literal_rest s) else Some ([], d # s))
      else map_option (\<lambda>(v, r). (c # v, r)) (sql_literal_rest (d # s)))"

text \<open>The target of a \<open>VACUUM INTO\<close> statement and the statements after it.\<close>

definition vacuum_target :: "string \<Rightarrow> (string \<times> string) option" where
  "vacuum_target query =
     (let prefix = ''VACUUM INTO '' @ [CHR 0x27]
      in if take (length prefix) query = prefix then sql_literal_rest (drop (length prefix) query) else None)"

text \<open>What is relied on: a statement that is one \<open>VACUUM INTO\<close> of a file that does not exist leaves the
  database and all other files as they are, and if it succeeds that file holds the committed state
  of the database.\<close>

definition vacuum_ok :: "('db \<Rightarrow> string) \<Rightarrow> (string \<Rightarrow> 'db \<Rightarrow> file_system \<Rightarrow> bool \<times> 'db \<times> file_system) \<Rightarrow> bool" where
  "vacuum_ok snapshot exec \<longleftrightarrow> (\<forall>query path db fs. vacuum_target query = Some (path, '';'') \<longrightarrow> fs path = None \<longrightarrow>
     (case exec query db fs of (ok, db', fs') \<Rightarrow> db' = db \<and> (\<forall>p. p \<noteq> path \<longrightarrow> fs' p = fs p) \<and>
        (ok \<longrightarrow> fs' path = Some (snapshot db))))"

section \<open>Lemmas\<close>

lemma sql_literal_plain: "CHR 0x27 \<notin> set s \<Longrightarrow> sql_literal_rest (s @ [CHR 0x27, c]) = (if c = CHR 0x27 then None else Some (s, [c]))"
proof (induction s)
  case (Cons a s)
  then show ?case by (cases s) auto
qed simp

lemma vacuum_target_query:
  "CHR 0x27 \<notin> set path \<Longrightarrow> vacuum_target (backup_query path) = Some (path, '';'')"
  using sql_literal_plain [of path "CHR '';''"] by (simp add: vacuum_target_def backup_query_def)

text \<open>Every quote in the value takes two characters of the literal.\<close>

lemma sql_literal_length:
  "sql_literal_rest s = Some (v, r) \<Longrightarrow>
   length s = length v + length (filter (\<lambda>c. c = CHR 0x27) v) + 1 + length r"
  by (induction s arbitrary: v r rule: sql_literal_rest.induct) (auto split: if_splits)

lemma vacuum_target_quote:
  assumes "CHR 0x27 \<in> set path"
  shows "vacuum_target (backup_query path) \<noteq> Some (path, '';'')"
proof
  assume "vacuum_target (backup_query path) = Some (path, '';'')"
  then have "sql_literal_rest (path @ [CHR 0x27, CHR '';'']) = Some (path, '';'')"
    by (simp add: vacuum_target_def backup_query_def)
  from sql_literal_length [OF this] have "\<forall>c \<in> set path. c \<noteq> CHR 0x27"
    by (simp add: filter_empty_conv)
  with assms show False
    by blast
qed

lemma os_Remove_files: "snd (os_Remove removable p fs) q = (if q = p \<and> removable p then None else fs q)"
  by (simp add: os_Remove_def)

lemma remove_artifacts_result:
  "remove_artifacts removable dest fs p =
    (if p \<in> {dest, dest @ ''-wal'', dest @ ''-shm''} \<and> removable p then None else fs p)"
  by (auto simp: remove_artifacts_def Let_def os_Remove_files)

text \<open>One backup.\<close>

lemma Backup_cases:
  assumes "be_exec env (backup_query path) db (fs(path := None)) = (ok, db1, fs1)"
  shows "Backup env path db fs =
    (if \<not> be_mkdir env then (Some MkdirFailed, db, fs)
     else if fs path \<noteq> None \<and> \<not> be_removable env path then (Some RemoveOldFailed, db, fs)
     else if \<not> be_checkpoint env then (Some CheckpointFailed, db, fs(path := None))
     else (if ok then None else Some VacuumFailed, db1, fs1))"
proof -
  have "fs path = None \<Longrightarrow> fs(path := None) = fs"
    by auto
  then show ?thesis
    using assms by (cases "fs path") (simp_all add: Backup_def os_Remove_def)
qed

lemma vacuum_okD:
  "vacuum_ok snapshot exec \<Longrightarrow> vacuum_target query = Some (path, '';'') \<Longrightarrow> fs path = None \<Longrightarrow>
   case exec query db fs of (ok, db', fs') \<Rightarrow>
     db' = db \<and> (\<forall>p. p \<noteq> path \<longrightarrow> fs' p = fs p) \<and> (ok \<longrightarrow> fs' path = Some (snapshot db))"
  by (simp only: vacuum_ok_def)

lemma Backup_result:
  assumes "vacuum_ok snapshot (be_exec env)" "CHR 0x27 \<notin> set path" "Backup env path db fs = (err, db', fs')"
  shows "db' = db \<and> (\<forall>p. p \<noteq> path \<longrightarrow> fs' p = fs p) \<and> (err = None \<longrightarrow> fs' path = Some (snapshot db))"
proof -
  obtain ok db1 fs1 where exec: "be_exec env (backup_query path) db (fs(path := None)) = (ok, db1, fs1)"
    by (metis prod_cases3)
  have free: "(fs(path := None)) path = None"
    by simp
  have "case be_exec env (backup_query path) db (fs(path := None)) of (ok, db', fs') \<Rightarrow>
      db' = db \<and> (\<forall>p. p \<noteq> path \<longrightarrow> fs' p = (fs(path := None)) p) \<and> (ok \<longrightarrow> fs' path = Some (snapshot db))"
    by (rule vacuum_okD [where fs = "fs(path := None)", OF assms(1) vacuum_target_query [OF assms(2)] free])
  then have "db1 = db" "\<forall>p. p \<noteq> path \<longrightarrow> fs1 p = fs p" "ok \<longrightarrow> fs1 path = Some (snapshot db)"
    by (simp_all add: exec)
  then show ?thesis
    using assms(3) unfolding Backup_cases [OF exec] by (auto split: if_splits)
qed

text \<open>The files of backups in different seconds differ, and a quote can only come from the directory.\<close>

lemma stamped_name: "file_name (''sugi-backup-'' @ file_stamp now @ ''.db'')"
  using file_stamp_chars [of now] by (auto simp: file_name_def is_digit_def)

lemma backup_file_name: "backup_file dir now = join_prefix dir @ ''sugi-backup-'' @ file_stamp now @ ''.db''"
  unfolding backup_file_def by (rule filepath_Join_name [OF stamped_name])

lemma backup_file_eq:
  "year_ok t \<Longrightarrow> year_ok u \<Longrightarrow> backup_file dir t = backup_file dir u \<longleftrightarrow> t div Second = u div Second"
  by (simp add: backup_file_name file_stamp_eq)

lemma backup_file_no_quote: "CHR 0x27 \<notin> set dir \<Longrightarrow> CHR 0x27 \<notin> set (backup_file dir now)"
  using set_join_prefix [of dir] file_stamp_chars [of now]
  by (auto simp: backup_file_name is_digit_def)

text \<open>The loop of scheduled backups, one tick at a time.\<close>

abbreviation tick_file :: "string \<Rightarrow> 'db backup_env \<times> go_time \<times> 'db \<Rightarrow> string" where
  "tick_file backupDir tick \<equiv> backup_file backupDir (fst (snd tick))"

abbreviation tick_fine :: "('db \<Rightarrow> string) \<Rightarrow> string \<Rightarrow> 'db backup_env \<times> go_time \<times> 'db \<Rightarrow> bool" where
  "tick_fine snapshot backupDir tick \<equiv>
     vacuum_ok snapshot (be_exec (fst tick)) \<and> CHR 0x27 \<notin> set (tick_file backupDir tick)"

lemma backup_loop_result:
  assumes "\<forall>tick \<in> set ticks. tick_fine snapshot backupDir tick" "distinct (map (tick_file backupDir) ticks)"
    "backup_loop backupDir ticks fs = (logged, fs')"
  shows "map snd logged = map (\<lambda>tick. snd (snd tick)) ticks \<and>
    (\<forall>p. p \<notin> tick_file backupDir ` set ticks \<longrightarrow> fs' p = fs p) \<and>
    (\<forall>(tick, entry) \<in> set (zip ticks logged). fst entry = None \<longrightarrow>
      fs' (tick_file backupDir tick) = Some (snapshot (snd (snd tick))))"
  using assms
proof (induction ticks arbitrary: fs logged)
  case (Cons tick ticks)
  obtain env now db where tick: "tick = (env, now, db)"
    by (cases tick)
  obtain err db1 fs1 where B: "Backup env (tick_file backupDir tick) db fs = (err, db1, fs1)"
    by (metis prod_cases3)
  obtain rest where rest: "backup_loop backupDir ticks fs1 = (rest, fs')" "logged = (err, db1) # rest"
    using Cons.prems(3) B by (auto simp: tick split: prod.splits)
  have one: "db1 = db \<and> (\<forall>p. p \<noteq> tick_file backupDir tick \<longrightarrow> fs1 p = fs p) \<and>
      (err = None \<longrightarrow> fs1 (tick_file backupDir tick) = Some (snapshot db))"
    using Cons.prems(1) by (intro Backup_result [OF _ _ B]) (auto simp: tick)
  have IH: "map snd rest = map (\<lambda>tick. snd (snd tick)) ticks \<and>
      (\<forall>p. p \<notin> tick_file backupDir ` set ticks \<longrightarrow> fs' p = fs1 p) \<and>
      (\<forall>(tick, entry) \<in> set (zip ticks rest). fst entry = None \<longrightarrow>
        fs' (tick_file backupDir tick) = Some (snapshot (snd (snd tick))))"
    using Cons.prems by (intro Cons.IH [OF _ _ rest(1)]) simp_all
  have "tick_file backupDir tick \<notin> tick_file backupDir ` set ticks"
    using Cons.prems(2) by simp
  with one IH show ?case
    by (simp add: rest(2) tick)
qed simp

lemma restore_content:
  "fs backup = Some content \<Longrightarrow> dest \<noteq> backup \<Longrightarrow> RestoreDatabase env backup dest fs = (None, fs') \<Longrightarrow>
   fs' dest = Some content"
  by (auto simp: RestoreDatabase_def Let_def split: if_splits option.splits)

section \<open>Properties\<close>

text \<open>C37. A successful restore leaves the bytes of the backup under the name of the database, and in every
  case no file but the database, its write-ahead log and its index changes.  When the
  backup cannot be opened or the directory cannot be made, no file has changed; but when creating or
  copying fails, the old database is already gone.  A write-ahead log that cannot be removed stays
  beside the restored database, and the restore still counts as successful.\<close>

theorem restore_correct:
  assumes "fs backup = Some content" "backup \<noteq> dest" "RestoreDatabase env backup dest fs = (err, fs')"
  shows "(err = None \<longrightarrow> fs' dest = Some content \<and>
      (\<forall>p \<in> {dest @ ''-wal'', dest @ ''-shm''}. fs' p = (if re_removable env p then None else fs p))) \<and>
    (\<forall>p. p \<notin> {dest, dest @ ''-wal'', dest @ ''-shm''} \<longrightarrow> fs' p = fs p) \<and>
    (err \<in> {Some OpenBackupFailed, Some MkdirFailed} \<longrightarrow> fs' = fs) \<and>
    (err = Some CreateFailed \<longrightarrow> fs' dest = (if re_removable env dest then None else fs dest)) \<and>
    (err = Some CopyFailed \<longrightarrow> (\<exists>n. fs' dest = Some (take n content)))"
  using assms
  by (auto simp: RestoreDatabase_def Let_def remove_artifacts_result split: if_splits option.splits)

theorem restore_correct_witness:
  "let fs = [''b'' \<mapsto> ''new'', ''d'' \<mapsto> ''old'', ''d-wal'' \<mapsto> ''log''];
       env = \<lparr>re_readable = True, re_mkdir = True, re_removable = (\<lambda>p. True), re_create = True, re_copied = None\<rparr>
   in case RestoreDatabase env ''b'' ''d'' fs of (err, fs') \<Rightarrow>
     err = None \<and> fs' ''d'' = Some ''new'' \<and> fs' ''d-wal'' = None"
proof -
  define fs :: file_system where "fs = [''b'' \<mapsto> ''new'', ''d'' \<mapsto> ''old'', ''d-wal'' \<mapsto> ''log'']"
  define env where "env = \<lparr>re_readable = True, re_mkdir = True, re_removable = (\<lambda>p. True), re_create = True, re_copied = None\<rparr>"
  obtain err fs' where run: "RestoreDatabase env ''b'' ''d'' fs = (err, fs')"
    by (metis surj_pair)
  have "err = None"
    using run by (simp add: RestoreDatabase_def env_def fs_def)
  with restore_correct [OF _ _ run, of "''new''"] run show ?thesis
    by (simp add: fs_def env_def)
qed


text \<open>The hypothesis can hold, with a database that is its own content.\<close>

definition plain_vacuum :: "string \<Rightarrow> string \<Rightarrow> file_system \<Rightarrow> bool \<times> string \<times> file_system" where
  "plain_vacuum query db fs = (case vacuum_target query of
     Some (path, rest) \<Rightarrow> if rest = '';'' \<and> fs path = None then (True, db, fs(path \<mapsto> db)) else (False, db, fs)
   | None \<Rightarrow> (False, db, fs))"

lemma plain_vacuum_ok: "vacuum_ok (\<lambda>db. db) plain_vacuum"
  by (auto simp: vacuum_ok_def plain_vacuum_def)

definition sample_env :: "bool \<Rightarrow> string backup_env" where
  "sample_env ok = \<lparr>be_mkdir = True, be_removable = (\<lambda>p. True), be_checkpoint = ok, be_exec = plain_vacuum\<rparr>"

definition backup_ticks :: "(string backup_env \<times> go_time \<times> string) list" where
  "backup_ticks = [(sample_env True, 1709210096500000000, ''one''), (sample_env False, 1709210097400000000, ''two''),
     (sample_env True, 1709210098000000000, ''three'')]"

lemma first_backup_file: "backup_file ''b/'' 1709210096500000000 = ''b/sugi-backup-2024-02-29T12-34-56.db''"
  by code_simp


end
