(* ===== verification/Api_Handler.thy ===== *)
theory Api_Handler
  imports Ring_Buffer Log_Writer Sse_Hub Sqlite_Storage Json_Logs
begin

text \<open>
  The HTTP handlers, \<open>internal/api/handler.go\<close>, over the models of the log writer, the hub, the ring
  buffer and the storage.  A request is the part of it that a handler reads; its JSON text is decoded
  by \<open>Json_Logs\<close>.  A response is a value, with its status code.
  A handler runs here without interruption by other goroutines; the outer \<open>None\<close> is a panic.
\<close>

section \<open>Responses\<close>

datatype 's api_response =
    HttpError int string
  | IngestFull nat
  | IngestAccepted nat nat
  | QueryResult "log_entry list"
  | WaitingForSnapshot
  | LatestSnapshot 's
  | History nat int "'s list"
  | Health string int int

fun response_status :: "'s api_response \<Rightarrow> int" where
  "response_status (HttpError status text) = status"
| "response_status (IngestFull dropped) = 429"
| "response_status (IngestAccepted accepted dropped) = 202"
| "response_status _ = 200"

section \<open>Raw text\<close>

definition detectLogLevel :: "string \<Rightarrow> string" where
  "detectLogLevel line = (let upper = ToUpper line in
     if Contains upper ''ERROR'' \<or> Contains upper ''FATAL'' \<or> Contains upper ''CRIT'' then ''ERROR''
     else if Contains upper ''WARN'' then ''WARN''
     else if Contains upper ''DEBUG'' \<or> Contains upper ''TRACE'' then ''DEBUG''
     else ''INFO'')"

fun raw_text_loop :: "go_time \<Rightarrow> string \<Rightarrow> string list \<Rightarrow> log_entry list" where
  "raw_text_loop now service [] = []"
| "raw_text_loop now service (l # ls) =
     (let line = TrimSpace l in
      if line = [] then raw_text_loop now service ls
      else \<lparr>le_ID = 0, le_Timestamp = now, le_Level = detectLogLevel line, le_Service = service,
             le_Message = line, le_Attributes = []\<rparr> # raw_text_loop now service ls)"

text \<open>The error of the scanner is not looked at.\<close>

definition parseRawTextLogs :: "go_time \<Rightarrow> string \<Rightarrow> string \<Rightarrow> log_entry list" where
  "parseRawTextLogs now data service = raw_text_loop now service (fst (Scan (data, False)))"

section \<open>Ingestion\<close>

text \<open>What is not modelled of the JSON codec: the text of an error for a text that cannot be decoded, and the
  encoding of an entry for the stream (a \<open>time.Time\<close> is encoded in the zone in which it was written).\<close>

record json_codec =
  jc_message :: "string \<Rightarrow> string"
  jc_entry :: "log_entry \<Rightarrow> string option"

definition parseJSONLogs :: "json_codec \<Rightarrow> string \<Rightarrow> string + log_entry list" where
  "parseJSONLogs codec data = (let trimmed = TrimSpace data in
     if HasPrefix trimmed ''['' then
       (case unmarshal_entries trimmed of None \<Rightarrow> Inl (jc_message codec trimmed) | Some entries \<Rightarrow> Inr entries)
     else (case unmarshal_entry trimmed of None \<Rightarrow> Inl (jc_message codec trimmed) | Some single \<Rightarrow> Inr [single]))"

definition complete_entry :: "go_time \<Rightarrow> log_entry \<Rightarrow> log_entry" where
  "complete_entry now entry =
     (let entry = (if le_Timestamp entry = zero_time then entry\<lparr>le_Timestamp := now\<rparr> else entry);
          entry = (if le_Level entry = [] then entry\<lparr>le_Level := ''INFO''\<rparr> else entry)
      in if le_Service entry = [] then entry\<lparr>le_Service := ''default''\<rparr> else entry)"

fun ingest_loop :: "json_codec \<Rightarrow> go_time \<Rightarrow> log_entry list \<Rightarrow> nat \<Rightarrow> nat \<Rightarrow> log_writer \<Rightarrow> hub \<Rightarrow>
    (nat \<times> nat \<times> log_writer \<times> hub) option" where
  "ingest_loop codec now [] accepted dropped w h = Some (accepted, dropped, w, h)"
| "ingest_loop codec now (e # es) accepted dropped w h =
     (let entry = complete_entry now e in
      case Enqueue entry w of
        None \<Rightarrow> None
      | Some (True, w) \<Rightarrow>
          ingest_loop codec now es (Suc accepted) dropped w (BroadcastLog (jc_entry codec entry) h)
      | Some (False, w) \<Rightarrow> ingest_loop codec now es accepted (Suc dropped) w h)"

record ingest_request =
  ig_Body :: reader
  ig_ContentType :: string
  ig_ServiceParam :: string
  ig_ServiceHeader :: string

text \<open>\<open>http.MaxBytesReader\<close> makes reading more than 10 MB fail.\<close>

definition read_body :: "reader \<Rightarrow> string option" where
  "read_body body = (if snd body \<or> length (fst body) > 10 * 1024 * 1024 then None else Some (fst body))"

definition ingest_service :: "ingest_request \<Rightarrow> string" where
  "ingest_service r =
     (let service = ig_ServiceParam r;
          service = (if service = [] then ig_ServiceHeader r else service)
      in if service = [] then ''default'' else service)"

definition is_json_request :: "string \<Rightarrow> string \<Rightarrow> bool" where
  "is_json_request contentType body \<longleftrightarrow> Contains contentType ''application/json'' \<or>
     HasPrefix (TrimSpace body) ''{'' \<or> HasPrefix (TrimSpace body) ''[''"

definition request_entries :: "json_codec \<Rightarrow> go_time \<Rightarrow> ingest_request \<Rightarrow> string \<Rightarrow> string + log_entry list" where
  "request_entries codec now r body =
     (if is_json_request (ig_ContentType r) body then parseJSONLogs codec body
      else Inr (parseRawTextLogs now body (ingest_service r)))"

definition HandleIngestLogs :: "json_codec \<Rightarrow> go_time \<Rightarrow> ingest_request \<Rightarrow> log_writer option \<Rightarrow> hub \<Rightarrow>
    ('s api_response \<times> log_writer option \<times> hub) option" where
  "HandleIngestLogs codec now r writer h = (case writer of
     None \<Rightarrow> Some (HttpError 503 ''log writer not configured'', None, h)
   | Some w \<Rightarrow> (case read_body (ig_Body r) of
       None \<Rightarrow> Some (HttpError 400 ''failed to read request body'', Some w, h)
     | Some body \<Rightarrow>
         if length (TrimSpace body) = 0 then Some (HttpError 400 ''empty request body'', Some w, h)
         else (case request_entries codec now r body of
           Inl err \<Rightarrow> Some (HttpError 400 (''invalid json format: '' @ err), Some w, h)
         | Inr entries \<Rightarrow> (case ingest_loop codec now entries 0 0 w h of
             None \<Rightarrow> None
           | Some (accepted, dropped, w, h) \<Rightarrow>
               Some (if accepted = 0 \<and> dropped > 0 then IngestFull dropped
                     else IngestAccepted accepted dropped, Some w, h)))))"

section \<open>Queries\<close>

record query_params =
  qp_level :: string
  qp_service :: string
  qp_search :: string
  qp_limit :: string
  qp_offset :: string
  qp_start :: string
  qp_end :: string

text \<open>A number or a time that cannot be parsed leaves its field unset.  \<open>message\<close> is the text of an error.\<close>

definition int_param :: "string \<Rightarrow> int" where
  "int_param s = (if s = [] then 0 else case Atoi s of (l, err) \<Rightarrow> if err = None then l else 0)"

definition time_param :: "string \<Rightarrow> go_time option" where
  "time_param s = (if s = [] then None else map_option time_of (time_Parse RFC3339 s))"

definition query_filter :: "query_params \<Rightarrow> log_filter" where
  "query_filter q = \<lparr>lf_StartTime = time_param (qp_start q),
     lf_EndTime = time_param (qp_end q), lf_Level = qp_level q, lf_Service = qp_service q,
     lf_Search = qp_search q, lf_Limit = int_param (qp_limit q), lf_Offset = int_param (qp_offset q)\<rparr>"

definition HandleQueryLogs :: "(storage_error \<Rightarrow> string) \<Rightarrow>
    (log_filter \<Rightarrow> storage_error + log_entry list) option \<Rightarrow> query_params \<Rightarrow> 's api_response" where
  "HandleQueryLogs message storage q = (case storage of
     None \<Rightarrow> HttpError 503 ''sqlite storage not configured''
   | Some query \<Rightarrow> (case query (query_filter q) of
       Inl e \<Rightarrow> HttpError 500 (''query failed: '' @ message e)
     | Inr logs \<Rightarrow> QueryResult logs))"

section \<open>Metrics and health\<close>

definition HandleGetMetrics :: "'s ring_buffer option \<Rightarrow> 's api_response option" where
  "HandleGetMetrics buffer = (case buffer of
     None \<Rightarrow> Some (HttpError 503 ''metrics buffer not configured'')
   | Some r \<Rightarrow> do {
       latest \<leftarrow> GetLatest r;
       Some (case latest of None \<Rightarrow> WaitingForSnapshot | Some s \<Rightarrow> LatestSnapshot s)
     })"

definition HandleGetMetricsHistory :: "'s \<Rightarrow> 's ring_buffer option \<Rightarrow> string \<Rightarrow> 's api_response option" where
  "HandleGetMetricsHistory zero buffer nStr = (case buffer of
     None \<Rightarrow> Some (HttpError 503 ''metrics buffer not configured'')
   | Some r \<Rightarrow> do {
       snapshots \<leftarrow> (case Atoi nStr of (n, err) \<Rightarrow>
         if nStr \<noteq> [] \<and> err = None \<and> n > 0 then GetLastN zero r n else GetAll zero r);
       Some (History (length snapshots) (rb_Capacity r) snapshots)
     })"

text \<open>The conversion \<open>int(x)\<close> of a floating-point number truncates towards zero.\<close>

definition int_of_f64 :: "f64 \<Rightarrow> int" where
  "int_of_f64 x = (if x < 0 then \<lceil>x\<rceil> else \<lfloor>x\<rfloor>)"

text \<open>\<open>logs\<close> is what \<open>CountLogs\<close> answers, an error counting as 0; \<open>None\<close> when there is no storage.\<close>

definition getLogCount :: "('e + int) option \<Rightarrow> int" where
  "getLogCount logs = (case logs of None \<Rightarrow> 0 | Some (Inl e) \<Rightarrow> 0 | Some (Inr c) \<Rightarrow> c)"

definition HandleHealth :: "string \<Rightarrow> go_time \<Rightarrow> go_time \<Rightarrow> ('e + int) option \<Rightarrow> 's api_response" where
  "HandleHealth version startTime now logs =
     Health version (int_of_f64 (duration_Seconds (time_Sub now startTime))) (getLogCount logs)"

section \<open>Lemmas: ingestion\<close>

text \<open>How many entries fit.\<close>

definition room :: "log_writer \<Rightarrow> nat" where
  "room w = (if lw_closed w then 0 else gc_cap (lw_ch w) - length (gc_buf (lw_ch w)))"

lemma ingest_loop_result:
  assumes "\<not> gc_closed (lw_ch w)"
  shows "\<exists>w' h'. ingest_loop codec now es a d w h =
      Some (a + min (room w) (length es), d + (length es - room w), w', h') \<and>
    lw_accepted w' = lw_accepted w @ map (complete_entry now) (take (room w) es) \<and>
    gc_buf (lw_ch w') = gc_buf (lw_ch w) @ map (complete_entry now) (take (room w) es)"
  using assms
proof (induction es arbitrary: a d w h)
  case (Cons e es)
  show ?case
  proof (cases "room w")
    case 0
    then have "Enqueue (complete_entry now e) w = Some (False, w)"
      using Cons.prems by (auto simp: room_def Enqueue_def enqueue_check_def enqueue_send_def chan_try_send_def
          split: if_splits)
    with Cons.IH [OF Cons.prems, of a "Suc d" h] 0 show ?thesis by (auto simp: Let_def)
  next
    case (Suc k)
    let ?e = "complete_entry now e"
    let ?w = "w\<lparr>lw_ch := (lw_ch w)\<lparr>gc_buf := gc_buf (lw_ch w) @ [?e]\<rparr>, lw_accepted := lw_accepted w @ [?e]\<rparr>"
    have "Enqueue ?e w = Some (True, ?w)" "room ?w = k"
      using Cons.prems Suc by (auto simp: room_def Enqueue_def enqueue_check_def enqueue_send_def chan_try_send_def
          split: if_splits)
    with Cons.IH [of ?w "Suc a" d "BroadcastLog (jc_entry codec ?e) h"] Cons.prems Suc show ?thesis
      by (auto simp: Let_def)
  qed
qed simp

lemma raw_text_loop_append: "raw_text_loop now service (xs @ ys) = raw_text_loop now service xs @ raw_text_loop now service ys"
  by (induction xs) (simp_all add: Let_def)

text \<open>A line that does not fit the scanner's buffer ends the scan.\<close>

lemma Scan_long_line:
  assumes "\<forall>l \<in> set ls. text_line l" "\<forall>l \<in> set (long # rest). CHR 0x0A \<notin> set l" "MaxScanTokenSize \<le> length long"
  shows "Scan (unlines (ls @ long # rest), False) = (ls, Some ErrTooLong)"
proof -
  have "raw_lines (unlines (ls @ long # rest)) = ls @ long # rest"
    using assms(1,2) by (intro raw_lines_unlines) (auto simp: text_line_def)
  moreover have "takeWhile (\<lambda>l. length l < MaxScanTokenSize) (ls @ long # rest) = ls"
    using assms(1,3) by (auto simp: takeWhile_append text_line_def)
  moreover have "map drop_cr ls = ls"
    using assms(1) by (intro map_idI) (auto simp: text_line_def drop_cr_def dest: last_in_set)
  ultimately show ?thesis by (simp add: Scan_def Let_def)
qed

section \<open>Properties\<close>


definition sample_codec :: json_codec where
  "sample_codec = \<lparr>jc_message = (\<lambda>s. ''no''), jc_entry = (\<lambda>e. Some ''{}'')\<rparr>"

definition sample_request :: "string \<Rightarrow> ingest_request" where
  "sample_request body = \<lparr>ig_Body = (body, False), ig_ContentType = ''text/plain'', ig_ServiceParam = [],
     ig_ServiceHeader = ''web''\<rparr>"


text \<open>C27. Entries sent as JSON are what the handler ingests: for entries whose texts and attributes are valid
  UTF-8, with timestamps written in any zone and with any number of digits, the encoded array is
  decoded to exactly these entries, in order, with their attributes; and a single object to its entry.\<close>

theorem json_logs_roundtrip:
  assumes "list_all entry_text_ok es"
  shows "request_entries codec now r (marshal_entries es) = Inr (map (sorted_attributes \<circ> snd) es) \<and>
    (\<forall>te \<in> set es. request_entries codec now r (marshal_entry te) = Inr [sorted_attributes (snd te)])"
proof -
  have "request_entries codec now r (marshal_entries es) = Inr (map (sorted_attributes \<circ> snd) es)"
    by (simp add: request_entries_def is_json_request_def parseJSONLogs_def Let_def marshal_shape
        unmarshal_marshal_entries [OF assms])
  moreover have "request_entries codec now r (marshal_entry te) = Inr [sorted_attributes (snd te)]" if "te \<in> set es" for te
  proof -
    have "\<not> HasPrefix (marshal_entry te) ''[''"
      using marshal_shape(4) [of te] by (auto simp: HasPrefix_iff)
    moreover have "entry_text_ok te"
      using assms that by (simp add: list_all_iff)
    ultimately show ?thesis
      by (simp add: request_entries_def is_json_request_def parseJSONLogs_def Let_def marshal_shape unmarshal_marshal_entry)
  qed
  ultimately show ?thesis
    by blast
qed

definition sample_time_text :: time_text where
  "sample_time_text = (\<lparr>tp_year = 2024, tp_month = 2, tp_day = 29, tp_hour = 23, tp_min = 59, tp_sec = 58,
     tp_nsec = 500000000, tp_offset = 25200\<rparr>, ''5'', East 7 0)"

definition sample_json_log :: log_entry where
  "sample_json_log = \<lparr>le_ID = 0, le_Timestamp = time_of (fst sample_time_text), le_Level = ''WARN'', le_Service = ''db'',
     le_Message = ''a '' @ [CHR 0x22] @ ''quoted'' @ [CHR 0x22, CHR 0x0A] @ ''<line>'', le_Attributes = [(''k'', ''v'')]\<rparr>"

theorem json_logs_roundtrip_witness:
  "request_entries sample_codec 0 (sample_request []) (marshal_entries [(sample_time_text, sample_json_log)]) =
    Inr [sample_json_log]"
proof -
  have "list_all entry_text_ok [(sample_time_text, sample_json_log)]"
    by code_simp
  moreover have "sorted_attributes sample_json_log = sample_json_log"
    by (simp add: sorted_attributes_def sample_json_log_def)
  ultimately show ?thesis
    using json_logs_roundtrip [of "[(sample_time_text, sample_json_log)]" sample_codec 0 "sample_request []"] by simp
qed

text \<open>An attribute that is not a string makes the whole request fail.\<close>

lemma numeric_attribute_rejected:
  "unmarshal_entry (json_text (JObject [(''message'', JString ''m''), (''attributes'', JObject [(''code'', JNumber ''500'')])])) = None"
  by code_simp

text \<open>Every line that is not blank becomes an entry, up to the first line of 64 KiB, which is dropped with
  everything after it.\<close>

lemma raw_text_stops_at_long_line:
  assumes "\<forall>l \<in> set ls. text_line l" "\<forall>l \<in> set (long # rest). CHR 0x0A \<notin> set l" "MaxScanTokenSize \<le> length long"
  shows "parseRawTextLogs now (unlines ls) service =
      map (\<lambda>line. \<lparr>le_ID = 0, le_Timestamp = now, le_Level = detectLogLevel line, le_Service = service,
        le_Message = line, le_Attributes = []\<rparr>) (filter (\<lambda>line. line \<noteq> []) (map TrimSpace ls)) \<and>
    parseRawTextLogs now (unlines (ls @ long # rest)) service = parseRawTextLogs now (unlines ls) service"
proof -
  have "raw_text_loop now service ls = map (\<lambda>line. \<lparr>le_ID = 0, le_Timestamp = now, le_Level = detectLogLevel line,
      le_Service = service, le_Message = line, le_Attributes = []\<rparr>) (filter (\<lambda>line. line \<noteq> []) (map TrimSpace ls))"
    by (induction ls) (simp_all add: Let_def)
  then show ?thesis
    using Scan_unlines [OF assms(1)] Scan_long_line [OF assms] by (simp add: parseRawTextLogs_def)
qed

text \<open>The history endpoint returns the last snapshots, the metrics endpoint the last one.\<close>

lemma metrics_history:
  assumes "rb_run Push rb_Clear (NewRingBuffer zero c) ops = Some r" "k < 2 ^ 63"
  shows "let xs = last_n (nat (rb_Capacity r)) (live [] ops) in
    HandleGetMetricsHistory zero (Some r) (show_nat k) =
      Some (let ys = if k = 0 then xs else last_n k xs in History (length ys) (rb_Capacity r) ys) \<and>
    HandleGetMetricsHistory zero (Some r) [] = Some (History (length xs) (rb_Capacity r) xs) \<and>
    HandleGetMetrics (Some r) = Some (if xs = [] then WaitingForSnapshot else LatestSnapshot (last xs))"
proof -
  obtain r' where r': "rb_run Push rb_Clear (NewRingBuffer zero c) ops = Some r'" "rb_inv r'"
    "rb_contents r' = last_n (nat (rb_capacity r')) (live [] ops)"
    by (rule run_from_New)
  with assms(1) have r: "rb_inv r" "rb_contents r = last_n (nat (rb_capacity r)) (live [] ops)" by simp_all
  have "Atoi (show_nat k) = (int k, None)" by (rule Atoi_show_nat [OF assms(2)])
  then show ?thesis
    using rb.all [OF r(1)] rb.recent [OF r(1)] rb.latest [OF r(1)] show_nat_nonempty r(2)
    by (auto simp: HandleGetMetricsHistory_def HandleGetMetrics_def rb_Capacity_def Let_def Atoi_def [of "[]"]
        simp del: show_nat.simps)
qed

end
