(* ===== verification/Server.thy ===== *)
theory Server
  imports Ring_Buffer Cpu_Collector Mem_Collector Disk_Collector Net_Collector Sse_Hub Log_Writer
begin

text \<open>
  The orchestration, \<open>internal/server/server.go\<close>: the configuration, the sampling loop over the models
  of the four collectors, the ring buffer and the hub, and the callback that feeds log entries to
  the writer and the hub.
\<close>

section \<open>Configuration\<close>

record server_config =
  sc_Port :: int
  sc_DBPath :: string
  sc_Retention :: go_duration
  sc_SampleInterval :: go_duration
  sc_BackupInterval :: go_duration
  sc_BackupDir :: string
  sc_Version :: string
  sc_AutoSyslog :: bool
  sc_WatchLogs :: string

definition DefaultConfig :: server_config where
  "DefaultConfig = \<lparr>sc_Port = 8080, sc_DBPath = ''sugi.db'', sc_Retention = 7 * 24 * Hour,
     sc_SampleInterval = 1 * Second, sc_BackupInterval = 0, sc_BackupDir = [], sc_Version = ''0.2.0'',
     sc_AutoSyslog = True, sc_WatchLogs = []\<rparr>"

definition server_defaults :: "server_config \<Rightarrow> server_config" where
  "server_defaults cfg = cfg\<lparr>
     sc_Port := (if sc_Port cfg \<le> 0 then 8080 else sc_Port cfg),
     sc_DBPath := (if sc_DBPath cfg = [] then ''sugi.db'' else sc_DBPath cfg),
     sc_Retention := (if sc_Retention cfg \<le> 0 then 7 * 24 * Hour else sc_Retention cfg),
     sc_SampleInterval := (if sc_SampleInterval cfg \<le> 0 then 1 * Second else sc_SampleInterval cfg),
     sc_Version := (if sc_Version cfg = [] then ''0.2.0'' else sc_Version cfg)\<rparr>"

definition server_writer_config :: "server_config \<Rightarrow> writer_config" where
  "server_writer_config cfg = DefaultAsyncLogWriterConfig\<lparr>wc_Retention := sc_Retention cfg\<rparr>"

definition watch_paths :: "string \<Rightarrow> string list" where
  "watch_paths watchLogs =
     (if watchLogs = [] then []
      else filter (\<lambda>p. p \<noteq> []) (map TrimSpace (Split watchLogs (CHR '',''))))"

section \<open>The sampling loop\<close>

record sampler =
  sp_cpu :: cpu_collector
  sp_disk :: disk_collector
  sp_net :: net_collector
  sp_ring :: "system_snapshot ring_buffer"
  sp_hub :: hub

text \<open>What one tick reads: the four files, the clock at each reading, and the iteration orders.\<close>

record tick_input =
  ti_stat :: proc_file
  ti_meminfo :: proc_file
  ti_diskstats :: proc_file
  ti_netdev :: proc_file
  ti_cpu_env :: "go_time \<times> string list"
  ti_mem_now :: go_time
  ti_disk_env :: "go_time \<times> string list"
  ti_net_env :: "go_time \<times> string list"
  ti_now :: go_time

definition zero_snapshot :: system_snapshot where
  "zero_snapshot = \<lparr>ss_Timestamp = zero_time, ss_CPU = zero_cpu_stats, ss_Memory = zero_mem_stats,
     ss_Disk = zero_disk_stats, ss_Network = zero_net_stats\<rparr>"

text \<open>The value of \<open>x, _ := f()\<close>: the zero value when \<open>f\<close> failed.\<close>

definition ignore_error :: "'a \<Rightarrow> 'e + 'a \<Rightarrow> 'a" where
  "ignore_error zero r = (case r of Inl e \<Rightarrow> zero | Inr x \<Rightarrow> x)"

text \<open>\<open>marshal\<close> is the JSON encoder of snapshots; \<open>None\<close> is a panic.\<close>

definition finish_tick :: "(system_snapshot \<Rightarrow> string option) \<Rightarrow> tick_input \<Rightarrow> cpu_stats \<Rightarrow> mem_stats \<Rightarrow>
    sampler \<Rightarrow> sampler option" where
  "finish_tick marshal i cpuStats memStats s =
     (case disk_Collect (sp_disk s) (ti_diskstats i) (fst (ti_disk_env i)) (snd (ti_disk_env i)) of (diskStats, diskCol) \<Rightarrow>
      case net_Collect (sp_net s) (ti_netdev i) (fst (ti_net_env i)) (snd (ti_net_env i)) of (netStats, netCol) \<Rightarrow>
        let snapshot = \<lparr>ss_Timestamp = ti_now i, ss_CPU = cpuStats, ss_Memory = memStats,
              ss_Disk = ignore_error zero_disk_stats diskStats, ss_Network = ignore_error zero_net_stats netStats\<rparr>
        in do {
          ring \<leftarrow> Push (sp_ring s) snapshot;
          Some (s\<lparr>sp_disk := diskCol, sp_net := netCol, sp_ring := ring,
            sp_hub := BroadcastSnapshot (marshal snapshot) (sp_hub s)\<rparr>)
        })"

definition sample_tick :: "(system_snapshot \<Rightarrow> string option) \<Rightarrow> tick_input \<Rightarrow> sampler \<Rightarrow> sampler option" where
  "sample_tick marshal i s = do {
     (cpu, cpuCol) \<leftarrow> cpu_Collect (sp_cpu s) (ti_stat i) (fst (ti_cpu_env i)) (snd (ti_cpu_env i));
     let s = s\<lparr>sp_cpu := cpuCol\<rparr>;
     (case cpu of
        Inl e \<Rightarrow> Some s
      | Inr cpuStats \<Rightarrow> (case mem_Collect (ti_meminfo i) (ti_mem_now i) of (memStats, err) \<Rightarrow>
          if err \<noteq> None then Some s else finish_tick marshal i cpuStats memStats s))
   }"

fun sampling_loop :: "(system_snapshot \<Rightarrow> string option) \<Rightarrow> tick_input list \<Rightarrow> sampler \<Rightarrow> sampler option" where
  "sampling_loop marshal [] s = Some s"
| "sampling_loop marshal (i # is) s = do { s' \<leftarrow> sample_tick marshal i s; sampling_loop marshal is s' }"

text \<open>\<open>NewServer\<close> takes a baseline of the three stateful collectors and ignores their errors.\<close>

definition new_sampler :: "tick_input \<Rightarrow> sampler option" where
  "new_sampler i = do {
     (cpu, cpuCol) \<leftarrow> cpu_Collect NewCPUCollector (ti_stat i) (fst (ti_cpu_env i)) (snd (ti_cpu_env i));
     Some \<lparr>sp_cpu = cpuCol,
       sp_disk = snd (disk_Collect NewDiskCollector (ti_diskstats i) (fst (ti_disk_env i)) (snd (ti_disk_env i))),
       sp_net = snd (net_Collect NewNetCollector (ti_netdev i) (fst (ti_net_env i)) (snd (ti_net_env i))),
       sp_ring = NewRingBuffer zero_snapshot DefaultRingBufferCapacity, sp_hub = NewSSEHub\<rparr>
   }"

section \<open>Log entries from the server and the harvester\<close>

definition on_log :: "(log_entry \<Rightarrow> string option) \<Rightarrow> log_entry \<Rightarrow> log_writer \<times> hub \<Rightarrow> (log_writer \<times> hub) option" where
  "on_log marshal entry wh = (case wh of (w, h) \<Rightarrow>
     (case Enqueue entry w of
        None \<Rightarrow> None
      | Some (True, w) \<Rightarrow> Some (w, BroadcastLog (marshal entry) h)
      | Some (False, w) \<Rightarrow> Some (w, h)))"

section \<open>What the loop should produce\<close>

text \<open>The snapshots, from the last parsed files: a tick whose CPU or memory file cannot be parsed gives
  none; a disk or network file that cannot be parsed gives zero values.\<close>

definition against :: "('env \<Rightarrow> 'm \<Rightarrow> 'out) \<Rightarrow> ('env \<Rightarrow> 'm \<Rightarrow> 'm \<Rightarrow> 'out) \<Rightarrow> 'env \<Rightarrow> 'm option \<Rightarrow> 'm \<Rightarrow> 'out" where
  "against baseline delta env prior m = (case prior of None \<Rightarrow> baseline env m | Some p \<Rightarrow> delta env p m)"

definition advance :: "'e + 'm \<Rightarrow> 'm option \<Rightarrow> 'm option" where
  "advance parsed prior = (case parsed of Inl e \<Rightarrow> prior | Inr m \<Rightarrow> Some m)"

abbreviation stat_of :: "tick_input \<Rightarrow> collect_error + (go_time \<times> (string \<times> cpu_ticks) list)" where
  "stat_of i \<equiv> parse_file ParseProcStat (ti_stat i) (ti_cpu_env i)"

abbreviation disks_of :: "tick_input \<Rightarrow> collect_error + (go_time \<times> (string \<times> raw_disk_stats) list)" where
  "disks_of i \<equiv> parse_file ParseProcDiskstats (ti_diskstats i) (ti_disk_env i)"

abbreviation nets_of :: "tick_input \<Rightarrow> collect_error + (go_time \<times> (string \<times> raw_net_stats) list)" where
  "nets_of i \<equiv> parse_file ParseProcNetDev (ti_netdev i) (ti_net_env i)"

fun snapshots :: "(go_time \<times> (string \<times> cpu_ticks) list) option \<Rightarrow>
    (go_time \<times> (string \<times> raw_disk_stats) list) option \<Rightarrow> (go_time \<times> (string \<times> raw_net_stats) list) option \<Rightarrow>
    tick_input list \<Rightarrow> system_snapshot list" where
  "snapshots c d n [] = []"
| "snapshots c d n (i # is) = (case stat_of i of
     Inl e \<Rightarrow> snapshots c d n is
   | Inr m \<Rightarrow> (case mem_Collect (ti_meminfo i) (ti_mem_now i) of
       (mem, Some e) \<Rightarrow> snapshots (Some m) d n is
     | (mem, None) \<Rightarrow>
         \<lparr>ss_Timestamp = ti_now i, ss_CPU = against cpu_baseline cpu_delta (ti_cpu_env i) c m, ss_Memory = mem,
          ss_Disk = (case disks_of i of Inl e \<Rightarrow> zero_disk_stats
            | Inr m \<Rightarrow> against disk_baseline disk_delta (ti_disk_env i) d m),
          ss_Network = (case nets_of i of Inl e \<Rightarrow> zero_net_stats
            | Inr m \<Rightarrow> against net_baseline net_delta (ti_net_env i) n m)\<rparr>
         # snapshots (Some m) (advance (disks_of i) d) (advance (nets_of i) n) is))"

definition tick_ok :: "tick_input \<Rightarrow> bool" where
  "tick_ok i \<longleftrightarrow> (\<forall>m. stat_of i = Inr m \<longrightarrow> fits m (ti_cpu_env i)) \<and>
     (\<forall>m. disks_of i = Inr m \<longrightarrow> fits m (ti_disk_env i)) \<and> (\<forall>m. nets_of i = Inr m \<longrightarrow> fits m (ti_net_env i))"

section \<open>Lemmas\<close>

text \<open>One call of each collector, from its contract.\<close>

lemma cpu_call:
  assumes "tick_ok i"
  obtains col where "cpu_Collect c (ti_stat i) (fst (ti_cpu_env i)) (snd (ti_cpu_env i)) =
      Some (case stat_of i of Inl e \<Rightarrow> Inl e
        | Inr m \<Rightarrow> Inr (against cpu_baseline cpu_delta (ti_cpu_env i) (cpu_prior c) m), col)"
    "cpu_prior col = advance (stat_of i) (cpu_prior c)"
proof (cases "stat_of i")
  case (Inl e)
  then show ?thesis using cpu.failing [OF Inl, of c] by (intro that [of c]) (simp_all add: advance_def)
next
  case (Inr m)
  then obtain col where "cpu_Collect c (ti_stat i) (fst (ti_cpu_env i)) (snd (ti_cpu_env i)) =
      Some (Inr (case cpu_prior c of None \<Rightarrow> cpu_baseline (ti_cpu_env i) m | Some p \<Rightarrow> cpu_delta (ti_cpu_env i) p m), col)"
    "cpu_prior col = Some m"
    using cpu.success [OF Inr, of c] assms by (auto simp: tick_ok_def)
  then show ?thesis using Inr by (intro that [of col]) (simp_all add: advance_def against_def)
qed

lemma disk_call:
  assumes "tick_ok i"
  obtains col where "disk_Collect d (ti_diskstats i) (fst (ti_disk_env i)) (snd (ti_disk_env i)) =
      (case disks_of i of Inl e \<Rightarrow> Inl e
        | Inr m \<Rightarrow> Inr (against disk_baseline disk_delta (ti_disk_env i) (disk_prior d) m), col)"
    "disk_prior col = advance (disks_of i) (disk_prior d)"
proof (cases "disks_of i")
  case (Inl e)
  then show ?thesis using disk.failing [OF Inl, of d] by (intro that [of d]) (simp_all add: advance_def)
next
  case (Inr m)
  then obtain col where "disk_Collect d (ti_diskstats i) (fst (ti_disk_env i)) (snd (ti_disk_env i)) =
      (Inr (case disk_prior d of None \<Rightarrow> disk_baseline (ti_disk_env i) m | Some p \<Rightarrow> disk_delta (ti_disk_env i) p m), col)"
    "disk_prior col = Some m"
    using disk.success [OF Inr, of d] assms by (auto simp: tick_ok_def)
  then show ?thesis using Inr by (intro that [of col]) (simp_all add: advance_def against_def)
qed

lemma net_call:
  assumes "tick_ok i"
  obtains col where "net_Collect n (ti_netdev i) (fst (ti_net_env i)) (snd (ti_net_env i)) =
      (case nets_of i of Inl e \<Rightarrow> Inl e
        | Inr m \<Rightarrow> Inr (against net_baseline net_delta (ti_net_env i) (net_prior n) m), col)"
    "net_prior col = advance (nets_of i) (net_prior n)"
proof (cases "nets_of i")
  case (Inl e)
  then show ?thesis using net.failing [OF Inl, of n] by (intro that [of n]) (simp_all add: advance_def)
next
  case (Inr m)
  then obtain col where "net_Collect n (ti_netdev i) (fst (ti_net_env i)) (snd (ti_net_env i)) =
      (Inr (case net_prior n of None \<Rightarrow> net_baseline (ti_net_env i) m | Some p \<Rightarrow> net_delta (ti_net_env i) p m), col)"
    "net_prior col = Some m"
    using net.success [OF Inr, of n] assms by (auto simp: tick_ok_def)
  then show ?thesis using Inr by (intro that [of col]) (simp_all add: advance_def against_def)
qed

text \<open>One tick: the ring buffer gets the snapshot, if there is one, and the collectors keep what they
  have parsed.\<close>

definition priors :: "sampler \<Rightarrow> (go_time \<times> (string \<times> cpu_ticks) list) option \<times>
    (go_time \<times> (string \<times> raw_disk_stats) list) option \<times> (go_time \<times> (string \<times> raw_net_stats) list) option" where
  "priors s = (cpu_prior (sp_cpu s), disk_prior (sp_disk s), net_prior (sp_net s))"

lemma rb_contents_full: "rb_inv r \<Longrightarrow> last_n (nat (rb_capacity r)) (rb_contents r) = rb_contents r"
  using length_rb_contents [of r] by (intro last_n_all) (auto simp: rb_inv_def rb_Size_def)

lemma finish_tick_result:
  fixes s :: sampler and i :: tick_input and cpuStats :: cpu_stats and mem :: mem_stats
  assumes "tick_ok i" "rb_inv (sp_ring s)"
  defines "x \<equiv> \<lparr>ss_Timestamp = ti_now i, ss_CPU = cpuStats, ss_Memory = mem,
      ss_Disk = (case disks_of i of Inl e \<Rightarrow> zero_disk_stats
        | Inr m \<Rightarrow> against disk_baseline disk_delta (ti_disk_env i) (disk_prior (sp_disk s)) m),
      ss_Network = (case nets_of i of Inl e \<Rightarrow> zero_net_stats
        | Inr m \<Rightarrow> against net_baseline net_delta (ti_net_env i) (net_prior (sp_net s)) m)\<rparr>"
  obtains s' where "finish_tick marshal i cpuStats mem s = Some s'" "rb_inv (sp_ring s')"
    "rb_capacity (sp_ring s') = rb_capacity (sp_ring s)"
    "priors s' = (cpu_prior (sp_cpu s), advance (disks_of i) (disk_prior (sp_disk s)),
      advance (nets_of i) (net_prior (sp_net s)))"
    "rb_contents (sp_ring s') = last_n (nat (rb_capacity (sp_ring s))) (rb_contents (sp_ring s) @ [x])"
    "sp_hub s' = BroadcastSnapshot (marshal x) (sp_hub s)"
proof -
  obtain dc where d: "disk_Collect (sp_disk s) (ti_diskstats i) (fst (ti_disk_env i)) (snd (ti_disk_env i)) =
      (case disks_of i of Inl e \<Rightarrow> Inl e
        | Inr m \<Rightarrow> Inr (against disk_baseline disk_delta (ti_disk_env i) (disk_prior (sp_disk s)) m), dc)"
    "disk_prior dc = advance (disks_of i) (disk_prior (sp_disk s))" by (rule disk_call [OF assms(1)])
  obtain nc where n: "net_Collect (sp_net s) (ti_netdev i) (fst (ti_net_env i)) (snd (ti_net_env i)) =
      (case nets_of i of Inl e \<Rightarrow> Inl e
        | Inr m \<Rightarrow> Inr (against net_baseline net_delta (ti_net_env i) (net_prior (sp_net s)) m), nc)"
    "net_prior nc = advance (nets_of i) (net_prior (sp_net s))" by (rule net_call [OF assms(1)])
  obtain r where r: "Push (sp_ring s) x = Some r" "rb_inv r" "rb_capacity r = rb_capacity (sp_ring s)"
    "rb_contents r = last_n (nat (rb_capacity (sp_ring s))) (rb_contents (sp_ring s) @ [x])"
    using Push_refines [OF assms(2)] by metis
  have "finish_tick marshal i cpuStats mem s = Some (s\<lparr>sp_disk := dc, sp_net := nc, sp_ring := r,
      sp_hub := BroadcastSnapshot (marshal x) (sp_hub s)\<rparr>)"
    using r(1) by (cases "disks_of i"; cases "nets_of i")
      (simp_all add: finish_tick_def d(1) n(1) ignore_error_def x_def)
  then show ?thesis by (rule that) (simp_all add: r d n priors_def)
qed

lemma sample_tick_result:
  assumes "tick_ok i" "rb_inv (sp_ring s)" "priors s = (c, d, n)"
  shows "\<exists>s' c' d' n' xs. sample_tick marshal i s = Some s' \<and> rb_inv (sp_ring s') \<and>
    rb_capacity (sp_ring s') = rb_capacity (sp_ring s) \<and> priors s' = (c', d', n') \<and>
    rb_contents (sp_ring s') = last_n (nat (rb_capacity (sp_ring s))) (rb_contents (sp_ring s) @ xs) \<and>
    sp_hub s' = fold (\<lambda>x. BroadcastSnapshot (marshal x)) xs (sp_hub s) \<and>
    (\<forall>is. snapshots c d n (i # is) = xs @ snapshots c' d' n' is)"
proof -
  obtain col where cpu: "cpu_Collect (sp_cpu s) (ti_stat i) (fst (ti_cpu_env i)) (snd (ti_cpu_env i)) =
      Some (case stat_of i of Inl e \<Rightarrow> Inl e
        | Inr m \<Rightarrow> Inr (against cpu_baseline cpu_delta (ti_cpu_env i) (cpu_prior (sp_cpu s)) m), col)"
    "cpu_prior col = advance (stat_of i) (cpu_prior (sp_cpu s))" by (rule cpu_call [OF assms(1)])
  let ?s = "s\<lparr>sp_cpu := col\<rparr>"
  have pr: "c = cpu_prior (sp_cpu s)" "d = disk_prior (sp_disk s)" "n = net_prior (sp_net s)"
    using assms(3) by (simp_all add: priors_def)
  obtain mem err where mem: "mem_Collect (ti_meminfo i) (ti_mem_now i) = (mem, err)" by (cases "mem_Collect (ti_meminfo i) (ti_mem_now i)")
  show ?thesis
  proof (cases "stat_of i")
    case (Inl e)
    then show ?thesis using cpu assms(2) rb_contents_full [OF assms(2)]
      by (intro exI [of _ ?s] exI [of _ c] exI [of _ d] exI [of _ n] exI [of _ "[]"])
        (simp add: sample_tick_def priors_def pr advance_def)
  next
    case (Inr m)
    show ?thesis
    proof (cases err)
      case (Some e)
      then show ?thesis using Inr cpu mem assms(2) rb_contents_full [OF assms(2)]
        by (intro exI [of _ ?s] exI [of _ "Some m"] exI [of _ d] exI [of _ n] exI [of _ "[]"])
          (simp add: sample_tick_def priors_def pr advance_def)
    next
      case None
      have inv: "rb_inv (sp_ring ?s)" using assms(2) by simp
      let ?cpu = "against cpu_baseline cpu_delta (ti_cpu_env i) (cpu_prior (sp_cpu s)) m"
      obtain s' where s': "finish_tick marshal i ?cpu mem ?s = Some s'" "rb_inv (sp_ring s')"
        "rb_capacity (sp_ring s') = rb_capacity (sp_ring ?s)"
        "priors s' = (cpu_prior (sp_cpu ?s), advance (disks_of i) (disk_prior (sp_disk ?s)),
          advance (nets_of i) (net_prior (sp_net ?s)))"
        "rb_contents (sp_ring s') = last_n (nat (rb_capacity (sp_ring ?s))) (rb_contents (sp_ring ?s) @
          [\<lparr>ss_Timestamp = ti_now i, ss_CPU = ?cpu, ss_Memory = mem,
            ss_Disk = (case disks_of i of Inl e \<Rightarrow> zero_disk_stats
              | Inr m \<Rightarrow> against disk_baseline disk_delta (ti_disk_env i) (disk_prior (sp_disk ?s)) m),
            ss_Network = (case nets_of i of Inl e \<Rightarrow> zero_net_stats
              | Inr m \<Rightarrow> against net_baseline net_delta (ti_net_env i) (net_prior (sp_net ?s)) m)\<rparr>])"
        "sp_hub s' = BroadcastSnapshot (marshal
          \<lparr>ss_Timestamp = ti_now i, ss_CPU = ?cpu, ss_Memory = mem,
            ss_Disk = (case disks_of i of Inl e \<Rightarrow> zero_disk_stats
              | Inr m \<Rightarrow> against disk_baseline disk_delta (ti_disk_env i) (disk_prior (sp_disk ?s)) m),
            ss_Network = (case nets_of i of Inl e \<Rightarrow> zero_net_stats
              | Inr m \<Rightarrow> against net_baseline net_delta (ti_net_env i) (net_prior (sp_net ?s)) m)\<rparr>) (sp_hub ?s)"
        by (rule finish_tick_result [OF assms(1) inv])
      have tick: "sample_tick marshal i s = Some s'" using Inr cpu(1) mem None s'(1) by (simp add: sample_tick_def)
      have sel: "sp_disk ?s = sp_disk s" "sp_net ?s = sp_net s" "sp_ring ?s = sp_ring s"
        "sp_hub ?s = sp_hub s" by simp_all
      from tick show ?thesis
        using s'(2-6) [unfolded sel] Inr cpu(2) mem None
        by (intro exI [of _ s'] exI conjI) (auto simp: pr advance_def)
    qed
  qed
qed

lemma sampling_loop_result:
  assumes "\<forall>i \<in> set is. tick_ok i" "rb_inv (sp_ring s)" "priors s = (c, d, n)"
    and "rb_contents (sp_ring s) = last_n (nat (rb_capacity (sp_ring s))) pushed"
  shows "\<exists>s'. sampling_loop marshal is s = Some s' \<and> rb_inv (sp_ring s') \<and>
    rb_contents (sp_ring s') = last_n (nat (rb_capacity (sp_ring s))) (pushed @ snapshots c d n is) \<and>
    sp_hub s' = fold (\<lambda>x. BroadcastSnapshot (marshal x)) (snapshots c d n is) (sp_hub s)"
  using assms
proof (induction "is" arbitrary: s c d n pushed)
  case (Cons i "is")
  let ?k = "nat (rb_capacity (sp_ring s))"
  from Cons.prems have ok: "tick_ok i" "\<forall>i \<in> set is. tick_ok i" by simp_all
  obtain s' c' d' n' xs where s': "sample_tick marshal i s = Some s'" "rb_inv (sp_ring s')"
    "rb_capacity (sp_ring s') = rb_capacity (sp_ring s)" "priors s' = (c', d', n')"
    "rb_contents (sp_ring s') = last_n ?k (rb_contents (sp_ring s) @ xs)"
    "sp_hub s' = fold (\<lambda>x. BroadcastSnapshot (marshal x)) xs (sp_hub s)"
    "snapshots c d n (i # is) = xs @ snapshots c' d' n' is"
    using sample_tick_result [OF ok(1) Cons.prems(2,3), of marshal] by blast
  have "rb_contents (sp_ring s') = last_n (nat (rb_capacity (sp_ring s'))) (pushed @ xs)"
    by (simp add: s'(3,5) Cons.prems(4) last_n_snoc_last_n)
  from Cons.IH [OF ok(2) s'(2,4) this] show ?case by (simp add: s'(1,3,6,7) del: snapshots.simps)
qed simp

lemma new_sampler_result:
  assumes "tick_ok b"
  obtains s where "new_sampler b = Some s" "rb_inv (sp_ring s)" "rb_capacity (sp_ring s) = 3600"
    "rb_contents (sp_ring s) = []" "sp_hub s = NewSSEHub"
    "priors s = (advance (stat_of b) None, advance (disks_of b) None, advance (nets_of b) None)"
proof -
  have fresh: "cpu_prior NewCPUCollector = None" "disk_prior NewDiskCollector = None" "net_prior NewNetCollector = None"
    by (simp_all add: cpu_prior_def disk_prior_def net_prior_def NewCPUCollector_def NewDiskCollector_def NewNetCollector_def)
  obtain col where cpu: "cpu_Collect NewCPUCollector (ti_stat b) (fst (ti_cpu_env b)) (snd (ti_cpu_env b)) =
      Some (case stat_of b of Inl e \<Rightarrow> Inl e
        | Inr m \<Rightarrow> Inr (against cpu_baseline cpu_delta (ti_cpu_env b) (cpu_prior NewCPUCollector) m), col)"
    "cpu_prior col = advance (stat_of b) (cpu_prior NewCPUCollector)" by (rule cpu_call [OF assms])
  obtain dc where d: "snd (disk_Collect NewDiskCollector (ti_diskstats b) (fst (ti_disk_env b)) (snd (ti_disk_env b))) = dc"
    "disk_prior dc = advance (disks_of b) None" by (rule disk_call [OF assms, of NewDiskCollector]) (simp add: fresh)
  obtain nc where n: "snd (net_Collect NewNetCollector (ti_netdev b) (fst (ti_net_env b)) (snd (ti_net_env b))) = nc"
    "net_prior nc = advance (nets_of b) None" by (rule net_call [OF assms, of NewNetCollector]) (simp add: fresh)
  have cap: "rb_capacity (NewRingBuffer zero_snapshot DefaultRingBufferCapacity) = 3600"
    by (simp add: NewRingBuffer_def Let_def DefaultRingBufferCapacity_def)
  show ?thesis
    by (rule that [of "\<lparr>sp_cpu = col, sp_disk = dc, sp_net = nc,
        sp_ring = NewRingBuffer zero_snapshot DefaultRingBufferCapacity, sp_hub = NewSSEHub\<rparr>"])
      (simp_all add: new_sampler_def cpu d n priors_def fresh cap rb_contents_New rb_inv_New)
qed

section \<open>Properties\<close>

text \<open>C3. The sampling loop, from the baseline that \<open>NewServer\<close> takes and over any sequence of ticks,
  never panics, and the ring buffer then holds the last 3600 snapshots in the order of the ticks: a
  tick whose CPU or memory file could not be read or parsed has none, but the next CPU usage is
  still measured from the last \<open>/proc/stat\<close> that was parsed; a disk or network file that could not be
  parsed gives zero values for that tick only, and the following rates span the gap.  Each snapshot
  was handed to the hub once, in the same order.\<close>

theorem sampling_history:
  assumes "tick_ok b" "\<forall>i \<in> set is. tick_ok i"
  shows "\<exists>s s'. new_sampler b = Some s \<and> sampling_loop marshal is s = Some s' \<and>
    (let xs = snapshots (advance (stat_of b) None) (advance (disks_of b) None) (advance (nets_of b) None) is
     in GetAll zero_snapshot (sp_ring s') = Some (last_n 3600 xs) \<and>
        sp_hub s' = fold (\<lambda>x. BroadcastSnapshot (marshal x)) xs NewSSEHub)"
proof -
  obtain s where s: "new_sampler b = Some s" "rb_inv (sp_ring s)" "rb_capacity (sp_ring s) = 3600"
    "rb_contents (sp_ring s) = []" "sp_hub s = NewSSEHub"
    "priors s = (advance (stat_of b) None, advance (disks_of b) None, advance (nets_of b) None)"
    by (rule new_sampler_result [OF assms(1)])
  from sampling_loop_result [OF assms(2) s(2,6), of "[]" marshal]
  obtain s' where "sampling_loop marshal is s = Some s'" "rb_inv (sp_ring s')"
    "rb_contents (sp_ring s') = last_n 3600 (snapshots (advance (stat_of b) None) (advance (disks_of b) None)
      (advance (nets_of b) None) is)"
    "sp_hub s' = fold (\<lambda>x. BroadcastSnapshot (marshal x)) (snapshots (advance (stat_of b) None)
      (advance (disks_of b) None) (advance (nets_of b) None) is) NewSSEHub"
    by (auto simp: s)
  with s(1) show ?thesis by (simp add: GetAll_refines)
qed

definition sample_input :: "string option \<Rightarrow> go_time \<Rightarrow> tick_input" where
  "sample_input stat t = \<lparr>ti_stat = map_option (\<lambda>s. (s, False)) stat, ti_meminfo = Some (''MemTotal: 1000 kB'', False),
     ti_diskstats = None, ti_netdev = None, ti_cpu_env = (t, [''cpu0'']), ti_mem_now = t,
     ti_disk_env = (t, []), ti_net_env = (t, []), ti_now = t\<rparr>"

lemma sample_input_ok: "tick_ok (sample_input (Some ''cpu0 1 0 0 1'') t)" "tick_ok (sample_input None t)"
proof -
  have "ParseProcStat (''cpu0 1 0 0 1'', False) = Inr [(''cpu0'', sample_ticks ''cpu0'' 1 1 0)]"
    by code_simp
  then show "tick_ok (sample_input (Some ''cpu0 1 0 0 1'') t)" "tick_ok (sample_input None t)"
    by (auto simp: tick_ok_def sample_input_def parse_file_def fits_def range_order_def)
qed

theorem sampling_history_witness:
  "let b = sample_input None 1; is = [sample_input (Some ''cpu0 1 0 0 1'') 2, sample_input None 3]
   in \<exists>s s'. new_sampler b = Some s \<and> sampling_loop (\<lambda>x. None) is s = Some s' \<and>
    (let xs = snapshots (advance (stat_of b) None) (advance (disks_of b) None) (advance (nets_of b) None) is
     in GetAll zero_snapshot (sp_ring s') = Some (last_n 3600 xs) \<and>
        sp_hub s' = fold (\<lambda>x. BroadcastSnapshot None) xs NewSSEHub)"
  unfolding Let_def [of "sample_input None 1"] Let_def [of "[_, _]"]
  by (rule sampling_history) (simp_all add: sample_input_ok)

end
