(* ===== verification/Http_Middleware.thy ===== *)
theory Http_Middleware
  imports Go_Strings
begin

text \<open>
  The middleware, \<open>internal/api/middleware.go\<close>, over the part of \<open>net/http\<close> that it uses: a handler
  takes the request, the state of the program and the response writer, and returns or panics.
\<close>

section \<open>Requests, response writers, handlers\<close>

text \<open>\<open>hr_Query\<close> and \<open>hr_Header\<close> give the first value of a parameter, or the empty string.\<close>

record http_request =
  hr_Method :: string
  hr_Path :: string
  hr_Query :: "string \<Rightarrow> string"
  hr_Header :: "string \<Rightarrow> string"
  hr_Body :: reader

text \<open>\<open>rw_header\<close> is the map that \<open>Header\<close> returns; \<open>rw_sent\<close> is the status with the headers as they were
  at the first call of \<open>WriteHeader\<close>, after which neither changes.\<close>

record response_writer =
  rw_header :: "string \<Rightarrow> string option"
  rw_sent :: "(int \<times> (string \<Rightarrow> string option)) option"
  rw_body :: string

definition new_response :: response_writer where
  "new_response = \<lparr>rw_header = Map.empty, rw_sent = None, rw_body = []\<rparr>"

definition header_set :: "string \<Rightarrow> string \<Rightarrow> response_writer \<Rightarrow> response_writer" where
  "header_set k v w = w\<lparr>rw_header := (rw_header w)(k \<mapsto> v)\<rparr>"

definition header_del :: "string \<Rightarrow> response_writer \<Rightarrow> response_writer" where
  "header_del k w = w\<lparr>rw_header := (rw_header w)(k := None)\<rparr>"

definition WriteHeader :: "int \<Rightarrow> response_writer \<Rightarrow> response_writer" where
  "WriteHeader status w = (case rw_sent w of
     None \<Rightarrow> w\<lparr>rw_sent := Some (status, rw_header w)\<rparr>
   | Some sent \<Rightarrow> w)"

definition write_body :: "string \<Rightarrow> response_writer \<Rightarrow> response_writer" where
  "write_body text w = (let w = WriteHeader 200 w in w\<lparr>rw_body := rw_body w @ text\<rparr>)"

text \<open>\<open>http.Error\<close>.\<close>

definition http_Error :: "string \<Rightarrow> int \<Rightarrow> response_writer \<Rightarrow> response_writer" where
  "http_Error text status w =
     (let w = header_del ''Content-Length'' w;
          w = header_set ''Content-Type'' ''text/plain; charset=utf-8'' w;
          w = header_set ''X-Content-Type-Options'' ''nosniff'' w;
          w = WriteHeader status w
      in write_body (text @ [CHR 0x0A]) w)"

datatype outcome = Completed | Panicked

type_synonym 's http_handler =
  "http_request \<Rightarrow> 's \<times> response_writer \<Rightarrow> outcome \<times> 's \<times> response_writer"

type_synonym 's middleware = "'s http_handler \<Rightarrow> 's http_handler"

section \<open>The middleware\<close>

definition Chain :: "'s http_handler \<Rightarrow> 's middleware list \<Rightarrow> 's http_handler" where
  "Chain h middlewares = foldr (\<lambda>m h. m h) middlewares h"

definition CORSMiddleware :: "'s middleware" where
  "CORSMiddleware nxt r = (\<lambda>(s, w).
     let w = header_set ''Access-Control-Allow-Origin'' ''*'' w;
         w = header_set ''Access-Control-Allow-Methods'' ''GET, POST, OPTIONS, PUT, DELETE'' w;
         w = header_set ''Access-Control-Allow-Headers'' ''Content-Type, Authorization, X-Service-Name'' w
     in if hr_Method r = ''OPTIONS'' then (Completed, s, WriteHeader 204 w) else nxt r (s, w))"

definition LoggerMiddleware :: "'s middleware" where
  "LoggerMiddleware nxt r = (\<lambda>(s, w). nxt r (s, w))"

definition RecoveryMiddleware :: "'s middleware" where
  "RecoveryMiddleware nxt r = (\<lambda>(s, w). case nxt r (s, w) of
     (Completed, s, w) \<Rightarrow> (Completed, s, w)
   | (Panicked, s, w) \<Rightarrow>
       (Completed, s, http_Error (''{'' @ [CHR 0x22] @ ''error'' @ [CHR 0x22] @ '':'' @ [CHR 0x22] @
          ''internal server error'' @ [CHR 0x22] @ ''}'') 500 w))"

section \<open>Promises about a response\<close>

text \<open>What holds of a response writer and is kept by whatever a handler may do with it: \<open>allowed\<close> are the
  headers that it may set.\<close>

locale writer_promise =
  fixes promise :: "response_writer \<Rightarrow> bool"
    and allowed :: "string \<Rightarrow> string \<Rightarrow> bool"
  assumes set_header: "promise w \<Longrightarrow> allowed k v \<Longrightarrow> promise (header_set k v w)"
    and del_header: "promise w \<Longrightarrow> promise (header_del ''Content-Length'' w)"
    and commit: "promise w \<Longrightarrow> promise (WriteHeader status w)"
    and append_body: "promise w \<Longrightarrow> promise (w\<lparr>rw_body := text\<rparr>)"
    and error_headers: "allowed ''Content-Type'' v" "allowed ''X-Content-Type-Options'' v"

context writer_promise begin

lemma body: "promise w \<Longrightarrow> promise (write_body text w)"
  by (simp add: write_body_def Let_def append_body commit)

lemma error: "promise w \<Longrightarrow> promise (http_Error text status w)"
  by (simp add: http_Error_def Let_def body commit set_header del_header error_headers)

lemma bodies: "promise w \<Longrightarrow> promise (fold write_body texts w)"
  by (induction texts arbitrary: w) (simp_all add: body)

lemma recovery:
  assumes "promise w" "\<And>o' s' w'. nxt r (s, w) = (o', s', w') \<Longrightarrow> promise w'"
  shows "RecoveryMiddleware nxt r (s, w) = (o', s', w') \<Longrightarrow> promise w'"
  using assms by (auto simp: RecoveryMiddleware_def error split: prod.splits outcome.splits)

end

definition cors_headers :: "(string \<times> string) list" where
  "cors_headers = [(''Access-Control-Allow-Origin'', ''*''),
     (''Access-Control-Allow-Methods'', ''GET, POST, OPTIONS, PUT, DELETE''),
     (''Access-Control-Allow-Headers'', ''Content-Type, Authorization, X-Service-Name'')]"

definition has_cors :: "(string \<Rightarrow> string option) \<Rightarrow> bool" where
  "has_cors h \<longleftrightarrow> list_all (\<lambda>(k, v). h k = Some v) cors_headers"

definition cors_promise :: "response_writer \<Rightarrow> bool" where
  "cors_promise w \<longleftrightarrow> has_cors (rw_header w) \<and> (case rw_sent w of None \<Rightarrow> True | Some (status, h) \<Rightarrow> has_cors h)"

definition cors_allowed :: "string \<Rightarrow> string \<Rightarrow> bool" where
  "cors_allowed k v \<longleftrightarrow> k \<notin> fst ` set cors_headers \<or> (k, v) \<in> set cors_headers"

lemma has_cors_set: "has_cors h \<Longrightarrow> cors_allowed k v \<Longrightarrow> has_cors (h(k \<mapsto> v))"
  by (auto simp: has_cors_def cors_allowed_def cors_headers_def)

interpretation cors: writer_promise cors_promise cors_allowed
proof
  show "cors_promise (header_set k v w)" if "cors_promise w" "cors_allowed k v" for w k v
    using that by (simp add: cors_promise_def header_set_def has_cors_set)
  show "cors_promise (header_del ''Content-Length'' w)" if "cors_promise w" for w
    using that by (simp add: cors_promise_def header_del_def has_cors_def cors_headers_def)
  show "cors_promise (WriteHeader status w)" if "cors_promise w" for status w
    using that by (auto simp: cors_promise_def WriteHeader_def split: option.split)
qed (simp_all add: cors_promise_def cors_allowed_def cors_headers_def)

text \<open>A response whose status is sent keeps it.\<close>

interpretation committed: writer_promise "\<lambda>w. rw_sent w = Some sent" "\<lambda>k v. True" for sent
  by unfold_locales (simp_all add: header_set_def header_del_def WriteHeader_def)

interpretation answered: writer_promise "\<lambda>w. rw_sent w \<noteq> None" "\<lambda>k v. True"
  by unfold_locales (auto simp: header_set_def header_del_def WriteHeader_def)

lemma answered_commit [simp]: "rw_sent (WriteHeader status w) \<noteq> None" "rw_sent (write_body text w) \<noteq> None"
  "rw_sent (http_Error text status w) \<noteq> None"
  by (auto simp: WriteHeader_def write_body_def http_Error_def Let_def split: option.split)

end
