(* ===== verification/Http_Router.thy ===== *)
theory Http_Router
  imports Server Api_Handler Http_Middleware Go_Path
begin

text \<open>
  From a request to its response: the route table of \<open>internal/api/handler.go\<close> and
  \<open>internal/server/server.go\<close> on the model of \<open>http.ServeMux\<close>, the handlers of \<open>Api_Handler\<close> with the text
  they write, the embedded user interface of \<open>internal/ui/embed.go\<close>, and the chain of middleware
  around them.
\<close>

section \<open>Routes\<close>

datatype route = IngestLogs | ReadLogs | ReadMetrics | ReadHistory | SSEStream | ReadHealth | Interface

text \<open>A pattern has a method, or none, and a path.\<close>

type_synonym mux_pattern = "(string \<times> string) \<times> route"

definition RegisterRoutes :: "mux_pattern list" where
  "RegisterRoutes =
     [((''POST'', ''/api/v1/logs''), IngestLogs),
      ((''GET'', ''/api/v1/logs''), ReadLogs),
      ((''GET'', ''/api/v1/metrics''), ReadMetrics),
      ((''GET'', ''/api/v1/metrics/history''), ReadHistory),
      ((''GET'', ''/api/v1/stream''), SSEStream),
      ((''GET'', ''/health''), ReadHealth),
      ((''GET'', ''/api/v1/health''), ReadHealth)]"

definition server_routes :: "mux_pattern list" where
  "server_routes = RegisterRoutes @ [(([], ''/''), Interface)]"

text \<open>A path that ends in a slash stands for everything below it, and \<open>GET\<close> also for \<open>HEAD\<close>.  Of the
  patterns that match, the longest path wins, and then one with a method.\<close>

definition pattern_matches :: "string \<Rightarrow> string \<Rightarrow> string \<times> string \<Rightarrow> bool" where
  "pattern_matches method path = (\<lambda>(m, p).
     (m = [] \<or> m = method \<or> m = ''GET'' \<and> method = ''HEAD'') \<and>
     (if p \<noteq> [] \<and> last p = CHR ''/'' then HasPrefix path p else path = p))"

definition more_specific :: "string \<times> string \<Rightarrow> string \<times> string \<Rightarrow> bool" where
  "more_specific a b \<longleftrightarrow> length (snd a) > length (snd b) \<or> snd a = snd b \<and> fst a \<noteq> [] \<and> fst b = []"

fun best_match :: "mux_pattern list \<Rightarrow> mux_pattern option" where
  "best_match [] = None"
| "best_match (p # ps) = (case best_match ps of
     None \<Rightarrow> Some p
   | Some q \<Rightarrow> if more_specific (fst q) (fst p) then Some q else Some p)"

definition mux_route :: "mux_pattern list \<Rightarrow> string \<Rightarrow> string \<Rightarrow> route option" where
  "mux_route patterns method path =
     map_option snd (best_match (filter (\<lambda>p. pattern_matches method path (fst p)) patterns))"

section \<open>The handlers\<close>

record api_handler =
  ah_ringBuffer :: "system_snapshot ring_buffer option"
  ah_logWriter :: "log_writer option"
  ah_sseHub :: hub
  ah_startTime :: go_time
  ah_version :: string

definition NewAPIHandler :: "system_snapshot ring_buffer option \<Rightarrow> log_writer option \<Rightarrow> hub option \<Rightarrow> string \<Rightarrow>
    go_time \<Rightarrow> api_handler" where
  "NewAPIHandler ringBuffer logWriter sseHub version now =
     \<lparr>ah_ringBuffer = ringBuffer, ah_logWriter = logWriter,
      ah_sseHub = (case sseHub of None \<Rightarrow> NewSSEHub | Some h \<Rightarrow> h), ah_startTime = now, ah_version = version\<rparr>"

text \<open>What a request meets: the clock, the JSON text of a snapshot, the answers of the storage, what the stream handler of this client writes until it returns (\<open>hb_out\<close> in
  \<open>Sse_Hub\<close>) and whether the writer can flush, and the parts of \<open>net/http\<close> that are not modelled: the
  redirection to a clean path and the file server.\<close>

record api_env =
  ae_now :: go_time
  ae_codec :: json_codec
  ae_snapshot :: "system_snapshot \<Rightarrow> string"
  ae_query :: "(log_filter \<Rightarrow> storage_error + log_entry list) option"
  ae_message :: "storage_error \<Rightarrow> string"
  ae_count :: "(storage_error + int) option"
  ae_flusher :: bool
  ae_stream :: "string list"
  ae_redirect :: "http_request \<Rightarrow> response_writer \<Rightarrow> response_writer"
  ae_embedded :: "string \<Rightarrow> string option"
  ae_fileServer :: "api_handler http_handler"

definition json_error :: "string \<Rightarrow> string" where
  "json_error message = ''{'' @ [CHR 0x22] @ ''error'' @ [CHR 0x22] @ '':'' @ [CHR 0x22] @ message @ [CHR 0x22] @ ''}''"

text \<open>The maps that the handlers encode, with their keys in the order of the encoder.  The encoder ends the
  text with a newline; if a part of the value cannot be encoded, it writes nothing.  The times of
  stored entries are in UTC.\<close>

definition object_text :: "(string \<times> string) list \<Rightarrow> string" where
  "object_text members = ''{'' @ Join (map (\<lambda>(k, v). quote # k @ quote # CHR '':'' # v) members) '','' @ ''}''"

definition quoted :: "string \<Rightarrow> string" where
  "quoted s = quote # escape s @ [quote]"

definition list_text :: "string list \<Rightarrow> string" where
  "list_text texts = ''['' @ Join texts '','' @ '']''"

definition encoded_response :: "api_env \<Rightarrow> system_snapshot api_response \<Rightarrow> string option" where
  "encoded_response env resp = (case resp of
       HttpError status message \<Rightarrow> Some (json_error message)
     | IngestFull dropped \<Rightarrow> Some (object_text [(''accepted'', ''0''), (''dropped'', show_nat dropped),
         (''error'', quoted ''log ingestion buffer full'')])
     | IngestAccepted accepted dropped \<Rightarrow> Some (object_text [(''accepted'', show_nat accepted), (''dropped'', show_nat dropped),
         (''status'', quoted ''accepted'')])
     | QueryResult logs \<Rightarrow> map_option
         (\<lambda>json. object_text [(''count'', show_nat (length logs)), (''logs'', json_text json)]) (utc_entries_json logs)
     | WaitingForSnapshot \<Rightarrow> Some (object_text [(''message'', quoted ''waiting for initial metrics snapshot'')])
     | LatestSnapshot s \<Rightarrow> Some (ae_snapshot env s)
     | History n capacity xs \<Rightarrow> Some (object_text [(''capacity'', show_int capacity), (''count'', show_nat n),
         (''snapshots'', list_text (map (ae_snapshot env) xs))])
     | Health version uptime n \<Rightarrow> Some (object_text [(''status'', quoted ''ok''), (''stored_logs'', show_int n),
         (''uptime_sec'', show_int uptime), (''version'', quoted version)]))"

definition response_text :: "api_env \<Rightarrow> system_snapshot api_response \<Rightarrow> string" where
  "response_text env resp = (case encoded_response env resp of None \<Rightarrow> [] | Some text \<Rightarrow> text @ [CHR 0x0A])"

text \<open>\<open>http.Error\<close> with the JSON text, or \<open>writeJSON\<close>.\<close>

definition writeJSON :: "int \<Rightarrow> string \<Rightarrow> response_writer \<Rightarrow> response_writer" where
  "writeJSON status text w =
     write_body text (WriteHeader status (header_set ''Content-Type'' ''application/json; charset=utf-8'' w))"

definition respond :: "api_env \<Rightarrow> system_snapshot api_response \<Rightarrow> response_writer \<Rightarrow> response_writer" where
  "respond env resp w = (case resp of
     HttpError status message \<Rightarrow> http_Error (json_error message) status w
   | _ \<Rightarrow> writeJSON (response_status resp) (response_text env resp) w)"

definition ingest_request_of :: "http_request \<Rightarrow> ingest_request" where
  "ingest_request_of r = \<lparr>ig_Body = hr_Body r, ig_ContentType = hr_Header r ''Content-Type'',
     ig_ServiceParam = hr_Query r ''service'', ig_ServiceHeader = hr_Header r ''X-Service-Name''\<rparr>"

definition query_params_of :: "http_request \<Rightarrow> query_params" where
  "query_params_of r = \<lparr>qp_level = hr_Query r ''level'', qp_service = hr_Query r ''service'',
     qp_search = hr_Query r ''search'', qp_limit = hr_Query r ''limit'', qp_offset = hr_Query r ''offset'',
     qp_start = hr_Query r ''start'', qp_end = hr_Query r ''end''\<rparr>"

text \<open>A body over the limit makes \<open>net/http\<close> close the connection.\<close>

definition limit_body :: "http_request \<Rightarrow> response_writer \<Rightarrow> response_writer" where
  "limit_body r w = (if length (fst (hr_Body r)) > 10 * 1024 * 1024 \<and> rw_sent w = None
     then header_set ''Connection'' ''close'' w else w)"

definition serve_ingest :: "api_env \<Rightarrow> api_handler http_handler" where
  "serve_ingest env r = (\<lambda>(s, w).
     let w = (if ah_logWriter s = None then w else limit_body r w)
     in case HandleIngestLogs (ae_codec env) (ae_now env) (ingest_request_of r) (ah_logWriter s) (ah_sseHub s) of
          None \<Rightarrow> (Panicked, s, w)
        | Some (resp, logWriter, sseHub) \<Rightarrow>
            (Completed, s\<lparr>ah_logWriter := logWriter, ah_sseHub := sseHub\<rparr>, respond env resp w))"

definition HandleSSEStream :: "api_env \<Rightarrow> api_handler http_handler" where
  "HandleSSEStream env r = (\<lambda>(s, w).
     if \<not> ae_flusher env then (Completed, s, http_Error ''Streaming unsupported by client'' 400 w)
     else let w = header_set ''Content-Type'' ''text/event-stream'' w;
              w = header_set ''Cache-Control'' ''no-cache'' w;
              w = header_set ''Connection'' ''keep-alive'' w;
              w = header_set ''X-Accel-Buffering'' ''no'' w;
              w = header_set ''Access-Control-Allow-Origin'' ''*'' w
          in (Completed, s, fold write_body (greeting # ae_stream env) w))"

text \<open>The embedded files, with the page for a path that does not exist.\<close>

definition ui_Handler :: "(string \<Rightarrow> string option) \<Rightarrow> 's http_handler \<Rightarrow> 's http_handler" where
  "ui_Handler embedded fileServer r = (\<lambda>(s, w).
     let path = TrimPrefix (hr_Path r) ''/'' in
     if path = [] then fileServer r (s, w)
     else case embedded path of
       Some content \<Rightarrow> fileServer r (s, w)
     | None \<Rightarrow> (case embedded ''404.html'' of
         Some page \<Rightarrow> (Completed, s, write_body page (WriteHeader 404
           (header_set ''Content-Type'' ''text/html; charset=utf-8'' w)))
       | None \<Rightarrow> (Completed, s, http_Error ''404 page not found'' 404 w)))"

definition from_response :: "api_env \<Rightarrow> system_snapshot api_response option \<Rightarrow> api_handler \<times> response_writer \<Rightarrow>
    outcome \<times> api_handler \<times> response_writer" where
  "from_response env resp = (\<lambda>(s, w). case resp of
     None \<Rightarrow> (Panicked, s, w)
   | Some resp \<Rightarrow> (Completed, s, respond env resp w))"

fun serve_route :: "api_env \<Rightarrow> route \<Rightarrow> api_handler http_handler" where
  "serve_route env IngestLogs r sw = serve_ingest env r sw"
| "serve_route env ReadLogs r sw =
     from_response env (Some (HandleQueryLogs (ae_message env) (ae_query env) (query_params_of r))) sw"
| "serve_route env ReadMetrics r sw = from_response env (HandleGetMetrics (ah_ringBuffer (fst sw))) sw"
| "serve_route env ReadHistory r sw =
     from_response env (HandleGetMetricsHistory zero_snapshot (ah_ringBuffer (fst sw)) (hr_Query r ''n'')) sw"
| "serve_route env SSEStream r sw = HandleSSEStream env r sw"
| "serve_route env ReadHealth r sw =
     from_response env (Some (HandleHealth (ah_version (fst sw)) (ah_startTime (fst sw)) (ae_now env) (ae_count env))) sw"
| "serve_route env Interface r sw = ui_Handler (ae_embedded env) (ae_fileServer env) r sw"

text \<open>\<open>ServeMux.ServeHTTP\<close>; there is a route for every path, because of the pattern \<open>/\<close>.\<close>

definition serve_mux :: "api_env \<Rightarrow> api_handler http_handler" where
  "serve_mux env r = (\<lambda>(s, w).
     if cleanPath (hr_Path r) \<noteq> hr_Path r then (Completed, s, ae_redirect env r w)
     else case mux_route server_routes (hr_Method r) (hr_Path r) of
       None \<Rightarrow> (Completed, s, http_Error ''404 page not found'' 404 w)
     | Some route \<Rightarrow> serve_route env route r (s, w))"

definition wrappedMux :: "api_env \<Rightarrow> api_handler http_handler" where
  "wrappedMux env = Chain (serve_mux env) [CORSMiddleware, RecoveryMiddleware, LoggerMiddleware]"

section \<open>Lemmas\<close>

text \<open>The route table.\<close>

lemma mux_route_server:
  assumes "HasPrefix path ''/''"
  shows "mux_route server_routes method path = Some (
    if method = ''POST'' \<and> path = ''/api/v1/logs'' then IngestLogs
    else if method = ''GET'' \<or> method = ''HEAD'' then
      (if path = ''/api/v1/logs'' then ReadLogs
       else if path = ''/api/v1/metrics'' then ReadMetrics
       else if path = ''/api/v1/metrics/history'' then ReadHistory
       else if path = ''/api/v1/stream'' then SSEStream
       else if path = ''/health'' \<or> path = ''/api/v1/health'' then ReadHealth
       else Interface)
    else Interface)"
  using assms
  by (simp add: mux_route_def server_routes_def RegisterRoutes_def pattern_matches_def more_specific_def HasPrefix_def)

lemma wrappedMux_eq:
  "wrappedMux env r (s, w) =
    (let w = fold (\<lambda>(k, v). header_set k v) cors_headers w
     in if hr_Method r = ''OPTIONS'' then (Completed, s, WriteHeader 204 w)
        else RecoveryMiddleware (serve_mux env) r (s, w))"
  by (simp add: wrappedMux_def Chain_def CORSMiddleware_def LoggerMiddleware_def [abs_def] RecoveryMiddleware_def
      cors_headers_def Let_def)

lemma cors_promise_start: "cors_promise (fold (\<lambda>(k, v). header_set k v) cors_headers new_response)"
  by (simp add: cors_headers_def cors_promise_def has_cors_def header_set_def new_response_def)

lemma cors_allowed_other [simp]:
  "cors_allowed ''Content-Type'' v" "cors_allowed ''Cache-Control'' v" "cors_allowed ''Connection'' v"
  "cors_allowed ''X-Accel-Buffering'' v" "cors_allowed ''Access-Control-Allow-Origin'' ''*''"
  by (simp_all add: cors_allowed_def cors_headers_def)

lemma cors_respond: "cors_promise w \<Longrightarrow> cors_promise (respond env resp w)"
  by (simp add: respond_def writeJSON_def cors.error cors.body cors.commit cors.set_header split: api_response.split)

lemma answered_respond [simp]: "rw_sent (respond env resp w) \<noteq> None"
  by (simp add: respond_def writeJSON_def del: not_None_eq split: api_response.split)

text \<open>The state of the handlers between requests.\<close>

definition api_ok :: "api_handler \<Rightarrow> bool" where
  "api_ok s \<longleftrightarrow>
     (\<forall>w. ah_logWriter s = Some w \<longrightarrow> (\<exists>cfg. reachable writer_step (NewAsyncLogWriter cfg) w)) \<and>
     (\<forall>r. ah_ringBuffer s = Some r \<longrightarrow> rb_inv r)"

lemma ingest_loop_reachable:
  assumes "reachable writer_step (NewAsyncLogWriter cfg) w"
  shows "\<exists>a d w' h'. ingest_loop codec now es a0 d0 w h = Some (a, d, w', h') \<and>
    reachable writer_step (NewAsyncLogWriter cfg) w'"
  using assms
proof (induction es arbitrary: a0 d0 w h)
  case (Cons e es)
  obtain ok w1 where E: "Enqueue (complete_entry now e) w = Some (ok, w1)"
    using enqueue_total [OF Cons.prems] that by (metis (no_types) surj_pair)
  note IH = Cons.IH [OF Enqueue_reachable [OF Cons.prems E]]
  show ?case
  proof (cases ok)
    case True
    then show ?thesis
      using IH [of "Suc a0" d0 "BroadcastLog (jc_entry codec (complete_entry now e)) h"] by (simp add: E Let_def)
  next
    case False
    then show ?thesis
      using IH [of a0 "Suc d0" h] by (simp add: E Let_def)
  qed
qed simp

lemma HandleIngestLogs_ok:
  assumes "\<forall>w. writer = Some w \<longrightarrow> (\<exists>cfg. reachable writer_step (NewAsyncLogWriter cfg) w)"
  shows "\<exists>resp writer' h'. HandleIngestLogs codec now r writer h = Some (resp, writer', h') \<and>
    (\<forall>w. writer' = Some w \<longrightarrow> (\<exists>cfg. reachable writer_step (NewAsyncLogWriter cfg) w))"
proof (cases writer)
  case (Some w)
  then obtain cfg where w: "reachable writer_step (NewAsyncLogWriter cfg) w"
    using assms by blast
  show ?thesis
  proof (cases "\<exists>body entries. read_body (ig_Body r) = Some body \<and> TrimSpace body \<noteq> [] \<and>
      request_entries codec now r body = Inr entries")
    case True
    then obtain body entries where body: "read_body (ig_Body r) = Some body" "TrimSpace body \<noteq> []"
      "request_entries codec now r body = Inr entries"
      by blast
    obtain a d w' h' where "ingest_loop codec now entries 0 0 w h = Some (a, d, w', h')"
      "reachable writer_step (NewAsyncLogWriter cfg) w'"
      using ingest_loop_reachable [OF w] by blast
    then show ?thesis
      using body by (auto simp: HandleIngestLogs_def Some)
  next
    case False
    then show ?thesis
      using w by (auto simp: HandleIngestLogs_def Some split: option.split sum.split)
  qed
qed (simp add: HandleIngestLogs_def)

text \<open>What every route keeps.\<close>

definition served :: "api_handler \<Rightarrow> outcome \<times> api_handler \<times> response_writer \<Rightarrow> bool" where
  "served s result \<longleftrightarrow> (case result of (o', s', w') \<Rightarrow>
     api_ok s' \<and> cors_promise w' \<and> (o' = Completed \<longrightarrow> rw_sent w' \<noteq> None))"

text \<open>What is relied on from \<open>net/http\<close>: the redirection and the file server send a status and leave the
  headers of the middleware alone; the file server has no access to the state.\<close>

definition net_http_ok :: "api_env \<Rightarrow> bool" where
  "net_http_ok env \<longleftrightarrow>
     (\<forall>r w. cors_promise w \<longrightarrow> cors_promise (ae_redirect env r w) \<and> rw_sent (ae_redirect env r w) \<noteq> None) \<and>
     (\<forall>r s w o' s' w'. cors_promise w \<longrightarrow> ae_fileServer env r (s, w) = (o', s', w') \<longrightarrow>
        s' = s \<and> cors_promise w' \<and> (o' = Completed \<longrightarrow> rw_sent w' \<noteq> None))"

lemma redirect_ok:
  "net_http_ok env \<Longrightarrow> cors_promise w \<Longrightarrow> cors_promise (ae_redirect env r w) \<and> rw_sent (ae_redirect env r w) \<noteq> None"
  by (simp add: net_http_ok_def)

lemma fileServer_ok:
  "net_http_ok env \<Longrightarrow> cors_promise w \<Longrightarrow> ae_fileServer env r (s, w) = (o', s', w') \<Longrightarrow>
   s' = s \<and> cors_promise w' \<and> (o' = Completed \<longrightarrow> rw_sent w' \<noteq> None)"
  unfolding net_http_ok_def by metis

lemma served_response:
  "api_ok s \<Longrightarrow> cors_promise w \<Longrightarrow> served s (from_response env resp (s, w))"
  by (simp add: served_def from_response_def cors_respond del: not_None_eq split: option.split)

lemma served_ingest:
  assumes "api_ok s" "cors_promise w"
  shows "served s (serve_ingest env r (s, w))"
proof -
  obtain resp :: "system_snapshot api_response" and writer' h' where H: "HandleIngestLogs (ae_codec env) (ae_now env) (ingest_request_of r) (ah_logWriter s)
      (ah_sseHub s) = Some (resp, writer', h')"
    "\<forall>w. writer' = Some w \<longrightarrow> (\<exists>cfg. reachable writer_step (NewAsyncLogWriter cfg) w)"
    using HandleIngestLogs_ok [of "ah_logWriter s"] assms(1) unfolding api_ok_def by blast
  define w1 where "w1 = (if ah_logWriter s = None then w else limit_body r w)"
  have "cors_promise w1"
    using assms(2) by (simp add: w1_def limit_body_def cors.set_header)
  moreover have "serve_ingest env r (s, w) =
      (Completed, s\<lparr>ah_logWriter := writer', ah_sseHub := h'\<rparr>, respond env resp w1)"
    by (simp add: serve_ingest_def H(1) w1_def)
  ultimately show ?thesis
    using assms(1) H(2) by (simp add: served_def cors_respond api_ok_def del: not_None_eq)
qed

lemma answered_bodies: "rw_sent (fold write_body msgs (write_body msg w)) \<noteq> None"
  by (rule answered.bodies) (rule answered_commit)

lemma served_stream: "api_ok s \<Longrightarrow> cors_promise w \<Longrightarrow> served s (HandleSSEStream env r (s, w))"
  by (simp add: served_def HandleSSEStream_def Let_def cors.error cors.bodies cors.body cors.set_header answered_bodies
    del: not_None_eq)

lemma served_interface:
  assumes "net_http_ok env" "api_ok s" "cors_promise w"
  shows "served s (ui_Handler (ae_embedded env) (ae_fileServer env) r (s, w))"
proof -
  obtain o' s' w' where F: "ae_fileServer env r (s, w) = (o', s', w')"
    by (rule prod_cases3)
  have "served s (ae_fileServer env r (s, w))"
    using fileServer_ok [OF assms(1,3) F] assms(2) by (simp add: served_def F)
  then show ?thesis
    using assms(2,3)
    by (simp add: ui_Handler_def Let_def served_def [of _ "(_, _)"] cors.error cors.body cors.commit cors.set_header
        del: not_None_eq split: option.split)
qed

lemma served_route:
  assumes "net_http_ok env" "api_ok s" "cors_promise w"
  shows "served s (serve_route env route r (s, w))"
  using assms by (cases route) (simp_all add: served_response served_ingest served_stream served_interface)

lemma served_mux:
  assumes "net_http_ok env" "api_ok s" "cors_promise w"
  shows "served s (serve_mux env r (s, w))"
proof -
  have "served s (Completed, s, ae_redirect env r w)"
    using redirect_ok [OF assms(1,3)] assms(2) by (simp add: served_def)
  then show ?thesis
    using assms
    by (simp add: serve_mux_def served_route served_def [of _ "(_, _, http_Error _ _ _)"] cors.error del: not_None_eq
        split: option.split)
qed

lemma served_recovery:
  assumes "served s (nxt r (s, w))"
  shows "\<exists>s' w'. RecoveryMiddleware nxt r (s, w) = (Completed, s', w') \<and> served s (Completed, s', w')"
proof -
  obtain o' s' w' where "nxt r (s, w) = (o', s', w')"
    by (metis prod_cases3)
  then show ?thesis
    using assms by (cases o') (simp_all add: RecoveryMiddleware_def served_def cors.error del: not_None_eq)
qed

text \<open>Only ingestion changes the state of the handlers.\<close>

lemma route_state:
  assumes "net_http_ok env" "cors_promise w" "route \<noteq> IngestLogs"
  shows "fst (snd (serve_route env route r (s, w))) = s"
proof -
  obtain o' s' w' where F: "ae_fileServer env r (s, w) = (o', s', w')"
    by (rule prod_cases3)
  have "fst (snd (ae_fileServer env r (s, w))) = s"
    using fileServer_ok [OF assms(1,2) F] by (simp add: F)
  with assms(3) show ?thesis
    by (cases route) (simp_all add: from_response_def HandleSSEStream_def ui_Handler_def Let_def split: option.split)
qed

lemma recovery_state: "fst (snd (RecoveryMiddleware nxt r (s, w))) = fst (snd (nxt r (s, w)))"
  by (simp add: RecoveryMiddleware_def split: prod.split outcome.split)

lemma clean_root: "cleanPath p = p \<Longrightarrow> HasPrefix p ''/''"
  using cleanPath_root [of p] by simp

lemma mux_state:
  assumes "net_http_ok env" "cors_promise w" "fst (snd (serve_mux env r (s, w))) \<noteq> s"
  shows "hr_Method r = ''POST'' \<and> hr_Path r = ''/api/v1/logs''"
proof (rule ccontr)
  assume other: "\<not> ?thesis"
  show False
  proof (cases "cleanPath (hr_Path r) = hr_Path r")
    case True
    then obtain route where route: "mux_route server_routes (hr_Method r) (hr_Path r) = Some route" "route \<noteq> IngestLogs"
      using mux_route_server [OF clean_root [OF True], of "hr_Method r"] other by (auto split: if_splits)
    with assms(3) True show False
      using route_state [OF assms(1,2) route(2), of r s] by (simp add: serve_mux_def)
  qed (use assms(3) in \<open>simp add: serve_mux_def\<close>)
qed

section \<open>Properties\<close>


text \<open>Parts of \<open>net/http\<close> of which the hypothesis is true, and a state to start from.\<close>

definition sample_net :: "(string \<Rightarrow> string option) \<Rightarrow> api_env" where
  "sample_net embedded = \<lparr>ae_now = 5, ae_codec = sample_codec, ae_snapshot = (\<lambda>x. ''{}''), ae_query = None,
     ae_message = (\<lambda>e. ''error''), ae_count = None, ae_flusher = True, ae_stream = [],
     ae_redirect = (\<lambda>r w. WriteHeader 307 w), ae_embedded = embedded,
     ae_fileServer = (\<lambda>r (s, w). (Panicked, s, w))\<rparr>"

lemma sample_net_ok: "net_http_ok (sample_net embedded)"
  by (simp add: net_http_ok_def sample_net_def cors.commit del: not_None_eq)

definition sample_api :: api_handler where
  "sample_api = NewAPIHandler (Some (NewRingBuffer zero_snapshot 2)) (Some (NewAsyncLogWriter DefaultAsyncLogWriterConfig))
     None ''0.2.0'' 0"

lemma sample_api_ok: "api_ok sample_api"
proof -
  have "\<exists>cfg. reachable writer_step (NewAsyncLogWriter cfg) (NewAsyncLogWriter DefaultAsyncLogWriterConfig)"
    by (rule exI) (rule reachable_refl)
  then show ?thesis
    by (simp add: api_ok_def sample_api_def NewAPIHandler_def rb_inv_New)
qed

definition sample_http :: "string \<Rightarrow> string \<Rightarrow> http_request" where
  "sample_http method path = \<lparr>hr_Method = method, hr_Path = path, hr_Query = (\<lambda>k. []), hr_Header = (\<lambda>k. []),
     hr_Body = ([], False)\<rparr>"


text \<open>What a client sees: the status and the text.\<close>

definition answer :: "api_env \<Rightarrow> http_request \<Rightarrow> api_handler \<Rightarrow> int option \<times> string" where
  "answer env r s = (case wrappedMux env r (s, new_response) of (o', s', w') \<Rightarrow>
     (map_option fst (rw_sent w'), rw_body w'))"

text \<open>The response as the handlers find it.\<close>

definition cors_response :: response_writer where
  "cors_response = fold (\<lambda>(k, v). header_set k v) cors_headers new_response"

lemma cors_response_empty: "rw_sent cors_response = None" "rw_body cors_response = []"
  by (simp_all add: cors_response_def cors_headers_def header_set_def new_response_def)

lemma answer_route:
  assumes "hr_Method r = ''GET''" "cleanPath (hr_Path r) = hr_Path r"
    "mux_route server_routes ''GET'' (hr_Path r) = Some route"
    "serve_route env route r (s, cors_response) = (Completed, s, w')"
  shows "answer env r s = (map_option fst (rw_sent w'), rw_body w')"
  using assms by (simp add: answer_def wrappedMux_eq cors_response_def Let_def RecoveryMiddleware_def serve_mux_def)

lemma answer_json:
  "w = cors_response \<Longrightarrow> map_option fst (rw_sent (writeJSON status text w)) = Some status \<and>
   rw_body (writeJSON status text w) = text"
  by (simp add: writeJSON_def write_body_def WriteHeader_def Let_def header_set_def cors_response_empty)

text \<open>A path that is neither a route of the API nor an embedded file.\<close>

lemma unknown_path_answer:
  assumes "hr_Method r = ''GET''" "mux_route server_routes ''GET'' (hr_Path r) = Some Interface"
    and "cleanPath (hr_Path r) = hr_Path r" "hr_Path r \<noteq> ''/''"
    and "ae_embedded env (TrimPrefix (hr_Path r) ''/'') = None" "ae_embedded env ''404.html'' = Some page"
  shows "answer env r s = (Some 404, page)"
proof -
  have "TrimPrefix (hr_Path r) ''/'' \<noteq> []"
    using clean_root [OF assms(3)] assms(4) by (cases "hr_Path r") (auto simp: TrimPrefix_def HasPrefix_def)
  then have "serve_route env Interface r (s, cors_response) = (Completed, s, write_body page (WriteHeader 404
      (header_set ''Content-Type'' ''text/html; charset=utf-8'' cors_response)))"
    using assms(5,6) by (simp add: ui_Handler_def Let_def)
  from answer_route [OF assms(1,3,2) this] show ?thesis
    by (simp add: write_body_def WriteHeader_def Let_def header_set_def cors_response_empty)
qed

text \<open>C10. From a request to the stored snapshots: after any sequence of pushes and clears of the ring
  buffer, \<open>GET /api/v1/metrics\<close> answers with the last snapshot that was pushed, or says that there is
  none; \<open>GET /api/v1/metrics/history?n=k\<close> answers with the last \<open>k\<close> of those it still holds, and with all of
  them for \<open>k = 0\<close>; and for a path that is neither of the API nor an embedded file the answer is 404
  with the embedded page.\<close>

theorem metrics_served:
  assumes "rb_run Push rb_Clear (NewRingBuffer zero_snapshot c) ops = Some ring" "ah_ringBuffer s = Some ring"
    and "hr_Method r = ''GET''" "k < 2 ^ 63"
  shows "let xs = last_n (nat (rb_Capacity ring)) (live [] ops) in
    (hr_Path r = ''/api/v1/metrics'' \<longrightarrow>
      answer env r s = (Some 200, response_text env (if xs = [] then WaitingForSnapshot else LatestSnapshot (last xs)))) \<and>
    (hr_Path r = ''/api/v1/metrics/history'' \<and> hr_Query r ''n'' = show_nat k \<longrightarrow>
      answer env r s = (Some 200, response_text env
        (let ys = if k = 0 then xs else last_n k xs in History (length ys) (rb_Capacity ring) ys))) \<and>
    (mux_route server_routes ''GET'' (hr_Path r) = Some Interface \<and> cleanPath (hr_Path r) = hr_Path r \<and>
      hr_Path r \<noteq> ''/'' \<and> ae_embedded env (TrimPrefix (hr_Path r) ''/'') = None \<and> ae_embedded env ''404.html'' = Some page \<longrightarrow>
      answer env r s = (Some 404, page))"
proof -
  define xs where "xs = last_n (nat (rb_Capacity ring)) (live [] ops)"
  note H = metrics_history [OF assms(1,4), unfolded Let_def, folded xs_def]
  let ?latest = "if xs = [] then WaitingForSnapshot else LatestSnapshot (last xs)"
  let ?history = "let ys = if k = 0 then xs else last_n k xs in History (length ys) (rb_Capacity ring) ys"
  have latest: "answer env r s = (Some 200, response_text env ?latest)" if path: "hr_Path r = ''/api/v1/metrics''"
  proof -
    have "cleanPath (hr_Path r) = hr_Path r" "mux_route server_routes ''GET'' (hr_Path r) = Some ReadMetrics"
      unfolding path by code_simp+
    moreover have "serve_route env ReadMetrics r (s, cors_response) =
        (Completed, s, writeJSON 200 (response_text env ?latest) cors_response)"
      using H assms(2) by (simp add: from_response_def respond_def)
    ultimately show ?thesis
      using answer_route [OF assms(3)] answer_json [OF refl] by simp
  qed
  have history: "answer env r s = (Some 200, response_text env ?history)"
    if path: "hr_Path r = ''/api/v1/metrics/history''" "hr_Query r ''n'' = show_nat k"
  proof -
    have "cleanPath (hr_Path r) = hr_Path r" "mux_route server_routes ''GET'' (hr_Path r) = Some ReadHistory"
      unfolding path(1) by code_simp+
    moreover have "serve_route env ReadHistory r (s, cors_response) =
        (Completed, s, writeJSON 200 (response_text env ?history) cors_response)"
      using H assms(2) path(2) by (simp add: from_response_def respond_def Let_def)
    ultimately show ?thesis
      using answer_route [OF assms(3)] answer_json [OF refl] by simp
  qed
  show ?thesis
    using latest history unknown_path_answer [OF assms(3)] unfolding xs_def [symmetric] Let_def [of xs] by blast
qed

lemma waiting_text:
  "response_text env WaitingForSnapshot = ''{'' @ [CHR 0x22] @ ''message'' @ [CHR 0x22] @ '':'' @ [CHR 0x22] @
     ''waiting for initial metrics snapshot'' @ [CHR 0x22] @ ''}'' @ [CHR 0x0A]"
proof -
  have "object_text [(''message'', quoted ''waiting for initial metrics snapshot'')] @ [CHR 0x0A] =
      ''{'' @ [CHR 0x22] @ ''message'' @ [CHR 0x22] @ '':'' @ [CHR 0x22] @ ''waiting for initial metrics snapshot'' @ [CHR 0x22] @
      ''}'' @ [CHR 0x0A]"
    by code_simp
  then show ?thesis
    by (simp only: response_text_def encoded_response_def api_response.case option.case)
qed

theorem metrics_served_witness:
  "answer (sample_net Map.empty) (sample_http ''GET'' ''/api/v1/metrics'') sample_api =
    (Some 200, ''{'' @ [CHR 0x22] @ ''message'' @ [CHR 0x22] @ '':'' @ [CHR 0x22] @ ''waiting for initial metrics snapshot'' @
      [CHR 0x22] @ ''}'' @ [CHR 0x0A])"
  using metrics_served [of 2 "[]" "NewRingBuffer zero_snapshot 2" sample_api "sample_http ''GET'' ''/api/v1/metrics''" 0
      "sample_net Map.empty"]
  unfolding waiting_text [symmetric, of "sample_net Map.empty"]
  by (simp add: sample_http_def sample_api_def NewAPIHandler_def Let_def)

end
