(* ===== verification/Server_Lifecycle.thy ===== *)
theory Server_Lifecycle
  imports Server Time_Format
begin

text \<open>
  The life of the server, \<open>internal/server/server.go\<close>: the log entries written at the start, and
  \<open>Shutdown\<close> as a transition system that composes the log writer, the hub, the tailers of the
  harvester and the requests in progress.
\<close>

section \<open>The first log entries\<close>

text \<open>\<open>Duration.String\<close>: \<open>fmtFrac\<close> gives the digits after the point without trailing zeros.\<close>

definition fmtFrac :: "nat \<Rightarrow> nat \<Rightarrow> string" where
  "fmtFrac v prec = (let digits = fraction_digits prec (v mod 10 ^ prec)
     in if digits = [] then [] else ''.'' @ digits)"

definition duration_text :: "nat \<Rightarrow> string" where
  "duration_text u =
     (if u = 0 then ''0s''
      else if u < 1000 then show_nat u @ ''ns''
      else if u < 1000000 then show_nat (u div 1000) @ fmtFrac u 3 @ [CHR 0xC2, CHR 0xB5] @ ''s''
      else if u < 1000000000 then show_nat (u div 1000000) @ fmtFrac u 6 @ ''ms''
      else let s = u div 1000000000; m = s div 60; h = m div 60
        in (if h > 0 then show_nat h @ ''h'' else []) @ (if m > 0 then show_nat (m mod 60) @ ''m'' else []) @
           show_nat (s mod 60) @ fmtFrac u 9 @ ''s'')"

definition duration_String :: "go_duration \<Rightarrow> string" where
  "duration_String d = (if d < 0 then ''-'' @ duration_text (nat (- d)) else duration_text (nat d))"

definition info_entry :: "go_time \<Rightarrow> string \<Rightarrow> string \<Rightarrow> (string \<times> string) list \<Rightarrow> log_entry" where
  "info_entry t service message attributes = \<lparr>le_ID = 0, le_Timestamp = t, le_Level = ''INFO'', le_Service = service,
     le_Message = message, le_Attributes = attributes\<rparr>"

definition startupLogs :: "server_config \<Rightarrow> go_time \<Rightarrow> int \<Rightarrow> log_entry list" where
  "startupLogs cfg now pid =
     [info_entry now ''sugi-core'' (''Sugi Observability Engine v'' @ sc_Version cfg @ '' started'')
        [(''pid'', show_int pid), (''port'', show_int (sc_Port cfg))],
      info_entry (now + Millisecond) ''storage''
        (''SQLite WAL storage ready (retention: '' @ duration_String (sc_Retention cfg) @ '')'') [(''db'', sc_DBPath cfg)],
      info_entry (now + 2 * Millisecond) ''collector''
        (''Linux procfs metrics collector online (sampling rate: '' @ duration_String (sc_SampleInterval cfg) @ '')'')
        [(''interval'', duration_String (sc_SampleInterval cfg))],
      info_entry (now + 3 * Millisecond) ''http-server''
        (''Web dashboard and API listening on :'' @ show_int (sc_Port cfg))
        [(''url'', ''http://localhost:'' @ show_int (sc_Port cfg))]]"

fun log_all :: "(log_entry \<Rightarrow> string option) \<Rightarrow> log_entry list \<Rightarrow> log_writer \<times> hub \<Rightarrow> (log_writer \<times> hub) option" where
  "log_all marshal [] wh = Some wh"
| "log_all marshal (entry # entries) wh = do { wh \<leftarrow> on_log marshal entry wh; log_all marshal entries wh }"

section \<open>The state\<close>

text \<open>How far \<open>Shutdown\<close> is: not called; before \<open>Close\<close> of the hub; before \<open>Stop\<close> of the harvester and
  waiting in it; waiting in \<open>Shutdown\<close> of the HTTP server; before and in \<open>Close\<close> of the log writer;
  before \<open>Close\<close> of the database; returned.\<close>

datatype shutdown_pc =
    Up | HubNext | HarvesterNext | HarvesterWait | HttpWait | WriterNext | WriterSignal | WriterWait | DbNext | Down

text \<open>Who calls \<open>Enqueue\<close>: the handler of a request, or a tailer.  Each has at most one entry between
  the check and the send.\<close>

datatype caller_kind = RequestCaller | TailerCaller

record server_state =
  sv_writer :: log_writer
  sv_hub :: hub
  sv_callers :: "(caller_kind \<times> log_entry option) list"
  sv_streams :: "nat list"
  sv_phase :: shutdown_pc
  sv_expired :: bool
  sv_db :: bool

definition start_server :: "server_config \<Rightarrow> (log_entry \<Rightarrow> string option) \<Rightarrow> go_time \<Rightarrow> int \<Rightarrow> nat \<Rightarrow> server_state option" where
  "start_server cfg marshal now pid tailers = (let cfg = server_defaults cfg in do {
     (w, h) \<leftarrow> log_all marshal (startupLogs cfg now pid) (NewAsyncLogWriter (server_writer_config cfg), NewSSEHub);
     Some \<lparr>sv_writer = w, sv_hub = h, sv_callers = replicate tailers (TailerCaller, None), sv_streams = [],
       sv_phase = Up, sv_expired = False, sv_db = True\<rparr>
   })"

section \<open>Shutdown\<close>

definition no_caller :: "caller_kind \<Rightarrow> server_state \<Rightarrow> bool" where
  "no_caller kind s \<longleftrightarrow> kind \<notin> fst ` set (sv_callers s)"

definition connections_idle :: "server_state \<Rightarrow> bool" where
  "connections_idle s \<longleftrightarrow> no_caller RequestCaller s \<and> list_all (\<lambda>i. hb_handler (sv_hub s) i = Gone) (sv_streams s)"

text \<open>One step of the goroutine that runs \<open>Shutdown\<close>; \<open>expired\<close> says that a wait ends because of the
  context.\<close>

definition shutdown_step :: "bool \<Rightarrow> server_state \<Rightarrow> server_state option" where
  "shutdown_step expired s = (if expired \<and> \<not> sv_expired s then None else case sv_phase s of
     Up \<Rightarrow> Some (s\<lparr>sv_phase := HubNext\<rparr>)
   | HubNext \<Rightarrow> Some (s\<lparr>sv_phase := HarvesterNext, sv_hub := hub_Close (sv_hub s)\<rparr>)
   | HarvesterNext \<Rightarrow> Some (s\<lparr>sv_phase := HarvesterWait\<rparr>)
   | HarvesterWait \<Rightarrow> if no_caller TailerCaller s then Some (s\<lparr>sv_phase := HttpWait\<rparr>) else None
   | HttpWait \<Rightarrow> if expired \<or> connections_idle s then Some (s\<lparr>sv_phase := WriterNext\<rparr>) else None
   | WriterNext \<Rightarrow> map_option (\<lambda>w. s\<lparr>sv_phase := WriterSignal, sv_writer := w\<rparr>) (close_mark (sv_writer s))
   | WriterSignal \<Rightarrow> map_option (\<lambda>w. s\<lparr>sv_phase := WriterWait, sv_writer := w\<rparr>) (close_done (sv_writer s))
   | WriterWait \<Rightarrow> map_option (\<lambda>w. s\<lparr>sv_phase := DbNext, sv_writer := w\<rparr>)
       (if expired then close_timeout (sv_writer s) else close_wait (sv_writer s))
   | DbNext \<Rightarrow> Some (s\<lparr>sv_phase := Down, sv_db := False\<rparr>)
   | Down \<Rightarrow> None)"

section \<open>The transition system\<close>

text \<open>The events of the workers; a closed database makes every call fail.\<close>

fun worker_event :: "bool \<Rightarrow> writer_event \<Rightarrow> bool" where
  "worker_event db (WorkerReceive ok) = (ok \<longrightarrow> db)"
| "worker_event db (WorkerTick ok) = (ok \<longrightarrow> db)"
| "worker_event db WorkerDone = True"
| "worker_event db (WorkerDrain ok) = (ok \<longrightarrow> db)"
| "worker_event db (PruneTick ok) = (ok \<longrightarrow> db)"
| "worker_event db PruneDone = True"
| "worker_event db _ = False"

fun own_hub_event :: "hub_event \<Rightarrow> bool" where
  "own_hub_event (Connect i) = False"
| "own_hub_event HubClose = False"
| "own_hub_event _ = True"

text \<open>The listener accepts until \<open>Shutdown\<close> of the HTTP server is called.\<close>

definition listening :: "server_state \<Rightarrow> bool" where
  "listening s \<longleftrightarrow> sv_phase s \<in> {Up, HubNext, HarvesterNext, HarvesterWait}"

datatype server_event =
    WriterMove writer_event
  | HubMove hub_event
  | OpenStream nat
  | OpenRequest
  | CallCheck nat log_entry
  | CallSend nat
  | CallEnd nat
  | Expire
  | ShutdownMove bool

fun server_step :: "server_event \<Rightarrow> server_state \<Rightarrow> server_state option" where
  "server_step (WriterMove e) s =
     (if worker_event (sv_db s) e then map_option (\<lambda>w. s\<lparr>sv_writer := w\<rparr>) (writer_step e (sv_writer s)) else None)"
| "server_step (HubMove e) s =
     (if own_hub_event e then map_option (\<lambda>h. s\<lparr>sv_hub := h\<rparr>) (hub_step e (sv_hub s)) else None)"
| "server_step (OpenStream i) s =
     (if listening s then map_option (\<lambda>h. s\<lparr>sv_hub := h, sv_streams := i # sv_streams s\<rparr>) (hub_step (Connect i) (sv_hub s))
      else None)"
| "server_step OpenRequest s =
     (if listening s then Some (s\<lparr>sv_callers := sv_callers s @ [(RequestCaller, None)]\<rparr>) else None)"
| "server_step (CallCheck k entry) s =
     (if k < length (sv_callers s) \<and> snd (sv_callers s ! k) = None
      then Some (case enqueue_check entry (sv_writer s) of
          None \<Rightarrow> s
        | Some w \<Rightarrow> s\<lparr>sv_writer := w, sv_callers := (sv_callers s)[k := (fst (sv_callers s ! k), Some entry)]\<rparr>)
      else None)"
| "server_step (CallSend k) s =
     (if k < length (sv_callers s) then case snd (sv_callers s ! k) of
        None \<Rightarrow> None
      | Some entry \<Rightarrow> map_option
          (\<lambda>w. s\<lparr>sv_writer := w, sv_callers := (sv_callers s)[k := (fst (sv_callers s ! k), None)]\<rparr>)
          (writer_step (EnqueueSend entry) (sv_writer s))
      else None)"
| "server_step (CallEnd k) s =
     (if k < length (sv_callers s) \<and> snd (sv_callers s ! k) = None
      then Some (s\<lparr>sv_callers := take k (sv_callers s) @ drop (Suc k) (sv_callers s)\<rparr>) else None)"
| "server_step Expire s = (if sv_phase s = Up \<or> sv_expired s then None else Some (s\<lparr>sv_expired := True\<rparr>))"
| "server_step (ShutdownMove expired) s = shutdown_step expired s"

section \<open>Lemmas: the entries in flight\<close>

definition in_flight :: "(caller_kind \<times> log_entry option) list \<Rightarrow> log_entry multiset" where
  "in_flight callers = (\<Sum>c \<leftarrow> callers. case snd c of None \<Rightarrow> {#} | Some e \<Rightarrow> {#e#})"

lemma in_flight_simps [simp]:
  "in_flight [] = {#}" "in_flight (xs @ ys) = in_flight xs + in_flight ys"
  "in_flight (c # cs) = (case snd c of None \<Rightarrow> {#} | Some e \<Rightarrow> {#e#}) + in_flight cs"
  by (simp_all add: in_flight_def)

lemma in_flight_split:
  "k < length cs \<Longrightarrow> in_flight cs = in_flight (take k cs) + (case snd (cs ! k) of None \<Rightarrow> {#} | Some e \<Rightarrow> {#e#}) +
     in_flight (drop (Suc k) cs)"
  by (subst id_take_nth_drop [of k cs]) (simp_all add: add.assoc)

lemma in_flight_update:
  "k < length cs \<Longrightarrow> in_flight (cs[k := c]) = in_flight (take k cs) + (case snd c of None \<Rightarrow> {#} | Some e \<Rightarrow> {#e#}) +
     in_flight (drop (Suc k) cs)"
  by (simp add: upd_conv_take_nth_drop add.assoc)

lemma callers_update: "k < length cs \<Longrightarrow> fst ` set (cs[k := (fst (cs ! k), x)]) = fst ` set cs"
proof -
  assume "k < length cs"
  then have "map fst (cs[k := (fst (cs ! k), x)]) = map fst cs"
    by (simp add: map_update) (metis list_update_id nth_map)
  then show ?thesis
    by (metis set_map)
qed

lemma callers_end: "kind \<notin> fst ` set cs \<Longrightarrow> kind \<notin> fst ` set (take k cs @ drop (Suc k) cs)"
  by (auto dest!: in_set_takeD in_set_dropD)

lemma no_flight_without_callers: "no_caller RequestCaller s \<Longrightarrow> no_caller TailerCaller s \<Longrightarrow> in_flight (sv_callers s) = {#}"
proof -
  assume "no_caller RequestCaller s" "no_caller TailerCaller s"
  then have "kind \<notin> fst ` set (sv_callers s)" for kind
    by (cases kind) (simp_all add: no_caller_def)
  then have "sv_callers s = []"
    by (metis imageI list.set_intros(1) neq_Nil_conv)
  then show ?thesis
    by simp
qed

text \<open>The workers do not touch what \<open>Close\<close> and the callers use.\<close>

lemma worker_event_frame:
  assumes "worker_event db e" "writer_step e w = Some w'"
  shows "lw_flight w' = lw_flight w \<and> lw_closer w' = lw_closer w \<and> lw_raced w' = lw_raced w \<and>
    lw_accepted w' = lw_accepted w"
  using assms by (cases e) (auto simp: writer_ops split: if_splits option.splits)

section \<open>Lemmas: invariants\<close>

text \<open>The steps that \<open>Shutdown\<close> has before it.\<close>

fun phases_left :: "shutdown_pc \<Rightarrow> nat" where
  "phases_left Up = 9"
| "phases_left HubNext = 8"
| "phases_left HarvesterNext = 7"
| "phases_left HarvesterWait = 6"
| "phases_left HttpWait = 5"
| "phases_left WriterNext = 4"
| "phases_left WriterSignal = 3"
| "phases_left WriterWait = 2"
| "phases_left DbNext = 1"
| "phases_left Down = 0"

definition writer_part :: "server_state \<Rightarrow> bool" where
  "writer_part s \<longleftrightarrow> writer_inv (sv_writer s) \<and> mset (lw_flight (sv_writer s)) = in_flight (sv_callers s)"

definition callers_part :: "server_state \<Rightarrow> bool" where
  "callers_part s \<longleftrightarrow>
     (phases_left (sv_phase s) \<le> 5 \<longrightarrow> no_caller TailerCaller s) \<and>
     (phases_left (sv_phase s) \<le> 4 \<and> \<not> sv_expired s \<longrightarrow> no_caller RequestCaller s)"

definition closer_of :: "shutdown_pc \<Rightarrow> bool \<Rightarrow> closer_pc set" where
  "closer_of pc expired = (case pc of
     WriterSignal \<Rightarrow> {Marked} | WriterWait \<Rightarrow> {Waiting}
   | DbNext \<Rightarrow> (if expired then {Returned True, Returned False} else {Returned True})
   | Down \<Rightarrow> (if expired then {Returned True, Returned False} else {Returned True})
   | _ \<Rightarrow> {NotClosing})"

definition closer_part :: "server_state \<Rightarrow> bool" where
  "closer_part s \<longleftrightarrow> lw_closer (sv_writer s) \<in> closer_of (sv_phase s) (sv_expired s) \<and>
     (lw_closer (sv_writer s) \<noteq> NotClosing \<and> \<not> sv_expired s \<longrightarrow> lw_raced (sv_writer s) = []) \<and>
     (sv_db s \<longleftrightarrow> sv_phase s \<noteq> Down)"

lemma shutdown_stepE:
  assumes "shutdown_step expired s = Some s'"
  obtains (other) pc where "s' = s\<lparr>sv_phase := pc\<rparr>" "expired \<longrightarrow> sv_expired s"
      "(sv_phase s, pc) \<in> {(Up, HubNext), (HarvesterNext, HarvesterWait)}"
  | (hub) "sv_phase s = HubNext" "s' = s\<lparr>sv_phase := HarvesterNext, sv_hub := hub_Close (sv_hub s)\<rparr>"
  | (tailers) "sv_phase s = HarvesterWait" "no_caller TailerCaller s" "s' = s\<lparr>sv_phase := HttpWait\<rparr>"
  | (http) "sv_phase s = HttpWait" "sv_expired s \<or> connections_idle s" "s' = s\<lparr>sv_phase := WriterNext\<rparr>"
  | (close) pc e w where "writer_step e (sv_writer s) = Some w" "s' = s\<lparr>sv_phase := pc, sv_writer := w\<rparr>"
      "(sv_phase s, e, pc) \<in> {(WriterNext, CloseMark, WriterSignal), (WriterSignal, CloseDone, WriterWait),
        (WriterWait, CloseWait, DbNext)} \<or> (sv_phase s, e, pc) = (WriterWait, CloseTimeout, DbNext) \<and> sv_expired s"
  | (db) "sv_phase s = DbNext" "s' = s\<lparr>sv_phase := Down, sv_db := False\<rparr>"
proof (cases "sv_phase s \<in> {WriterNext, WriterSignal, WriterWait}")
  case True
  define e where "e = (if sv_phase s = WriterNext then CloseMark else if sv_phase s = WriterSignal then CloseDone
    else if expired then CloseTimeout else CloseWait)"
  define pc where "pc = (if sv_phase s = WriterNext then WriterSignal else if sv_phase s = WriterSignal then WriterWait else DbNext)"
  have "expired \<longrightarrow> sv_expired s"
    using assms by (simp add: shutdown_step_def split: if_splits)
  moreover obtain w where "writer_step e (sv_writer s) = Some w" "s' = s\<lparr>sv_phase := pc, sv_writer := w\<rparr>"
    using assms True by (auto simp: shutdown_step_def e_def pc_def split: if_splits)
  ultimately show ?thesis
    by (intro close [of e w pc]) (use True in \<open>auto simp: e_def pc_def\<close>)
next
  case False
  then show ?thesis
    using assms by (cases "sv_phase s") (auto simp: shutdown_step_def intro: other hub tailers http db split: if_splits)
qed

lemma writer_part_step:
  assumes "writer_part s" "server_step e s = Some s'"
  shows "writer_part s'"
proof -
  note inv = assms(1) [unfolded writer_part_def]
  show ?thesis
  proof (cases e)
    case (WriterMove e')
    then obtain w where "writer_step e' (sv_writer s) = Some w" "s' = s\<lparr>sv_writer := w\<rparr>" "worker_event (sv_db s) e'"
      using assms(2) by (auto split: if_splits)
    then show ?thesis
      using inv writer_inv_step [of "sv_writer s" e' w] worker_event_frame by (auto simp: writer_part_def)
  next
    case (CallCheck k entry)
    then have k: "k < length (sv_callers s)" "snd (sv_callers s ! k) = None"
      using assms(2) by (auto split: if_splits)
    show ?thesis
    proof (cases "enqueue_check entry (sv_writer s)")
      case None
      then show ?thesis
        using assms CallCheck by (auto split: if_splits)
    next
      case (Some w)
      then have w: "writer_step (EnqueueCheck entry) (sv_writer s) = Some w" "lw_flight w = entry # lw_flight (sv_writer s)"
        by (auto simp: enqueue_check_def split: if_splits)
      have "s' = s\<lparr>sv_writer := w, sv_callers := (sv_callers s)[k := (fst (sv_callers s ! k), Some entry)]\<rparr>"
        using assms(2) CallCheck k Some by simp
      then show ?thesis
        using inv k w writer_inv_step [of "sv_writer s" "EnqueueCheck entry" w]
        by (simp add: writer_part_def in_flight_update in_flight_split [OF k(1)])
    qed
  next
    case (CallSend k)
    then obtain entry w where k: "k < length (sv_callers s)" "snd (sv_callers s ! k) = Some entry"
      "writer_step (EnqueueSend entry) (sv_writer s) = Some w"
      "s' = s\<lparr>sv_writer := w, sv_callers := (sv_callers s)[k := (fst (sv_callers s ! k), None)]\<rparr>"
      using assms(2) by (auto split: if_splits option.splits)
    have "lw_flight w = remove1 entry (lw_flight (sv_writer s))"
      using k(3) by (auto simp: enqueue_send_def split: if_splits option.splits)
    then show ?thesis
      using inv k writer_inv_step [of "sv_writer s" "EnqueueSend entry" w]
      by (simp add: writer_part_def in_flight_update in_flight_split [OF k(1)])
  next
    case (CallEnd k)
    then show ?thesis
      using assms(2) inv in_flight_split [of k "sv_callers s"] by (auto simp: writer_part_def split: if_splits)
  next
    case (ShutdownMove expired)
    then have "shutdown_step expired s = Some s'"
      using assms(2) by simp
    then show ?thesis
    proof (cases rule: shutdown_stepE)
      case (close pc e' w)
      moreover have "lw_flight w = lw_flight (sv_writer s)"
        using close(1,3) by (auto simp: writer_ops split: if_splits)
      ultimately show ?thesis
        using inv writer_inv_step [of "sv_writer s" e' w] by (simp add: writer_part_def)
    qed (use inv in \<open>simp_all add: writer_part_def\<close>)
  qed (use assms in \<open>auto simp: writer_part_def split: if_splits\<close>)
qed

text \<open>The callers, as the phases go by.\<close>

lemma no_caller_frame [simp]:
  "no_caller kind (s\<lparr>sv_writer := w\<rparr>) = no_caller kind s" "no_caller kind (s\<lparr>sv_hub := h\<rparr>) = no_caller kind s"
  "no_caller kind (s\<lparr>sv_phase := pc\<rparr>) = no_caller kind s" "no_caller kind (s\<lparr>sv_expired := b\<rparr>) = no_caller kind s"
  "no_caller kind (s\<lparr>sv_db := b\<rparr>) = no_caller kind s" "no_caller kind (s\<lparr>sv_streams := is\<rparr>) = no_caller kind s"
  by (simp_all add: no_caller_def)

lemma no_caller_update [simp]:
  "k < length (sv_callers s) \<Longrightarrow>
   no_caller kind (s\<lparr>sv_writer := w, sv_callers := (sv_callers s)[k := (fst (sv_callers s ! k), x)]\<rparr>) = no_caller kind s"
  by (simp add: no_caller_def callers_update)

lemma no_caller_end [simp]:
  "no_caller kind s \<Longrightarrow> no_caller kind (s\<lparr>sv_callers := take k (sv_callers s) @ drop (Suc k) (sv_callers s)\<rparr>)"
  using callers_end [of kind "sv_callers s" k] by (simp add: no_caller_def)

lemma no_caller_open [simp]: "no_caller TailerCaller (s\<lparr>sv_callers := sv_callers s @ [(RequestCaller, x)]\<rparr>) = no_caller TailerCaller s"
  by (simp add: no_caller_def)

lemma callers_part_step:
  assumes "callers_part s" "server_step e s = Some s'"
  shows "callers_part s'"
proof (cases e)
  case (ShutdownMove expired)
  then have "shutdown_step expired s = Some s'"
    using assms(2) by simp
  then show ?thesis
    by (cases rule: shutdown_stepE) (use assms(1) in \<open>auto simp: callers_part_def connections_idle_def\<close>)
next
  case OpenRequest
  then show ?thesis
    using assms by (auto simp: callers_part_def listening_def split: if_splits)
next
  case (OpenStream i)
  then show ?thesis
    using assms by (auto simp: callers_part_def split: if_splits)
next
  case (CallCheck k entry)
  then show ?thesis
    using assms by (auto simp: callers_part_def split: if_splits option.splits)
next
  case (CallSend k)
  then show ?thesis
    using assms by (auto simp: callers_part_def split: if_splits option.splits)
next
  case (CallEnd k)
  then show ?thesis
    using assms by (auto simp: callers_part_def split: if_splits)
next
  case Expire
  then show ?thesis
    using assms by (auto simp: callers_part_def split: if_splits)
qed (use assms in \<open>auto simp: callers_part_def split: if_splits\<close>)

text \<open>The caller of \<open>Close\<close>: nothing is in flight when it sets the flag, unless the context has expired.\<close>

lemma closer_of_expired: "closer_of pc False \<subseteq> closer_of pc True"
  by (cases pc) (simp_all add: closer_of_def)

lemma closer_part_step:
  assumes "closer_part s" "writer_part s" "callers_part s" "server_step e s = Some s'"
  shows "closer_part s'"
proof (cases e)
  case (WriterMove e')
  then obtain w where "writer_step e' (sv_writer s) = Some w" "s' = s\<lparr>sv_writer := w\<rparr>" "worker_event (sv_db s) e'"
    using assms(4) by (auto split: if_splits)
  then show ?thesis
    using assms(1) worker_event_frame [of "sv_db s" e' "sv_writer s" w] by (simp add: closer_part_def)
next
  case (CallCheck k entry)
  then show ?thesis
    using assms(1,4) by (auto simp: closer_part_def enqueue_check_def split: if_splits)
next
  case (CallSend k)
  then show ?thesis
    using assms(1,4) by (auto simp: closer_part_def enqueue_send_def split: if_splits option.splits)
next
  case Expire
  then show ?thesis
    using assms(1,4) subsetD [OF closer_of_expired]
    by (cases "sv_expired s") (auto simp: closer_part_def split: if_splits)
next
  case (ShutdownMove expired)
  then have "shutdown_step expired s = Some s'"
    using assms(4) by simp
  then show ?thesis
  proof (cases rule: shutdown_stepE)
    case (close pc e' w)
    have idle: "lw_flight (sv_writer s) = []" if "\<not> sv_expired s"
    proof -
      have "no_caller RequestCaller s" "no_caller TailerCaller s"
        using assms(3) that close(3) by (auto simp: callers_part_def)
      then show ?thesis
        using no_flight_without_callers assms(2) by (simp add: writer_part_def)
    qed
    have "lw_closed (sv_writer s) \<longleftrightarrow> lw_closer (sv_writer s) \<noteq> NotClosing"
      using assms(2) by (simp add: writer_part_def writer_inv_def close_inv_def)
    then show ?thesis
      using close assms(1) idle
      by (auto simp: closer_part_def closer_of_def writer_ops split: if_splits)
  qed (use assms(1) in \<open>auto simp: closer_part_def closer_of_def\<close>)
qed (use assms(1,4) in \<open>auto simp: closer_part_def split: if_splits\<close>)

definition lifecycle_inv :: "server_state \<Rightarrow> bool" where
  "lifecycle_inv s \<longleftrightarrow> writer_part s \<and> callers_part s \<and> closer_part s"

interpretation server: invariant_system server_step lifecycle_inv
  by unfold_locales (auto simp: lifecycle_inv_def intro: writer_part_step callers_part_step closer_part_step)

text \<open>The start: the four entries are accepted.\<close>

lemma log_all_result:
  assumes "reachable writer_step (NewAsyncLogWriter cfg) w" "\<not> lw_closed w" "lw_flight w = []"
    "int (length (gc_buf (lw_ch w)) + length es) \<le> wc_BufferSize (normalize_config cfg)"
  shows "\<exists>w' h'. log_all marshal es (w, h) = Some (w', h') \<and> reachable writer_step (NewAsyncLogWriter cfg) w' \<and>
    \<not> lw_closed w' \<and> lw_flight w' = [] \<and> lw_accepted w' = lw_accepted w @ es"
  using assms
proof (induction es arbitrary: w h)
  case (Cons e es)
  let ?w = "w\<lparr>lw_ch := (lw_ch w)\<lparr>gc_buf := gc_buf (lw_ch w) @ [e]\<rparr>, lw_accepted := lw_accepted w @ [e]\<rparr>"
  have E: "Enqueue e w = Some (True, ?w)"
    using enqueue_total [OF Cons.prems(1), of e] Cons.prems(2,4) by simp
  then have "on_log marshal e (w, h) = Some (?w, BroadcastLog (marshal e) h)"
    by (simp add: on_log_def)
  then show ?case
    using Cons.IH [OF Enqueue_reachable [OF Cons.prems(1) E], of "BroadcastLog (marshal e) h"] Cons.prems by simp
qed simp

lemma start_server_ok:
  "\<exists>s. start_server cfg marshal now pid n = Some s \<and> lifecycle_inv s \<and>
     lw_accepted (sv_writer s) = startupLogs (server_defaults cfg) now pid"
proof -
  let ?wcfg = "server_writer_config (server_defaults cfg)"
  have "wc_BufferSize (normalize_config ?wcfg) = 5000"
    by (simp add: normalize_config_def server_writer_config_def DefaultAsyncLogWriterConfig_def)
  then obtain w h where w: "log_all marshal (startupLogs (server_defaults cfg) now pid) (NewAsyncLogWriter ?wcfg, NewSSEHub) =
      Some (w, h)" "reachable writer_step (NewAsyncLogWriter ?wcfg) w" "\<not> lw_closed w" "lw_flight w = []"
    "lw_accepted w = startupLogs (server_defaults cfg) now pid"
    using log_all_result [of ?wcfg "NewAsyncLogWriter ?wcfg" "startupLogs (server_defaults cfg) now pid" marshal NewSSEHub]
    by (auto simp: NewAsyncLogWriter_def Let_def startupLogs_def)
  have "writer_inv w"
    by (rule reachable_writer_inv [OF w(2)])
  moreover from this have "lw_closer w = NotClosing"
    using w(3) by (simp add: writer_inv_def close_inv_def)
  moreover have "in_flight (replicate n (TailerCaller, None)) = {#}"
    by (induction n) simp_all
  ultimately show ?thesis
    using w by (simp add: start_server_def Let_def lifecycle_inv_def writer_part_def callers_part_def closer_part_def
        closer_of_def)
qed

lemma lifecycle_reachable:
  assumes "start_server cfg marshal now pid n = Some s0" "reachable server_step s0 s"
  shows "lifecycle_inv s"
  using start_server_ok [of cfg marshal now pid n] server.reachable_inv [OF _ assms(2)] assms(1) by auto

section \<open>Lemmas: the shutdown ends\<close>

text \<open>The steps that are left: of the goroutine of \<open>Shutdown\<close>, of the callers that send their last entry
  and return, and the end of the context.\<close>

definition shutdown_left :: "server_state \<Rightarrow> nat" where
  "shutdown_left s = phases_left (sv_phase s) + 2 * length (sv_callers s) + size (in_flight (sv_callers s)) +
     (if sv_expired s then 0 else 1)"

fun finishing :: "server_event \<Rightarrow> bool" where
  "finishing (CallSend k) = True"
| "finishing (CallEnd k) = True"
| "finishing Expire = True"
| "finishing (ShutdownMove expired) = True"
| "finishing _ = False"

lemma finishing_decreases:
  assumes "finishing e" "server_step e s = Some s'"
  shows "shutdown_left s' < shutdown_left s"
proof (cases e)
  case (ShutdownMove expired)
  then have "shutdown_step expired s = Some s'"
    using assms(2) by simp
  then show ?thesis
    by (cases rule: shutdown_stepE) (auto simp: shutdown_left_def)
next
  case (CallSend k)
  then obtain entry w where k: "k < length (sv_callers s)" "snd (sv_callers s ! k) = Some entry"
    "s' = s\<lparr>sv_writer := w, sv_callers := (sv_callers s)[k := (fst (sv_callers s ! k), None)]\<rparr>"
    using assms(2) by (auto split: if_splits option.splits)
  then show ?thesis
    by (simp add: shutdown_left_def in_flight_update in_flight_split [OF k(1)])
next
  case (CallEnd k)
  then show ?thesis
    using assms(2) in_flight_split [of k "sv_callers s"] by (auto simp: shutdown_left_def split: if_splits)
next
  case Expire
  then show ?thesis
    using assms(2) by (auto simp: shutdown_left_def split: if_splits)
qed (use assms(1) in simp_all)

lemma caller_finishes:
  assumes "lifecycle_inv s" "\<not> no_caller kind s"
  shows "\<exists>e. finishing e \<and> server_step e s \<noteq> None"
proof -
  obtain k where k: "k < length (sv_callers s)"
    using assms(2) by (auto simp: no_caller_def in_set_conv_nth)
  show ?thesis
  proof (cases "snd (sv_callers s ! k)")
    case None
    then show ?thesis
      using k by (intro exI [of _ "CallEnd k"]) simp
  next
    case (Some entry)
    then have "entry \<in># mset (lw_flight (sv_writer s))"
      using assms(1) in_flight_split [OF k] by (simp add: lifecycle_inv_def writer_part_def)
    moreover have "\<not> gc_closed (lw_ch (sv_writer s))"
      using assms(1) by (simp add: lifecycle_inv_def writer_part_def writer_inv_def sizes_inv_def)
    ultimately have "writer_step (EnqueueSend entry) (sv_writer s) \<noteq> None"
      using chan_try_send_panics [of entry "lw_ch (sv_writer s)"]
      by (auto simp: enqueue_send_def split: option.splits)
    then show ?thesis
      using k Some by (intro exI [of _ "CallSend k"]) auto
  qed
qed

lemma finishing_enabled:
  assumes "lifecycle_inv s" "sv_phase s \<noteq> Down"
  shows "\<exists>e. finishing e \<and> server_step e s \<noteq> None"
proof -
  have expire: ?thesis if "sv_phase s \<noteq> Up" "\<not> sv_expired s"
    using that by (intro exI [of _ Expire]) simp
  have move: ?thesis if "shutdown_step expired s \<noteq> None" for expired
    using that by (intro exI [of _ "ShutdownMove expired"]) simp
  have closer: "lw_closer (sv_writer s) \<in> closer_of (sv_phase s) (sv_expired s)"
    using assms(1) by (simp add: lifecycle_inv_def closer_part_def)
  show ?thesis
  proof (cases "sv_phase s")
    case HarvesterWait
    then show ?thesis
      using move [of False] caller_finishes [OF assms(1), of TailerCaller]
      by (cases "no_caller TailerCaller s") (simp_all add: shutdown_step_def del: not_None_eq)
  next
    case HttpWait
    then show ?thesis
      using move [of True] expire by (cases "sv_expired s") (simp_all add: shutdown_step_def del: not_None_eq)
  next
    case WriterSignal
    then show ?thesis
      using move [of False] closer by (simp add: shutdown_step_def close_done_def closer_of_def del: not_None_eq)
  next
    case WriterWait
    then show ?thesis
      using move [of True] expire closer
      by (cases "sv_expired s") (simp_all add: shutdown_step_def close_timeout_def closer_of_def del: not_None_eq)
  next
    case WriterNext
    then show ?thesis
      using move [of False] by (simp add: shutdown_step_def close_mark_def del: not_None_eq)
  qed (use assms(2) move [of False] in \<open>simp_all add: shutdown_step_def del: not_None_eq\<close>)
qed

interpretation finishing: progress_system server_step lifecycle_inv finishing shutdown_left "\<lambda>s. sv_phase s = Down"
  by unfold_locales (simp_all add: finishing_decreases finishing_enabled del: not_None_eq)

section \<open>Lemmas: a stream holds up the shutdown\<close>

definition held_up :: "nat \<Rightarrow> server_state \<Rightarrow> bool" where
  "held_up i s \<longleftrightarrow> \<not> hb_running (sv_hub s) \<and> hb_handler (sv_hub s) i \<noteq> Gone \<and> i \<in> set (sv_streams s) \<and>
     (5 \<le> phases_left (sv_phase s) \<or> sv_expired s)"

lemma held_up_hub:
  "held_up i s \<Longrightarrow> hub_step e (sv_hub s) = Some h \<Longrightarrow> held_up i (s\<lparr>sv_hub := h\<rparr>)"
  using stranded_step [of "sv_hub s" e h i] by (auto simp: held_up_def)

lemma held_up_step:
  assumes "held_up i s" "server_step e s = Some s'"
  shows "held_up i s'"
proof (cases e)
  case (HubMove e')
  then show ?thesis
    using assms held_up_hub by (auto split: if_splits)
next
  case (OpenStream j)
  then obtain h where h: "hub_step (Connect j) (sv_hub s) = Some h" "s' = s\<lparr>sv_hub := h, sv_streams := j # sv_streams s\<rparr>"
    using assms(2) by (auto split: if_splits)
  then show ?thesis
    using held_up_hub [OF assms(1) h(1)] by (auto simp: held_up_def)
next
  case (ShutdownMove expired)
  then have "shutdown_step expired s = Some s'"
    using assms(2) by simp
  then show ?thesis
  proof (cases rule: shutdown_stepE)
    case hub
    have "hub_step HubClose (sv_hub s) = Some (hub_Close (sv_hub s))"
      by simp
    from held_up_hub [OF assms(1) this] show ?thesis
      using hub by (auto simp: held_up_def)
  next
    case http
    then show ?thesis
      using assms(1) by (auto simp: held_up_def connections_idle_def list_all_iff)
  qed (use assms(1) in \<open>auto simp: held_up_def\<close>)
qed (use assms in \<open>auto simp: held_up_def split: if_splits option.splits\<close>)

interpretation held: invariant_system server_step "held_up i" for i
  by unfold_locales (rule held_up_step)

text \<open>Nothing is committed any more once the database is closed.\<close>

lemma committed_snoc: "committed (calls @ [c]) = committed calls @ committed [c]"
  by (induction calls rule: committed.induct) simp_all

lemma flush_failed: "committed (lw_calls (flush False w)) = committed (lw_calls w)"
  by (simp add: flush_def committed_snoc)

lemma batch_entry_failed: "committed (lw_calls (batch_entry False e w)) = committed (lw_calls w)"
  by (simp add: batch_entry_def Let_def flush_failed)

lemma closed_db_writer:
  assumes "worker_event False e" "writer_step e w = Some w'"
  shows "committed (lw_calls w') = committed (lw_calls w)"
  using assms
  by (cases e) (auto simp: writer_ops flush_failed batch_entry_failed committed_snoc split: if_splits option.splits)

lemma closed_db_step:
  assumes "\<not> sv_db s" "server_step e s = Some s'"
  shows "\<not> sv_db s' \<and> committed (lw_calls (sv_writer s')) = committed (lw_calls (sv_writer s))"
proof (cases e)
  case (WriterMove e')
  then show ?thesis
    using assms closed_db_writer by (auto split: if_splits)
next
  case (CallCheck k entry)
  then show ?thesis
    using assms by (auto simp: enqueue_check_def split: if_splits)
next
  case (CallSend k)
  then show ?thesis
    using assms by (auto simp: enqueue_send_def split: if_splits option.splits)
next
  case (ShutdownMove expired)
  then have "shutdown_step expired s = Some s'"
    using assms(2) by simp
  then show ?thesis
  proof (cases rule: shutdown_stepE)
    case (close pc e' w)
    then show ?thesis
      using assms(1) by (auto simp: writer_ops split: if_splits)
  qed (use assms(1) in simp_all)
qed (use assms in \<open>auto split: if_splits\<close>)

interpretation closed_db: invariant_system server_step
  "\<lambda>s. \<not> sv_db s \<and> committed (lw_calls (sv_writer s)) = entries" for entries
  by unfold_locales (use closed_db_step in blast)

text \<open>What is committed when the database is closed in time.\<close>

lemma lifecycle_flushed:
  assumes "lifecycle_inv s" "\<not> sv_db s" "\<not> sv_expired s"
  shows "lw_worker (sv_writer s) = Stopped \<and> handed (sv_writer s) = lw_accepted (sv_writer s) \<and>
    ((\<forall>b. WriteCall b False \<notin> set (lw_calls (sv_writer s))) \<longrightarrow>
      committed (lw_calls (sv_writer s)) = lw_accepted (sv_writer s))"
proof -
  have inv: "writer_inv (sv_writer s)" "closer_part s"
    using assms(1) by (simp_all add: lifecycle_inv_def writer_part_def)
  then have "lw_closer (sv_writer s) = Returned True" "lw_raced (sv_writer s) = []"
    using assms(2,3) by (auto simp: closer_part_def closer_of_def)
  then show ?thesis
    using inv(1) committed_handed [of "lw_calls (sv_writer s)"]
    by (auto simp: writer_inv_def close_inv_def flow_inv_def race_inv_def handed_def)
qed

section \<open>Properties\<close>


text \<open>C13. The shutdown ends: from every state of the running server, any run of the steps of \<open>Shutdown\<close>,
  of the callers that finish, and of the end of the context has at most \<open>shutdown_left\<close> steps (nine of
  \<open>Shutdown\<close>, at most three for each caller, one for the context), and it can be continued until
  \<open>Shutdown\<close> has returned, also when handlers are stuck.\<close>

theorem shutdown_terminates:
  assumes "start_server cfg marshal now pid n = Some s0" "reachable server_step s0 s"
  shows "(\<forall>es s'. (\<forall>e \<in> set es. finishing e) \<and> run server_step es s = Some s' \<longrightarrow> length es \<le> shutdown_left s) \<and>
    (\<exists>es s'. (\<forall>e \<in> set es. finishing e) \<and> run server_step es s = Some s' \<and> sv_phase s' = Down)"
  using finishing.progress_bounded [OF lifecycle_reachable [OF assms]]
    finishing.goal_reached [OF lifecycle_reachable [OF assms]] by fastforce

text \<open>C16. A connected browser spoils the shutdown: if a stream handler has not returned when the hub has
  stopped, \<open>Shutdown\<close> gets past the HTTP server only after its context has expired; the \<open>Close\<close> of the
  log writer then need not wait, since its context has expired too, and the database can be closed
  at once: what was accepted and is not committed by then is lost, whatever the workers still do.\<close>

theorem stream_spoils_shutdown:
  assumes "held_up i s" "reachable server_step s s'"
  shows "(sv_phase s' \<in> {WriterNext, WriterSignal, WriterWait, DbNext, Down} \<longrightarrow> sv_expired s') \<and>
    (sv_phase s' = WriterWait \<and> lw_closer (sv_writer s') = Waiting \<longrightarrow>
      (\<exists>s''. run server_step [ShutdownMove True, ShutdownMove False] s' = Some s'' \<and> \<not> sv_db s'' \<and>
        (\<forall>s3. reachable server_step s'' s3 \<longrightarrow>
          committed (lw_calls (sv_writer s3)) = committed (lw_calls (sv_writer s')))))"
proof (intro conjI impI)
  have held: "held_up i s'"
    by (rule held.reachable_inv [OF assms])
  then show "sv_expired s'" if "sv_phase s' \<in> {WriterNext, WriterSignal, WriterWait, DbNext, Down}"
    using that by (auto simp: held_up_def)
  assume wait: "sv_phase s' = WriterWait \<and> lw_closer (sv_writer s') = Waiting"
  let ?s = "s'\<lparr>sv_phase := Down, sv_writer := (sv_writer s')\<lparr>lw_closer := Returned False\<rparr>, sv_db := False\<rparr>"
  have "run server_step [ShutdownMove True, ShutdownMove False] s' = Some ?s"
    using held wait by (simp add: held_up_def shutdown_step_def close_timeout_def)
  moreover have "committed (lw_calls (sv_writer s3)) = committed (lw_calls (sv_writer s'))" if "reachable server_step ?s s3" for s3
    using closed_db.reachable_inv [OF _ that, of "committed (lw_calls (sv_writer s'))"] by simp
  ultimately show "\<exists>s''. run server_step [ShutdownMove True, ShutdownMove False] s' = Some s'' \<and> \<not> sv_db s'' \<and>
      (\<forall>s3. reachable server_step s'' s3 \<longrightarrow> committed (lw_calls (sv_writer s3)) = committed (lw_calls (sv_writer s')))"
    by (intro exI [of _ ?s]) simp
qed

section \<open>Witnesses\<close>

definition sample_server :: "server_event list \<Rightarrow> server_state" where
  "sample_server es = the (run server_step es (the (start_server DefaultConfig (\<lambda>e. None) 0 42 0)))"

definition graceful :: "server_event list" where
  "graceful = replicate 7 (ShutdownMove False) @ WriterMove WorkerDone # replicate 5 (WriterMove (WorkerDrain True)) @
     [WriterMove PruneDone, ShutdownMove False, ShutdownMove False]"

text \<open>A browser is connected, and the context expires.\<close>

definition streaming :: "server_event list" where
  "streaming = [OpenStream 0, HubMove (Register 0 None), ShutdownMove False, ShutdownMove False, HubMove HubStop]"

definition hasty :: "server_event list" where
  "hasty = [ShutdownMove False, ShutdownMove False, Expire, ShutdownMove True, ShutdownMove False, ShutdownMove False]"

lemma sample_server_start: "start_server DefaultConfig (\<lambda>e. None) 0 42 0 = Some (sample_server [])"
  using start_server_ok [of DefaultConfig "\<lambda>e. None" 0 42 0] by (auto simp: sample_server_def)

lemma sample_server_run: "run server_step es (sample_server []) \<noteq> None \<Longrightarrow>
  reachable server_step (sample_server []) (sample_server es)"
  by (auto intro: reachableI simp: sample_server_def)

lemma sample_graceful:
  "case run server_step graceful (sample_server []) of None \<Rightarrow> False | Some s \<Rightarrow>
     \<not> sv_db s \<and> \<not> sv_expired s \<and>
     map le_Service (lw_accepted (sv_writer s)) = [''sugi-core'', ''storage'', ''collector'', ''http-server'']"
  by code_simp


lemma sample_streaming:
  "case run server_step streaming (sample_server []) of None \<Rightarrow> False | Some s \<Rightarrow>
     hb_handler (sv_hub s) 0 = Serving \<and> sv_streams s = [0] \<and> \<not> hb_running (sv_hub s) \<and> sv_phase s = HarvesterNext \<and>
     (case run server_step hasty s of None \<Rightarrow> False | Some s' \<Rightarrow>
        sv_phase s' = WriterWait \<and> lw_closer (sv_writer s') = Waiting \<and> lw_calls (sv_writer s') = [] \<and>
        length (lw_accepted (sv_writer s')) = 4)"
  by code_simp

lemma sample_streaming_states:
  obtains s s' where "run server_step streaming (sample_server []) = Some s" "held_up 0 s"
    "run server_step hasty s = Some s'" "sv_phase s' = WriterWait \<and> lw_closer (sv_writer s') = Waiting"
    "lw_calls (sv_writer s') = []" "length (lw_accepted (sv_writer s')) = 4"
  using sample_streaming by (auto simp: held_up_def split: option.splits)

theorem shutdown_terminates_witness:
  "\<exists>s es s'. run server_step streaming (sample_server []) = Some s \<and> run server_step es s = Some s' \<and> sv_phase s' = Down"
proof -
  obtain s where s: "run server_step streaming (sample_server []) = Some s"
    by (rule sample_streaming_states)
  with shutdown_terminates [OF sample_server_start reachableI [OF s]] show ?thesis
    by (elim conjE exE) (intro exI conjI)
qed

theorem stream_spoils_shutdown_witness:
  "\<exists>s s''. length (lw_accepted (sv_writer s)) = 4 \<and>
     run server_step [ShutdownMove True, ShutdownMove False] s = Some s'' \<and>
     (\<forall>s3. reachable server_step s'' s3 \<longrightarrow> committed (lw_calls (sv_writer s3)) = [])"
proof -
  obtain s s' where s: "held_up 0 s" "run server_step hasty s = Some s'"
    "sv_phase s' = WriterWait \<and> lw_closer (sv_writer s') = Waiting" "lw_calls (sv_writer s') = []"
    "length (lw_accepted (sv_writer s')) = 4"
    by (rule sample_streaming_states)
  have none: "committed (lw_calls (sv_writer s')) = []"
    by (simp add: s(4))
  have "\<exists>s''. run server_step [ShutdownMove True, ShutdownMove False] s' = Some s'' \<and> \<not> sv_db s'' \<and>
      (\<forall>s3. reachable server_step s'' s3 \<longrightarrow>
        committed (lw_calls (sv_writer s3)) = committed (lw_calls (sv_writer s')))"
    by (rule mp [OF conjunct2 [OF stream_spoils_shutdown [OF s(1) reachableI [OF s(2)]]] s(3)])
  then show ?thesis
    using s(5) unfolding none by (elim exE conjE) (intro exI conjI)
qed

end
