(* ===== verification/New_Server.thy ===== *)
theory New_Server
  imports Http_Router Server_Lifecycle Sqlite_Open Log_Harvester
begin

text \<open>
  How the server is put together, \<open>NewServer\<close> of \<open>internal/server/server.go\<close>: the database, the writer, the
  collectors with their baseline, the hub, the handlers and the harvester, each from its own theory.
\<close>

section \<open>Construction\<close>

definition server_harvester_config :: "server_config \<Rightarrow> harvester_config" where
  "server_harvester_config cfg = \<lparr>hv_AutoSyslog = sc_AutoSyslog cfg, hv_WatchPaths = watch_paths (sc_WatchLogs cfg),
     hv_TailLines = 50, hv_PollInterval = 1 * Second, hv_MaxRate = 500\<rparr>"

text \<open>The ring buffer and the hub are shared: the sampling loop writes to them (\<open>sg_sampler\<close> holds them),
  the handlers read them.\<close>

record sugi_server =
  sg_cfg :: server_config
  sg_sqlite :: sql_pool
  sg_logWriter :: log_writer
  sg_sampler :: sampler
  sg_harvester :: harvester
  sg_startTime :: go_time
  sg_Addr :: string
  sg_ReadTimeout :: go_duration
  sg_WriteTimeout :: go_duration
  sg_IdleTimeout :: go_duration

text \<open>What \<open>NewServer\<close> meets: the outcome of opening the database and of the statements that set it up,
  what the baseline of the collectors reads, and the clock.\<close>

record start_env =
  se_opened :: bool
  se_statement :: "string \<Rightarrow> bool"
  se_baseline :: tick_input
  se_now :: go_time

text \<open>\<open>None\<close> is a panic.\<close>

definition NewServer :: "start_env \<Rightarrow> server_config \<Rightarrow> (open_error + sugi_server) option" where
  "NewServer env cfg =
     (let cfg = server_defaults cfg
      in case NewSQLiteStorage (se_opened env) (se_statement env) (sc_DBPath cfg) of
           Inl err \<Rightarrow> Some (Inl err)
         | Inr (path, pool) \<Rightarrow> do {
             sampler \<leftarrow> new_sampler (se_baseline env);
             Some (Inr \<lparr>sg_cfg = cfg, sg_sqlite = pool, sg_logWriter = NewAsyncLogWriter (server_writer_config cfg),
               sg_sampler = sampler,
               sg_harvester = \<lparr>hs_cfg = NewLogHarvester (server_harvester_config cfg), hs_active = [], hs_stopped = False\<rparr>,
               sg_startTime = se_now env, sg_Addr = '':'' @ show_int (sc_Port cfg), sg_ReadTimeout = 10 * Second,
               sg_WriteTimeout = 10 * Second, sg_IdleTimeout = 60 * Second\<rparr>)
           })"

definition server_handlers :: "sugi_server \<Rightarrow> api_handler" where
  "server_handlers s = NewAPIHandler (Some (sp_ring (sg_sampler s))) (Some (sg_logWriter s)) (Some (sp_hub (sg_sampler s)))
     (sc_Version (sg_cfg s)) (sg_startTime s)"

section \<open>Start\<close>

text \<open>What \<open>Start\<close> does before it listens, and whether the loop of backups is started; \<open>readable\<close> and \<open>ord\<close>
  are for the harvester.\<close>

definition server_Start :: "(log_entry \<Rightarrow> string option) \<Rightarrow> go_time \<Rightarrow> int \<Rightarrow> (string \<Rightarrow> bool) \<Rightarrow> string list \<Rightarrow>
    sugi_server \<Rightarrow> (sugi_server \<times> bool) option" where
  "server_Start marshal now pid readable ord s = do {
     (logWriter, hub) \<leftarrow> log_all marshal (startupLogs (sg_cfg s) now pid) (sg_logWriter s, sp_hub (sg_sampler s));
     Some (s\<lparr>sg_logWriter := logWriter, sg_sampler := (sg_sampler s)\<lparr>sp_hub := hub\<rparr>,
        sg_harvester := harvester_Start readable ord (sg_harvester s)\<rparr>, 0 < sc_BackupInterval (sg_cfg s))
   }"

text \<open>What \<open>Start\<close> returns when listening has ended.\<close>

datatype listen_error = ErrServerClosed | ListenFailed string

definition start_result :: "listen_error option \<Rightarrow> string option" where
  "start_result err = (case err of
     Some (ListenFailed e) \<Rightarrow> Some (''http server: '' @ e)
   | _ \<Rightarrow> None)"

section \<open>Lemmas\<close>

text \<open>The limits that the server sets are those of the harvester.\<close>

lemma server_harvester:
  "NewLogHarvester (server_harvester_config cfg) = server_harvester_config cfg"
  by (simp add: NewLogHarvester_def server_harvester_config_def Second_def)

text \<open>\<open>NewServer\<close> does not panic; it fails only if the database cannot be opened or set up.  The server it
  returns has an empty ring buffer for an hour of snapshots, no client, and an empty writer; its
  handlers are ready for any request; every pragma was executed.\<close>

lemma NewServer_total:
  assumes "tick_ok (se_baseline env)"
  obtains (failed) err where "NewServer env cfg = Some (Inl err)"
    "\<not> (se_opened env \<and> (\<forall>stmt. se_statement env stmt))"
  | (ready) s path where "NewServer env cfg = Some (Inr s)" "sg_cfg s = server_defaults cfg" "api_ok (server_handlers s)"
    "rb_contents (sp_ring (sg_sampler s)) = []" "rb_capacity (sp_ring (sg_sampler s)) = 3600"
    "ah_sseHub (server_handlers s) = NewSSEHub" "lw_accepted (sg_logWriter s) = []"
    "sg_logWriter s = NewAsyncLogWriter (server_writer_config (server_defaults cfg))"
    "hs_cfg (sg_harvester s) = server_harvester_config (server_defaults cfg)" "ActiveFiles (sg_harvester s) = []"
    "NewSQLiteStorage (se_opened env) (se_statement env) (sc_DBPath (server_defaults cfg)) = Inr (path, sg_sqlite s)"
proof (cases "NewSQLiteStorage (se_opened env) (se_statement env) (sc_DBPath (server_defaults cfg))")
  case (Inl err)
  have "\<not> (se_opened env \<and> (\<forall>stmt. se_statement env stmt))"
  proof
    assume "se_opened env \<and> (\<forall>stmt. se_statement env stmt)"
    with settings_on_one_connection [of "se_statement env" "sc_DBPath (server_defaults cfg)"] Inl show False
      by (elim conjE exE) simp
  qed
  then show ?thesis
    using Inl by (intro failed [of err]) (simp add: NewServer_def Let_def)
next
  case (Inr opened)
  obtain sampler where sampler: "new_sampler (se_baseline env) = Some sampler" "rb_inv (sp_ring sampler)"
    "rb_capacity (sp_ring sampler) = 3600" "rb_contents (sp_ring sampler) = []" "sp_hub sampler = NewSSEHub"
    by (rule new_sampler_result [OF assms])
  let ?writer = "NewAsyncLogWriter (server_writer_config (server_defaults cfg))"
  have "\<exists>wcfg. reachable writer_step (NewAsyncLogWriter wcfg) ?writer"
    by (rule exI) (rule reachable_refl)
  then show ?thesis
    using Inr sampler
    by (cases opened) (auto simp: NewServer_def Let_def server_handlers_def NewAPIHandler_def api_ok_def
        NewAsyncLogWriter_def server_harvester ActiveFiles_def intro!: ready)
qed

text \<open>\<open>Start\<close> on a new server does not panic: its four entries are accepted, and the state of
  \<open>Server_Lifecycle\<close> begins with the same writer and hub.\<close>

lemma server_Start_lifecycle:
  assumes "sg_cfg s = server_defaults cfg" "sp_hub (sg_sampler s) = NewSSEHub"
    and "sg_logWriter s = NewAsyncLogWriter (server_writer_config (server_defaults cfg))"
  obtains s' sv where "server_Start marshal now pid readable ord s = Some (s', 0 < sc_BackupInterval cfg)"
    "lw_accepted (sg_logWriter s') = startupLogs (server_defaults cfg) now pid"
    "sg_harvester s' = harvester_Start readable ord (sg_harvester s)"
    "start_server cfg marshal now pid tailers = Some sv" "sv_writer sv = sg_logWriter s'"
    "sv_hub sv = sp_hub (sg_sampler s')"
proof -
  obtain sv where sv: "start_server cfg marshal now pid tailers = Some sv"
    "lw_accepted (sv_writer sv) = startupLogs (server_defaults cfg) now pid"
    using start_server_ok by blast
  then obtain w h where w: "log_all marshal (startupLogs (server_defaults cfg) now pid) (sg_logWriter s, NewSSEHub) = Some (w, h)"
    "sv_writer sv = w" "sv_hub sv = h"
    by (auto simp: start_server_def Let_def assms(3) split: bind_splits)
  let ?s = "s\<lparr>sg_logWriter := w, sg_sampler := (sg_sampler s)\<lparr>sp_hub := h\<rparr>,
    sg_harvester := harvester_Start readable ord (sg_harvester s)\<rparr>"
  have "server_Start marshal now pid readable ord s = Some (?s, 0 < sc_BackupInterval (server_defaults cfg))"
    unfolding server_Start_def assms(1,2) w(1) by simp
  moreover have "sc_BackupInterval (server_defaults cfg) = sc_BackupInterval cfg"
    by (simp add: server_defaults_def)
  ultimately show ?thesis
    using sv(2) w(2,3) by (intro that [OF _ _ _ sv(1), of ?s]) simp_all
qed

end
