(* ===== verification/Proc_FS.thy ===== *)
theory Proc_FS
  imports Go_Path Server
begin

text \<open>
  The files under \<open>/proc\<close>, \<open>internal/collector/reader.go\<close>: where each collector reads, and what one tick of
  the sampling loop therefore reads from the host.
\<close>

definition NewDefaultProcFS :: "string list \<Rightarrow> string" where
  "NewDefaultProcFS baseDir = (case baseDir of
     [] \<Rightarrow> ''/proc''
   | dir # dirs \<Rightarrow> if dir \<noteq> [] then dir else ''/proc'')"

text \<open>\<open>host\<close> is what \<open>os.Open\<close> gives for a path, with what reading the file then gives.\<close>

definition proc_Open :: "(string \<Rightarrow> proc_file) \<Rightarrow> string \<Rightarrow> string \<Rightarrow> proc_file" where
  "proc_Open host BaseDir name = host (filepath_Join BaseDir name)"

text \<open>A file system of \<open>/proc\<close> gives for a name what opening it gives; a collector created without one reads
  the host's.\<close>

type_synonym proc_fs = "string \<Rightarrow> proc_file"

definition NewMemCollector :: "(string \<Rightarrow> proc_file) \<Rightarrow> proc_fs option \<Rightarrow> proc_fs" where
  "NewMemCollector host fs = (case fs of None \<Rightarrow> proc_Open host (NewDefaultProcFS []) | Some fs \<Rightarrow> fs)"

definition mem_Collect_from :: "proc_fs \<Rightarrow> go_time \<Rightarrow> mem_stats \<times> collect_error option" where
  "mem_Collect_from fs now = mem_Collect (fs ''meminfo'') now"

text \<open>What a tick reads: the host may change between the readings, and the clock is read after each file.\<close>

record host_moment =
  hm_host :: "string \<Rightarrow> proc_file"
  hm_now :: go_time
  hm_order :: "string list"

definition read_tick :: "string \<Rightarrow> host_moment \<Rightarrow> host_moment \<Rightarrow> host_moment \<Rightarrow> host_moment \<Rightarrow> go_time \<Rightarrow> tick_input" where
  "read_tick base cpu mem disk net now = \<lparr>
     ti_stat = proc_Open (hm_host cpu) base ''stat'',
     ti_meminfo = proc_Open (hm_host mem) base ''meminfo'',
     ti_diskstats = proc_Open (hm_host disk) base ''diskstats'',
     ti_netdev = proc_Open (hm_host net) base ''net/dev'',
     ti_cpu_env = (hm_now cpu, hm_order cpu), ti_mem_now = hm_now mem, ti_disk_env = (hm_now disk, hm_order disk),
     ti_net_env = (hm_now net, hm_order net), ti_now = now\<rparr>"

lemma proc_paths:
  "filepath_Join ''/proc'' ''stat'' = ''/proc/stat''" "filepath_Join ''/proc'' ''meminfo'' = ''/proc/meminfo''"
  "filepath_Join ''/proc'' ''diskstats'' = ''/proc/diskstats''" "filepath_Join ''/proc'' ''net/dev'' = ''/proc/net/dev''"
  by code_simp+

text \<open>The server reads the files of the kernel.\<close>

lemma host_files:
  "proc_Open host (NewDefaultProcFS []) ''stat'' = host ''/proc/stat''"
  "proc_Open host (NewDefaultProcFS []) ''meminfo'' = host ''/proc/meminfo''"
  "proc_Open host (NewDefaultProcFS []) ''diskstats'' = host ''/proc/diskstats''"
  "proc_Open host (NewDefaultProcFS []) ''net/dev'' = host ''/proc/net/dev''"
  by (simp_all add: proc_Open_def NewDefaultProcFS_def proc_paths)

lemma mem_Collect_host:
  "mem_Collect_from (NewMemCollector host None) now = mem_Collect (host ''/proc/meminfo'') now"
  "mem_Collect_from (NewMemCollector host (Some fs)) now = mem_Collect (fs ''meminfo'') now"
  by (simp_all add: mem_Collect_from_def NewMemCollector_def proc_Open_def NewDefaultProcFS_def proc_paths)

text \<open>A base directory for tests is used instead, unless it is empty.\<close>

lemma base_directory:
  "dir \<noteq> [] \<Longrightarrow> NewDefaultProcFS (dir # dirs) = dir"
  "NewDefaultProcFS ([] # dirs) = ''/proc''"
  by (simp_all add: NewDefaultProcFS_def)

end
