(* ===== verification/Snapshot_Types.thy ===== *)
theory Snapshot_Types
  imports Server
begin

text \<open>
  What readers of a snapshot rely on (the API, the stream, the user interface): percentages are
  percentages, memory adds up, rates are not negative, lists are sorted and name everything once.
  Every snapshot that the sampling loop stores is of this type.
\<close>

section \<open>Well-formed snapshots\<close>

definition percentage :: "f64 \<Rightarrow> bool" where
  "percentage x \<longleftrightarrow> 0 \<le> x \<and> x \<le> 100"

definition core_ok :: "core_usage \<Rightarrow> bool" where
  "core_ok u \<longleftrightarrow> percentage (cu_TotalUsage u) \<and> percentage (cu_UserUsage u) \<and> percentage (cu_SystemUsage u) \<and>
     percentage (cu_IOWaitUsage u) \<and> percentage (cu_StealUsage u)"

definition cpu_ok :: "cpu_stats \<Rightarrow> bool" where
  "cpu_ok s \<longleftrightarrow> percentage (cs_TotalUsage s) \<and> percentage (cs_UserUsage s) \<and> percentage (cs_SystemUsage s) \<and>
     percentage (cs_IOWaitUsage s) \<and> list_all core_ok (cs_Cores s) \<and>
     sorted (map (\<lambda>u. the (coreIndex (cu_ID u))) (cs_Cores s)) \<and> distinct (map cu_ID (cs_Cores s))"

definition mem_ok :: "mem_stats \<Rightarrow> bool" where
  "mem_ok s \<longleftrightarrow> ms_TotalBytes s \<noteq> 0 \<and> mem_balanced s \<and> swap_balanced s \<and>
     percentage (ms_UsedPercent s) \<and> (ms_SwapTotalBytes s \<noteq> 0 \<longrightarrow> percentage (ms_SwapUsedPercent s))"

definition device_ok :: "disk_device_stats \<Rightarrow> bool" where
  "device_ok d \<longleftrightarrow> 0 \<le> dd_ReadBytesPerSec d \<and> 0 \<le> dd_WriteBytesPerSec d \<and> 0 \<le> dd_ReadIOPS d \<and> 0 \<le> dd_WriteIOPS d"

definition disk_ok :: "disk_stats \<Rightarrow> bool" where
  "disk_ok s \<longleftrightarrow> 0 \<le> ds_TotalReadBytesPerSec s \<and> 0 \<le> ds_TotalWriteBytesPerSec s \<and> 0 \<le> ds_TotalReadIOPS s \<and>
     0 \<le> ds_TotalWriteIOPS s \<and> list_all device_ok (ds_Devices s) \<and> sorted_wrt (<) (map dd_Device (ds_Devices s))"

definition interface_ok :: "net_interface_stats \<Rightarrow> bool" where
  "interface_ok n \<longleftrightarrow> 0 \<le> ni_RxBytesPerSec n \<and> 0 \<le> ni_TxBytesPerSec n \<and> 0 \<le> ni_RxPacketsPerSec n \<and>
     0 \<le> ni_TxPacketsPerSec n"

definition net_ok :: "net_stats \<Rightarrow> bool" where
  "net_ok s \<longleftrightarrow> 0 \<le> ns_TotalRxBytesPerSec s \<and> 0 \<le> ns_TotalTxBytesPerSec s \<and>
     list_all interface_ok (ns_Interfaces s) \<and> sorted_wrt (<) (map ni_Name (ns_Interfaces s))"

definition snapshot_ok :: "system_snapshot \<Rightarrow> bool" where
  "snapshot_ok s \<longleftrightarrow> cpu_ok (ss_CPU s) \<and> mem_ok (ss_Memory s) \<and> disk_ok (ss_Disk s) \<and> net_ok (ss_Network s)"

section \<open>Lemmas: CPU\<close>

lemma percentage_0 [simp]: "percentage 0"
  by (simp add: percentage_def)

lemma percentage_clamp [simp]: "percentage (clampPercentage x)" "percentage (counter_usage p c d)"
  by (simp_all add: percentage_def clampPercentage_bounds counter_usage_bounds)

lemma core_ok_zero [simp]: "core_ok zero_usage" "core_ok (zero_usage\<lparr>cu_ID := i\<rparr>)"
  by (simp_all add: core_ok_def zero_usage_def)

lemma core_ok_delta [simp]: "core_ok (calculateDelta prev cur)"
proof (cases "CPU_Total cur \<le> CPU_Total prev")
  case True
  then show ?thesis
    by (simp add: calculateDelta_def Let_def)
qed (simp add: calculateDelta_def Let_def core_ok_def)

lemma core_entries_ok: "list_all core_ok (core_entries prev cur ids)"
  by (induction ids) (simp_all split: option.split)

lemma sorted_cores_sorted:
  assumes "range_order ord m"
  shows "sorted (map (\<lambda>i. the (coreIndex i)) (filter P (sorted_cores ord)))" "distinct (filter P (sorted_cores ord))"
  using assms by (simp_all add: sorted_filter_key sorted_cores_def range_order_def)

lemma stat_of_map: "stat_of i = Inr m \<Longrightarrow> ticks_map (snd m)"
  by (auto simp: parse_file_def ParseProcStat_ticks_map split: option.splits sum.splits)

lemma cpu_baseline_ok:
  assumes "range_order (snd env) m"
  shows "cpu_ok (cpu_baseline env s)"
  using sorted_cores_sorted [OF assms, of "\<lambda>_. True"]
  by (simp add: cpu_ok_def cpu_baseline_def zero_cpu_stats_def list_all_iff comp_def core_ok_def zero_usage_def)

lemma cpu_delta_ok:
  assumes "ticks_map (snd s)" "range_order (snd env) (snd s)"
  shows "cpu_ok (cpu_delta env p s)"
proof -
  have "set (sorted_cores (snd env)) \<subseteq> fst ` set (snd s)"
    using assms(2) by (auto simp: sorted_cores_def range_order_def)
  from core_entries_eq [OF assms(1) this] have ids: "map cu_ID (cs_Cores (cpu_delta env p s)) =
      filter (\<lambda>i. map_of (snd p) i \<noteq> None) (sorted_cores (snd env))"
    by (simp add: cpu_delta_def)
  have "map (\<lambda>u. the (coreIndex (cu_ID u))) (cs_Cores (cpu_delta env p s)) =
      map (\<lambda>i. the (coreIndex i)) (map cu_ID (cs_Cores (cpu_delta env p s)))"
    by simp
  then have "sorted (map (\<lambda>u. the (coreIndex (cu_ID u))) (cs_Cores (cpu_delta env p s)))"
    using sorted_cores_sorted(1) [OF assms(2)] by (simp only: ids)
  moreover have "core_ok (calculateDelta a b)" for a b
    by simp
  ultimately show ?thesis
    using sorted_cores_sorted(2) [OF assms(2)] core_entries_ok
    by (simp add: cpu_ok_def ids del: core_ok_delta)
      (auto simp: cpu_delta_def aggregate_usage_def Let_def core_ok_def split: option.split)
qed

lemma cpu_against_ok:
  assumes "stat_of i = Inr m" "fits m (ti_cpu_env i)"
  shows "cpu_ok (against cpu_baseline cpu_delta (ti_cpu_env i) prior m)"
  using cpu_baseline_ok [of "ti_cpu_env i" "snd m"] cpu_delta_ok [OF stat_of_map [OF assms(1)]] assms(2)
  by (simp add: against_def fits_def split: option.split)

section \<open>Lemmas: memory, disks, interfaces\<close>

lemma mem_Collect_ok: "mem_Collect file now = (s, None) \<Longrightarrow> mem_ok s"
  using bytes_accounting [of now _ s] percent_accurate [of now _ s]
  by (auto simp: mem_Collect_def mem_ok_def percentage_def word_neq_0_conv split: option.splits)

lemma sorted_order: "range_order ord m \<Longrightarrow> sorted_wrt (<) (sort ord)"
  by (simp add: range_order_def strict_sorted_iff)

lemma disk_zero_ok [simp]: "disk_ok zero_disk_stats"
  by (simp add: disk_ok_def zero_disk_stats_def)

lemma disk_against_ok:
  assumes "range_order (snd env) (snd m)"
  shows "disk_ok (against disk_baseline disk_delta env prior m)"
proof -
  have counters: "device_ok (disk_counters n c)" for n c
    by (simp add: device_ok_def disk_counters_def)
  have "disk_ok (disk_baseline env m)"
    using sorted_order [OF assms] counters
    by (simp add: disk_ok_def disk_baseline_def zero_disk_stats_def list_all_iff comp_def)
  moreover have "disk_ok (disk_delta env p m)" for p
    using sorted_order [OF assms] disk_totals_nonneg disk_device_nonneg [OF elapsed_seconds_pos]
    by (simp add: disk_ok_def disk_delta_def CalculateDiskStats_Devices list_all_iff comp_def device_ok_def)
  ultimately show ?thesis
    by (simp add: against_def split: option.split)
qed

lemma net_zero_ok [simp]: "net_ok zero_net_stats"
  by (simp add: net_ok_def zero_net_stats_def)

lemma net_against_ok:
  assumes "range_order (snd env) (snd m)"
  shows "net_ok (against net_baseline net_delta env prior m)"
proof -
  have counters: "interface_ok (net_counters n c)" for n c
    by (simp add: interface_ok_def net_counters_def)
  have "net_ok (net_baseline env m)"
    using sorted_order [OF assms] counters
    by (simp add: net_ok_def net_baseline_def zero_net_stats_def list_all_iff comp_def)
  moreover have "net_ok (net_delta env p m)" for p
    using sorted_order [OF assms] net_totals_nonneg net_interface_nonneg [OF elapsed_seconds_pos]
    by (simp add: net_ok_def net_delta_def CalculateNetStats_Interfaces list_all_iff comp_def interface_ok_def)
  ultimately show ?thesis
    by (simp add: against_def split: option.split)
qed

lemma snapshot_okI: "cpu_ok c \<Longrightarrow> mem_ok m \<Longrightarrow> disk_ok d \<Longrightarrow> net_ok n \<Longrightarrow>
  snapshot_ok \<lparr>ss_Timestamp = t, ss_CPU = c, ss_Memory = m, ss_Disk = d, ss_Network = n\<rparr>"
  by (simp add: snapshot_ok_def)

lemma snapshots_ok:
  assumes "\<forall>i \<in> set is. tick_ok i"
  shows "list_all snapshot_ok (snapshots c d n is)"
  using assms
proof (induction "is" arbitrary: c d n)
  case (Cons i "is")
  then have ok: "tick_ok i" "\<And>c d n. list_all snapshot_ok (snapshots c d n is)"
    by simp_all
  have disk: "disk_ok (case disks_of i of Inl e \<Rightarrow> zero_disk_stats
      | Inr m \<Rightarrow> against disk_baseline disk_delta (ti_disk_env i) d m)"
    using ok(1) disk_against_ok by (simp add: tick_ok_def fits_def split: sum.split)
  have net: "net_ok (case nets_of i of Inl e \<Rightarrow> zero_net_stats
      | Inr m \<Rightarrow> against net_baseline net_delta (ti_net_env i) n m)"
    using ok(1) net_against_ok by (simp add: tick_ok_def fits_def split: sum.split)
  show ?case
  proof (cases "stat_of i")
    case (Inl e)
    then show ?thesis
      using ok(2) by simp
  next
    case (Inr m)
    then have cpu: "cpu_ok (against cpu_baseline cpu_delta (ti_cpu_env i) c m)"
      using ok(1) by (simp add: cpu_against_ok tick_ok_def)
    obtain mem err where mem: "mem_Collect (ti_meminfo i) (ti_mem_now i) = (mem, err)"
      by (cases "mem_Collect (ti_meminfo i) (ti_mem_now i)")
    show ?thesis
    proof (cases err)
      case None
      then show ?thesis
        using Inr mem mem_Collect_ok [of "ti_meminfo i" "ti_mem_now i" mem] cpu disk net ok(2)
        by (simp add: snapshot_okI)
    next
      case (Some e)
      then show ?thesis
        using Inr mem ok(2) by simp
    qed
  qed
qed simp

section \<open>Properties\<close>



end
