(* ===== verification/Query_Api.thy ===== *)
theory Query_Api
  imports Http_Router Log_Query
begin

text \<open>
  Reading logs over HTTP: what a client of \<open>GET /api/v1/logs\<close> decodes from the response, from the router
  through \<open>HandleQueryLogs\<close> and \<open>QueryLogs\<close> to the text that \<open>encoding/json\<close> writes.
\<close>

section \<open>A client\<close>

text \<open>The entries in the text of a response, which may end with white space.\<close>

definition client_logs :: "string \<Rightarrow> log_entry list option" where
  "client_logs body = (case json_scan (rev (skip_ws (rev body))) of
     Some (JObject members) \<Rightarrow>
       Option.bind (map_of members ''logs'') (\<lambda>v. case v of JArray vs \<Rightarrow> decode_entries vs | _ \<Rightarrow> None)
   | _ \<Rightarrow> None)"

text \<open>The rows on the page that a filter asks for, from all rows that match it.\<close>

definition page :: "log_filter \<Rightarrow> (int \<times> log_row) list \<Rightarrow> log_entry list" where
  "page f xs = map entry_of (take (nat (query_limit (lf_Limit f))) (drop (nat (max 0 (lf_Offset f))) xs))"

section \<open>Lemmas\<close>

definition logs_json :: "log_entry list \<Rightarrow> json" where
  "logs_json es = JObject [(''count'', JNumber (show_nat (length es))),
     (''logs'', JArray (map (\<lambda>e. entry_json (render_time (utc_text e)) e) es))]"

lemma query_text:
  "response_text env (QueryResult es) =
    (if \<forall>e \<in> set es. year_ok (le_Timestamp e) then json_text (logs_json es) @ [CHR 0x0A] else [])"
  by (simp add: response_text_def encoded_response_def utc_entries_json_eq logs_json_def object_text_def)

lemma client_reads:
  assumes "\<forall>e \<in> set es. year_ok (le_Timestamp e)" "\<forall>e \<in> set es. readable_entry e"
  shows "client_logs (json_text (logs_json es) @ [CHR 0x0A]) = Some (map sorted_attributes es)"
proof -
  have ok: "\<forall>e \<in> set es. entry_text_ok (utc_text e, e)"
    using assms utc_text_ok by blast
  have "list_all literal_char ''count''" "list_all literal_char ''logs''"
    by code_simp+
  then have "json_ok 0 (logs_json es)"
    using ok by (auto simp: logs_json_def list_all_iff number_ok_show literal_chars_ok maxNestingDepth_def json_ok_entry)
  from json_scan_text [OF this]
  have scanned: "json_scan (rev (skip_ws (rev (json_text (logs_json es) @ [CHR 0x0A])))) = Some (logs_json es)"
    by (simp add: logs_json_def skip_ws_def json_space_def)
  have "decode_entries (map (\<lambda>e. entry_json (render_time (utc_text e)) e) es) = Some (map sorted_attributes es)"
    using decode_entries_json [of "map (\<lambda>e. (utc_text e, e)) es"] ok by (simp add: list_all_iff comp_def)
  then show ?thesis
    unfolding client_logs_def scanned by (simp add: logs_json_def)
qed

text \<open>From the request to the query.\<close>

lemma logs_answer:
  assumes "hr_Method r = ''GET''" "hr_Path r = ''/api/v1/logs''" "ae_query env = Some (\<lambda>f. QueryLogs drv f db)"
    and "QueryLogs drv (query_filter (query_params_of r)) db = Inr es"
  shows "answer env r s = (Some 200, response_text env (QueryResult es))"
proof -
  have "cleanPath (hr_Path r) = hr_Path r" "mux_route server_routes ''GET'' (hr_Path r) = Some ReadLogs"
    unfolding assms(2) by code_simp+
  moreover have "serve_route env ReadLogs r (s, cors_response) =
      (Completed, s, writeJSON 200 (response_text env (QueryResult es)) cors_response)"
    using assms(3,4) by (simp add: from_response_def respond_def HandleQueryLogs_def)
  ultimately show ?thesis
    using answer_route [OF assms(1)] answer_json [OF refl] by simp
qed

lemma logs_page_answer:
  assumes "answers_queries drv stored" "ae_query env = Some (\<lambda>f. QueryLogs drv f db)"
    and "hr_Method r = ''GET''" "hr_Path r = ''/api/v1/logs''"
    and "f = query_filter (query_params_of r)" "no_wildcard (lf_Search f)"
    and "sd_query drv (fst (build_query f)) (snd (build_query f)) db = Some (raw, False)"
  obtains xs where "newest_first (\<lambda>(i, row). matches f row) (stored db) xs"
    "answer env r s = (Some 200, response_text env (QueryResult (page f xs)))"
proof -
  obtain xs where xs: "newest_first (\<lambda>(i, row). matches f row) (stored db) xs" "QueryLogs drv f db = Inr (page f xs)"
    using query_returns_matches [OF assms(1,6,7)] unfolding page_def by blast
  show ?thesis
    using that [OF xs(1) logs_answer [OF assms(3,4,2)]] xs(2) assms(5) by simp
qed

lemma page_entries: "newest_first P stored xs \<Longrightarrow> set (page f xs) \<subseteq> entry_of ` set stored"
proof -
  assume "newest_first P stored xs"
  then have "set xs \<subseteq> set stored"
    by (metis filter_is_subset newest_first_def set_mset_mset)
  then show ?thesis
    by (auto simp: page_def dest!: in_set_takeD in_set_dropD)
qed

text \<open>The last millisecond that can be sent.\<close>

definition last_sendable :: int where
  "last_sendable = 253402300799999"

lemma entry_of_timestamp: "le_Timestamp (entry_of (i, row)) = lr_ts row * 1000000"
  by (simp add: entry_of_def entry_of_row_def time_UnixMilli_def)

lemma unsendable: "last_sendable < lr_ts row \<Longrightarrow> \<not> year_ok (le_Timestamp (entry_of (i, row)))"
  by (simp add: entry_of_timestamp year_ok_iff last_sendable_def Second_def)

text \<open>The first page begins with the newest row.\<close>

lemma newest_on_first_page:
  assumes "newest_first P stored xs" "x \<in> set stored" "P x" "lf_Offset f \<le> 0"
  obtains y where "entry_of y \<in> set (page f xs)" "lr_ts (snd x) \<le> lr_ts (snd y)"
proof -
  have "x \<in> set xs"
    using assms(1-3) set_mset_mset [of xs] by (auto simp: newest_first_def)
  then obtain y ys where xs: "xs = y # ys"
    by (cases xs) simp_all
  then have "lr_ts (snd x) \<le> lr_ts (snd y)"
    using assms(1) \<open>x \<in> set xs\<close> by (auto simp: newest_first_def)
  moreover have "0 < nat (query_limit (lf_Limit f))"
    by (simp add: query_limit_def)
  then have "entry_of y \<in> set (page f xs)"
    using assms(4) by (cases "nat (query_limit (lf_Limit f))") (simp_all add: page_def xs max_def)
  ultimately show ?thesis
    by (rule that [rotated])
qed

section \<open>Properties\<close>

text \<open>C11. What is stored is what a client reads: when the database answers, \<open>GET /api/v1/logs\<close> has status
  200, and if the times on the page can be sent, the text decodes to the entries of the stored rows that
  match the filter of the request (times, level, service, search text), newest first, from the offset
  on and at most the limit, each with its number, its time to the millisecond, its texts and its
  attributes; provided the search text has no wildcards of \<open>LIKE\<close> and the texts are UTF-8.\<close>

theorem stored_logs_read:
  assumes "answers_queries drv stored" "ae_query env = Some (\<lambda>f. QueryLogs drv f db)"
    and "hr_Method r = ''GET''" "hr_Path r = ''/api/v1/logs''"
    and "f = query_filter (query_params_of r)" "no_wildcard (lf_Search f)"
    and "sd_query drv (fst (build_query f)) (snd (build_query f)) db = Some (raw, False)"
    and "\<forall>x \<in> set (stored db). readable_entry (entry_of x)"
  shows "\<exists>xs body. newest_first (\<lambda>(i, row). matches f row) (stored db) xs \<and> answer env r s = (Some 200, body) \<and>
    ((\<forall>e \<in> set (page f xs). year_ok (le_Timestamp e)) \<longrightarrow> client_logs body = Some (map sorted_attributes (page f xs)))"
proof -
  obtain xs where xs: "newest_first (\<lambda>(i, row). matches f row) (stored db) xs"
    "answer env r s = (Some 200, response_text env (QueryResult (page f xs)))"
    by (rule logs_page_answer [OF assms(1-7)])
  have "\<forall>e \<in> set (page f xs). readable_entry e"
    using page_entries [OF xs(1), of f] assms(8) by blast
  then have "client_logs (response_text env (QueryResult (page f xs))) = Some (map sorted_attributes (page f xs))"
    if "\<forall>e \<in> set (page f xs). year_ok (le_Timestamp e)"
    using that client_reads by (simp add: query_text)
  with xs show ?thesis
    by blast
qed

text \<open>The database of \<open>Log_Query\<close>, asked over HTTP.\<close>

definition log_env :: "'db sql_driver \<Rightarrow> 'db \<Rightarrow> api_env" where
  "log_env drv db = (sample_net Map.empty)\<lparr>ae_query := Some (\<lambda>f. QueryLogs drv f db)\<rparr>"

definition log_request :: "string \<Rightarrow> http_request" where
  "log_request search = (sample_http ''GET'' ''/api/v1/logs'')\<lparr>hr_Query := (\<lambda>k. if k = ''search'' then search else [])\<rparr>"

lemma log_request_filter:
  "query_filter (query_params_of (log_request search)) = \<lparr>lf_StartTime = None, lf_EndTime = None, lf_Level = [],
     lf_Service = [], lf_Search = search, lf_Limit = 0, lf_Offset = 0\<rparr>"
  by (simp add: query_filter_def query_params_of_def log_request_def time_param_def int_param_def)

lemma sample_rows_fine:
  "list_all (\<lambda>x. 0 \<le> le_ID (entry_of x) \<and> le_ID (entry_of x) < 9 \<and> valid_utf8 (le_Level (entry_of x)) \<and>
     valid_utf8 (le_Service (entry_of x)) \<and> valid_utf8 (le_Message (entry_of x)) \<and> attributes_ok (le_Attributes (entry_of x)) \<and>
     0 \<le> lr_ts (snd x) \<and> lr_ts (snd x) < 10) sample_rows"
  by code_simp

theorem stored_logs_read_witness:
  "\<exists>xs body. newest_first (\<lambda>(i, row). matches sample_search row) sample_rows xs \<and>
     answer (log_env searching_driver ()) (log_request ''err'') sample_api = (Some 200, body) \<and>
     client_logs body = Some (map sorted_attributes (page sample_search xs))"
proof -
  have texts: "\<forall>x \<in> set sample_rows. readable_entry (entry_of x)"
    using sample_rows_fine by (auto simp: list_all_iff readable_entry_def)
  have sent: "\<forall>x \<in> set sample_rows. year_ok (le_Timestamp (entry_of x))"
    using sample_rows_fine by (auto simp: list_all_iff entry_of_timestamp year_ok_iff Second_def)
  have filter: "sample_search = query_filter (query_params_of (log_request ''err''))"
    by (simp add: log_request_filter sample_search_def)
  have plain: "no_wildcard (lf_Search sample_search)"
    by code_simp
  have answered: "sd_query searching_driver (fst (build_query sample_search)) (snd (build_query sample_search)) () =
      Some (map raw_of sample_found, False)"
    by (simp add: searching_driver_def)
  have "ae_query (log_env searching_driver ()) = Some (\<lambda>f. QueryLogs searching_driver f ())"
    "hr_Method (log_request ''err'') = ''GET''" "hr_Path (log_request ''err'') = ''/api/v1/logs''"
    by (simp_all add: log_env_def log_request_def sample_http_def)
  from stored_logs_read [OF searching_driver_answers this filter plain answered texts, of sample_api]
  obtain xs body where xs: "newest_first (\<lambda>(i, row). matches sample_search row) sample_rows xs"
    "answer (log_env searching_driver ()) (log_request ''err'') sample_api = (Some 200, body)"
    "(\<forall>e \<in> set (page sample_search xs). year_ok (le_Timestamp e)) \<longrightarrow>
      client_logs body = Some (map sorted_attributes (page sample_search xs))"
    by (elim exE conjE)
  have "\<forall>e \<in> set (page sample_search xs). year_ok (le_Timestamp e)"
    using page_entries [OF xs(1), of sample_search] sent by blast
  with xs show ?thesis
    by (intro exI conjI) (assumption, assumption, simp)
qed

text \<open>C12. One entry from the far future blinds every reader: once a row with a timestamp after the year 9999
  is stored (a client can write it with a zone: \<open>9999-12-31T23:59:59-01:00\<close>), every query that matches it
  and starts at the first page is answered with status 200 and an empty text, which is not JSON,
  because the row comes first and its time cannot be encoded; and pruning never removes the row before the
  year 10000, whatever the retention.\<close>

theorem far_future_blinds_readers:
  assumes "answers_queries drv stored" "ae_query env = Some (\<lambda>f. QueryLogs drv f db)"
    and "hr_Method r = ''GET''" "hr_Path r = ''/api/v1/logs''"
    and "f = query_filter (query_params_of r)" "no_wildcard (lf_Search f)"
    and "sd_query drv (fst (build_query f)) (snd (build_query f)) db = Some (raw, False)"
    and "(i, row) \<in> set (stored db)" "matches f row" "last_sendable < lr_ts row" "lf_Offset f \<le> 0"
  shows "answer env r s = (Some 200, []) \<and> client_logs [] = None \<and>
    (\<forall>now retention. year_ok now \<and> 0 \<le> retention \<longrightarrow> prune_threshold now retention \<le> lr_ts row)"
proof -
  obtain xs where xs: "newest_first (\<lambda>(i, row). matches f row) (stored db) xs"
    "answer env r s = (Some 200, response_text env (QueryResult (page f xs)))"
    by (rule logs_page_answer [OF assms(1-7)])
  obtain y where y: "entry_of y \<in> set (page f xs)" "lr_ts row \<le> lr_ts (snd y)"
    using newest_on_first_page [OF xs(1) assms(8) _ assms(11)] assms(9) by auto
  then have "\<not> year_ok (le_Timestamp (entry_of y))"
    using unsendable [of "snd y" "fst y"] assms(10) by simp
  with y(1) have "answer env r s = (Some 200, [])"
    using xs(2) by (auto simp: query_text)
  moreover have "client_logs [] = None"
    by code_simp
  moreover have "prune_threshold now retention \<le> lr_ts row" if "year_ok now" "0 \<le> retention" for now retention
  proof -
    have "now - retention \<le> 253402300799999999999"
      using that by (simp add: year_ok_iff Second_def)
    then have "prune_threshold now retention \<le> 253402300799999999999 div 1000000"
      unfolding prune_threshold_def UnixMilli_def by (rule zdiv_mono1) simp
    then show ?thesis
      using assms(10) by (simp add: last_sendable_def)
  qed
  ultimately show ?thesis
    by blast
qed

text \<open>The entry as a client sends it, what is stored for it, and a database that holds it.\<close>

definition future_text :: string where
  "future_text = json_text (JObject [(''timestamp'', JString ''9999-12-31T23:59:59-01:00''), (''message'', JString ''x'')])"

definition future_row :: log_row where
  "future_row = \<lparr>lr_ts = 253402304399000, lr_level = ''INFO'', lr_service = ''default'', lr_message = ''x'', lr_attributes = []\<rparr>"

lemma future_stored: "map_option (\<lambda>e. log_row_of 0 (complete_entry 0 e)) (unmarshal_entry future_text) = Some future_row"
  by code_simp

definition future_driver :: "unit sql_driver" where
  "future_driver = searching_driver\<lparr>sd_query := (\<lambda>query args db.
     if (query, args) = (select_text [] False, [ArgInt 100]) then Some ([raw_of (1, future_row)], False) else None)\<rparr>"

lemma future_driver_answers: "answers_queries future_driver (\<lambda>db. [(1, future_row)])"
proof -
  have "sql_answer (select_text [] False) [ArgInt 100] [(1, future_row)] [raw_of (1, future_row)]"
    unfolding sql_answer_def
  proof (intro allI impI; elim conjE)
    fix conds :: "(string \<times> sql_arg) list" and limit offset :: int
    assume "[ArgInt 100] = map snd conds @ [ArgInt limit] @ (if offset > 0 then [ArgInt offset] else [])" "0 \<le> offset"
    then have "conds = []" "limit = 100" "offset = 0"
      by (cases conds; auto split: if_splits)+
    then show "\<exists>xs. newest_first (\<lambda>(i, r). \<forall>c \<in> set conds. condition_holds c r) [(1, future_row)] xs \<and>
        [raw_of (1, future_row)] = map raw_of (take (nat limit) (drop (nat offset) xs))"
      by (intro exI [of _ "[(1, future_row)]"]) (simp add: newest_first_def)
  qed
  then show ?thesis
    by (auto simp: answers_queries_def future_driver_def split: if_splits)
qed

theorem far_future_blinds_readers_witness:
  "map_option (\<lambda>e. log_row_of 0 (complete_entry 0 e)) (unmarshal_entry future_text) = Some future_row \<and>
   answer (log_env future_driver ()) (log_request []) sample_api = (Some 200, [])"
proof -
  let ?f = "query_filter (query_params_of (log_request []))"
  have filter: "lf_Search ?f = []" "lf_Offset ?f \<le> 0" "matches ?f future_row"
    by (simp_all add: log_request_filter matches_def) code_simp
  then have plain: "no_wildcard (lf_Search ?f)"
    by (simp add: no_wildcard_def)
  have query: "build_query ?f = (select_text [] False, [ArgInt 100])"
    by (simp add: log_request_filter build_query_text query_conditions_def query_limit_def)
  have answered: "sd_query future_driver (fst (build_query ?f)) (snd (build_query ?f)) () = Some ([raw_of (1, future_row)], False)"
    by (simp add: query future_driver_def)
  have "ae_query (log_env future_driver ()) = Some (\<lambda>f. QueryLogs future_driver f ())"
    "hr_Method (log_request []) = ''GET''" "hr_Path (log_request []) = ''/api/v1/logs''"
    by (simp_all add: log_env_def log_request_def sample_http_def)
  note blinded = far_future_blinds_readers [OF future_driver_answers this refl plain answered _ filter(3) _ filter(2), of 1 sample_api]
  have "last_sendable < lr_ts future_row"
    by (simp add: last_sendable_def future_row_def)
  with blinded future_stored show ?thesis
    by simp
qed

end
