(* ===== verification/Main_Program.thy ===== *)
theory Main_Program
  imports Retention Backup New_Server
begin

text \<open>
  The program, \<open>cmd/sugi/main.go\<close>: the flags, the one-shot commands for the version, for restoring and
  for a backup, the banner, and the start of the server.  What the program prints is a value, except
  for the error stream; the arguments are parsed in \<open>Command_Line\<close>, and the process with its signals is in
  \<open>Main_Run\<close>.  The database that the server or a
  backup opens is a state of its own; a restore replaces files.
\<close>

section \<open>Flags\<close>

record flags =
  fg_port :: int
  fg_db :: string
  fg_retention :: string
  fg_interval :: go_duration
  fg_backup_dir :: string
  fg_backup_interval :: go_duration
  fg_backup_to :: string
  fg_restore_from :: string
  fg_auto_syslog :: bool
  fg_watch_logs :: string
  fg_version :: bool

definition default_flags :: flags where
  "default_flags = \<lparr>fg_port = 8080, fg_db = ''sugi.db'', fg_retention = ''7d'', fg_interval = 1 * Second,
     fg_backup_dir = ''backups'', fg_backup_interval = 0, fg_backup_to = [], fg_restore_from = [],
     fg_auto_syslog = True, fg_watch_logs = [], fg_version = False\<rparr>"

definition program_version :: string where
  "program_version = ''0.2.0''"

definition config_of_flags :: "flags \<Rightarrow> server_config" where
  "config_of_flags f = \<lparr>sc_Port = fg_port f, sc_DBPath = fg_db f, sc_Retention = parseRetention (fg_retention f),
     sc_SampleInterval = fg_interval f, sc_BackupInterval = fg_backup_interval f, sc_BackupDir = fg_backup_dir f,
     sc_Version = program_version, sc_AutoSyslog = fg_auto_syslog f, sc_WatchLogs = fg_watch_logs f\<rparr>"

section \<open>Output\<close>

definition println :: "string \<Rightarrow> string" where
  "println s = s @ [CHR 0x0A]"

definition banner :: "string \<Rightarrow> string" where
  "banner version = (let backslash = [CHR 0x5C]; tick = [CHR 0x60] in
     println [] @
     println ''  ____             _ '' @
     println '' / ___| _   _  __ _(_)'' @
     println ('' '' @ backslash @ ''___ '' @ backslash @ ''| | | |/ _'' @ tick @ '' | |'') @
     println ''  ___) | |_| | (_| | |'' @
     println ('' |____/ '' @ backslash @ ''__,_|'' @ backslash @ ''__, |_|'') @
     println (''              |___/   v'' @ version))"

definition printBanner :: "server_config \<Rightarrow> string" where
  "printBanner cfg =
     println (banner (sc_Version cfg)) @
     println ''  Zero-dependency, Ultra-lightweight Observability Engine'' @
     println (''  -> HTTP Port       : :'' @ show_int (sc_Port cfg)) @
     println (''  -> SQLite Database : '' @ sc_DBPath cfg @ '' (WAL Mode)'') @
     println (''  -> Log Retention   : '' @ duration_String (sc_Retention cfg)) @
     println (''  -> Sampling Rate   : '' @ duration_String (sc_SampleInterval cfg)) @
     (if sc_AutoSyslog cfg then println ''  -> Host Log Auto   : Active (monitoring /var/log/syslog)'' else []) @
     (if sc_WatchLogs cfg \<noteq> [] then println (''  -> Watched Logs    : '' @ sc_WatchLogs cfg) else []) @
     (if sc_BackupInterval cfg > 0
      then println (''  -> Auto Backup     : every '' @ duration_String (sc_BackupInterval cfg) @ '' to '' @ sc_BackupDir cfg)
      else []) @
     println []"

section \<open>The program\<close>

text \<open>The program exits with a status, or has a server to start, or panics.\<close>

datatype main_result = Exit int | Serve sugi_server | Crash

definition restore_command :: "flags \<Rightarrow> restore_env \<Rightarrow> file_system \<Rightarrow> main_result \<times> string \<times> file_system" where
  "restore_command f renv fs =
     (let out = println (''Restoring database from '' @ fg_restore_from f @ '' to '' @ fg_db f @ ''...'')
      in case RestoreDatabase renv (fg_restore_from f) (fg_db f) fs of
           (Some err, fs) \<Rightarrow> (Exit 1, out, fs)
         | (None, fs) \<Rightarrow> (Exit 0, out @ println ''Database restored successfully.'', fs))"

definition backup_command :: "flags \<Rightarrow> start_env \<Rightarrow> 'db backup_env \<Rightarrow> 'db \<Rightarrow> file_system \<Rightarrow>
    main_result \<times> string \<times> 'db \<times> file_system" where
  "backup_command f senv benv db fs =
     (let out = println (''Creating snapshot backup of '' @ fg_db f @ '' into '' @ fg_backup_to f @ ''...'')
      in case NewSQLiteStorage (se_opened senv) (se_statement senv) (fg_db f) of
           Inl err \<Rightarrow> (Exit 1, out, db, fs)
         | Inr (path, pool) \<Rightarrow> (case Backup benv (fg_backup_to f) db fs of
             (Some err, db, fs) \<Rightarrow> (Exit 1, out, db, fs)
           | (None, db, fs) \<Rightarrow> (Exit 0, out @ println ''Snapshot backup created successfully.'', db, fs)))"

definition serve_command :: "flags \<Rightarrow> start_env \<Rightarrow> main_result \<times> string" where
  "serve_command f senv =
     (let cfg = config_of_flags f
      in (case NewServer senv cfg of None \<Rightarrow> Crash | Some (Inl err) \<Rightarrow> Exit 1 | Some (Inr srv) \<Rightarrow> Serve srv, printBanner cfg))"

definition main_program :: "flags \<Rightarrow> restore_env \<Rightarrow> start_env \<Rightarrow> 'db backup_env \<Rightarrow> 'db \<Rightarrow> file_system \<Rightarrow>
    main_result \<times> string \<times> 'db \<times> file_system" where
  "main_program f renv senv benv db fs =
     (if fg_version f then (Exit 0, println (''Sugi Observability Engine v'' @ program_version), db, fs)
      else if fg_restore_from f \<noteq> [] then (case restore_command f renv fs of (r, out, fs) \<Rightarrow> (r, out, db, fs))
      else if fg_backup_to f \<noteq> [] then backup_command f senv benv db fs
      else (case serve_command f senv of (r, out) \<Rightarrow> (r, out, db, fs)))"

section \<open>Properties\<close>

text \<open>What exit status 0 says.\<close>

lemma restore_succeeds:
  "restore_command f renv fs = (Exit 0, out, fs') \<Longrightarrow> RestoreDatabase renv (fg_restore_from f) (fg_db f) fs = (None, fs')"
  by (auto simp: restore_command_def Let_def split: prod.splits option.splits)

lemma backup_succeeds:
  "backup_command f senv benv db fs = (Exit 0, out, db', fs') \<Longrightarrow> Backup benv (fg_backup_to f) db fs = (None, db', fs')"
  by (auto simp: backup_command_def Let_def split: prod.splits option.splits sum.splits)

lemma RestoreDatabase_frame:
  "RestoreDatabase env backup dest fs = (err, fs') \<Longrightarrow> p \<notin> {dest, dest @ ''-wal'', dest @ ''-shm''} \<Longrightarrow> fs' p = fs p"
  by (auto simp: RestoreDatabase_def Let_def remove_artifacts_result split: if_splits option.splits)

lemma backup_then_restore:
  assumes "vacuum_ok snapshot (be_exec benv)" "CHR 0x27 \<notin> set target" "Backup benv target db fs = (None, db1, fs1)"
    and "dest \<noteq> target" "RestoreDatabase renv target dest fs1 = (None, fs2)"
  shows "db1 = db \<and> fs2 dest = Some (snapshot db) \<and>
    (\<forall>p. p \<notin> {target, dest, dest @ ''-wal'', dest @ ''-shm''} \<longrightarrow> fs2 p = fs p)"
proof -
  have one: "db1 = db \<and> (\<forall>p. p \<noteq> target \<longrightarrow> fs1 p = fs p) \<and> fs1 target = Some (snapshot db)"
    using Backup_result [OF assms(1,2,3)] by simp
  then have "fs2 dest = Some (snapshot db)"
    using restore_content [OF _ assms(4,5)] by simp
  moreover have "fs2 p = fs p" if "p \<notin> {target, dest, dest @ ''-wal'', dest @ ''-shm''}" for p
    using RestoreDatabase_frame [OF assms(5), of p] one that by simp
  ultimately show ?thesis
    using one by simp
qed

text \<open>The server that is started.\<close>

lemma served_config: "0 < sc_Retention (server_defaults cfg)" "0 < sc_SampleInterval (server_defaults cfg)"
  by (simp_all add: server_defaults_def Hour_def Second_def)

lemma serve_command_cases:
  assumes "tick_ok (se_baseline senv)"
  obtains (failed) "fst (serve_command f senv) = Exit 1" "\<not> (se_opened senv \<and> (\<forall>stmt. se_statement senv stmt))"
  | (ready) s where "fst (serve_command f senv) = Serve s" "sg_cfg s = server_defaults (config_of_flags f)"
    "api_ok (server_handlers s)" "rb_contents (sp_ring (sg_sampler s)) = []"
proof (cases rule: NewServer_total [OF assms, of "config_of_flags f"])
  case (1 err)
  then show ?thesis
    by (intro failed) (simp_all add: serve_command_def Let_def)
next
  case (2 s path)
  then show ?thesis
    by (intro ready [of s]) (simp_all add: serve_command_def Let_def)
qed

text \<open>What was saved with \<open>-backup-to\<close> is what \<open>-restore-from\<close> leaves.\<close>

lemma commands:
  assumes "vacuum_ok snapshot (be_exec benv)" "CHR 0x27 \<notin> set (fg_backup_to f)" "fg_backup_to f \<noteq> []"
    and "\<not> fg_version f" "fg_restore_from f = []" "main_program f renv senv benv db fs = (Exit 0, out1, db1, fs1)"
    and "\<not> fg_version g" "fg_restore_from g = fg_backup_to f" "fg_db g \<noteq> fg_backup_to f"
    and "main_program g renv' senv' benv' db' fs1 = (Exit 0, out2, db2, fs2)"
  shows "db1 = db \<and> fs2 (fg_db g) = Some (snapshot db) \<and>
    (\<forall>p. p \<notin> {fg_backup_to f, fg_db g, fg_db g @ ''-wal'', fg_db g @ ''-shm''} \<longrightarrow> fs2 p = fs p)"
proof -
  have "Backup benv (fg_backup_to f) db fs = (None, db1, fs1)"
    using assms(3-6) by (intro backup_succeeds [of f senv]) (simp add: main_program_def)
  moreover have "RestoreDatabase renv' (fg_backup_to f) (fg_db g) fs1 = (None, fs2)"
    using assms(3,7,8,10) restore_succeeds [of g renv' fs1] by (simp add: main_program_def split: prod.splits)
  ultimately show ?thesis
    by (rule backup_then_restore [OF assms(1,2) _ assms(9)])
qed


section \<open>Witnesses\<close>

definition sample_restore :: restore_env where
  "sample_restore = \<lparr>re_readable = True, re_mkdir = True, re_removable = (\<lambda>p. True), re_create = True, re_copied = None\<rparr>"

definition sample_start_env :: start_env where
  "sample_start_env = \<lparr>se_opened = True, se_statement = (\<lambda>stmt. True), se_baseline = sample_input None 1, se_now = 2\<rparr>"

definition saving :: flags where
  "saving = default_flags\<lparr>fg_backup_to := ''b''\<rparr>"

definition restoring :: flags where
  "restoring = default_flags\<lparr>fg_restore_from := ''b''\<rparr>"

lemma sample_saving:
  "\<exists>out. main_program saving sample_restore sample_start_env (sample_env True) ''logs'' Map.empty =
     (Exit 0, out, ''logs'', [''b'' \<mapsto> ''logs''])"
proof -
  have target: "vacuum_target (backup_query ''b'') = Some (''b'', '';'')"
    by (rule vacuum_target_query) simp
  have "be_exec (sample_env True) (backup_query ''b'') ''logs'' (Map.empty(''b'' := None)) =
      (True, ''logs'', [''b'' \<mapsto> ''logs''])"
    by (simp add: sample_env_def plain_vacuum_def target)
  from Backup_cases [OF this] have "Backup (sample_env True) ''b'' ''logs'' Map.empty = (None, ''logs'', [''b'' \<mapsto> ''logs''])"
    by (simp add: sample_env_def)
  moreover obtain path pool where "NewSQLiteStorage True (\<lambda>stmt. True) ''sugi.db'' = Inr (path, pool)"
    using settings_on_one_connection [of "\<lambda>stmt. True" "''sugi.db''"] by auto
  ultimately show ?thesis
    by (simp add: main_program_def backup_command_def Let_def saving_def default_flags_def sample_start_env_def)
qed

lemma sample_restoring:
  "\<exists>out fs2. main_program restoring sample_restore sample_start_env (sample_env True) ''x'' [''b'' \<mapsto> ''logs''] =
     (Exit 0, out, ''x'', fs2)"
  by (simp add: main_program_def restore_command_def Let_def restoring_def default_flags_def RestoreDatabase_def
      sample_restore_def)


end
