(* ===== verification/Main_Run.thy ===== *)
theory Main_Run
  imports Main_Program
begin

text \<open>
  The process after the server has been made, the end of \<open>main\<close> in \<open>cmd/sugi/main.go\<close>: the goroutine that
  runs \<open>Start\<close>, the channel of signals, and the main goroutine that waits for a signal, runs \<open>Shutdown\<close>
  with a context of five seconds and returns.  It is a transition system around that of
  \<open>Server_Lifecycle\<close>; what \<open>Start\<close> does before it listens is done when the process begins.
\<close>

section \<open>The process\<close>

datatype os_signal = Interrupt | SIGTERM

text \<open>The main goroutine waits for a signal, or it has received one and is in \<open>Shutdown\<close>.\<close>

datatype main_pc = AwaitSignal | Stopping os_signal

record process =
  pr_server :: server_state
  pr_sigChan :: "os_signal go_chan"
  pr_main :: main_pc
  pr_listening :: bool
  pr_exit :: "int option"

definition new_process :: "server_state \<Rightarrow> process" where
  "new_process s = \<lparr>pr_server = s, pr_sigChan = make_chan 1, pr_main = AwaitSignal, pr_listening = True, pr_exit = None\<rparr>"

text \<open>\<open>signal.Notify\<close> does not block: a signal that does not fit into the channel is dropped.\<close>

definition deliver_signal :: "os_signal \<Rightarrow> process \<Rightarrow> process option" where
  "deliver_signal sig p = map_option (\<lambda>(sent, c). p\<lparr>pr_sigChan := c\<rparr>) (chan_try_send sig (pr_sigChan p))"

text \<open>\<open>ListenAndServe\<close> returns: with an error of its own while the server accepts requests, with
  \<open>ErrServerClosed\<close> once it has been shut down.  \<open>log.Fatalf\<close> ends the process at once.\<close>

definition start_returns :: "listen_error \<Rightarrow> process \<Rightarrow> process option" where
  "start_returns err p =
     (if pr_listening p \<and> (err = ErrServerClosed \<longleftrightarrow> \<not> listening (pr_server p))
      then Some (case start_result (Some err) of
          Some message \<Rightarrow> p\<lparr>pr_listening := False, pr_exit := Some 1\<rparr>
        | None \<Rightarrow> p\<lparr>pr_listening := False\<rparr>)
      else None)"

definition take_signal :: "process \<Rightarrow> process option" where
  "take_signal p =
     (if pr_main p \<noteq> AwaitSignal then None
      else case chan_recv (pr_sigChan p) of
          Some (Some sig, c) \<Rightarrow> Some (p\<lparr>pr_sigChan := c, pr_main := Stopping sig\<rparr>)
        | _ \<Rightarrow> None)"

text \<open>The steps of \<open>Shutdown\<close> and the end of its context come after the signal.\<close>

fun by_main :: "server_event \<Rightarrow> bool" where
  "by_main (ShutdownMove expired) = True"
| "by_main Expire = True"
| "by_main _ = False"

definition server_move :: "server_event \<Rightarrow> process \<Rightarrow> process option" where
  "server_move e p =
     (if by_main e \<and> pr_main p = AwaitSignal then None
      else map_option (\<lambda>s. p\<lparr>pr_server := s\<rparr>) (server_step e (pr_server p)))"

text \<open>\<open>main\<close> returns when \<open>Shutdown\<close> has, which ends the process with status 0.\<close>

definition main_returns :: "process \<Rightarrow> process option" where
  "main_returns p =
     (if pr_main p \<noteq> AwaitSignal \<and> sv_phase (pr_server p) = Down then Some (p\<lparr>pr_exit := Some 0\<rparr>) else None)"

datatype process_event =
    Deliver os_signal
  | ListenReturns listen_error
  | ServerMove server_event
  | TakeSignal
  | MainReturns

definition process_step :: "process_event \<Rightarrow> process \<Rightarrow> process option" where
  "process_step e p = (if pr_exit p \<noteq> None then None else case e of
     Deliver sig \<Rightarrow> deliver_signal sig p
   | ListenReturns err \<Rightarrow> start_returns err p
   | ServerMove e \<Rightarrow> server_move e p
   | TakeSignal \<Rightarrow> take_signal p
   | MainReturns \<Rightarrow> main_returns p)"

section \<open>Lemmas\<close>

lemmas process_ops = process_step_def deliver_signal_def start_returns_def take_signal_def server_move_def main_returns_def

text \<open>The cases of a step.\<close>

lemma process_stepE [consumes 1, case_names deliver listen server take_sig main]:
  assumes "process_step e p = Some p'"
  obtains (deliver) sig c sent where "e = Deliver sig" "chan_try_send sig (pr_sigChan p) = Some (sent, c)"
      "p' = p\<lparr>pr_sigChan := c\<rparr>"
  | (listen) err code where "e = ListenReturns err" "p' = p\<lparr>pr_listening := False, pr_exit := code\<rparr>"
      "code = (case err of ListenFailed m \<Rightarrow> Some 1 | ErrServerClosed \<Rightarrow> None)"
  | (server) ev s where "e = ServerMove ev" "server_step ev (pr_server p) = Some s" "p' = p\<lparr>pr_server := s\<rparr>"
      "by_main ev \<Longrightarrow> pr_main p \<noteq> AwaitSignal"
  | (take_sig) sig c where "e = TakeSignal" "pr_main p = AwaitSignal" "chan_recv (pr_sigChan p) = Some (Some sig, c)"
      "p' = p\<lparr>pr_sigChan := c, pr_main := Stopping sig\<rparr>"
  | (main) "e = MainReturns" "pr_main p \<noteq> AwaitSignal" "sv_phase (pr_server p) = Down" "p' = p\<lparr>pr_exit := Some 0\<rparr>"
proof (cases e)
  case (ListenReturns err)
  then show ?thesis
    using assms that(2) [OF ListenReturns, of "case err of ListenFailed m \<Rightarrow> Some 1 | ErrServerClosed \<Rightarrow> None"]
    by (cases err) (auto simp: process_ops start_result_def split: if_splits)
qed (use assms that in \<open>auto simp: process_ops split: if_splits option.splits\<close>)

lemma process_running: "process_step e p = Some p' \<Longrightarrow> pr_exit p = None"
  by (auto simp: process_step_def split: if_splits)

text \<open>The server of the process is one of \<open>Server_Lifecycle\<close>, and \<open>Shutdown\<close> is called only after a signal.\<close>

definition process_inv :: "process \<Rightarrow> bool" where
  "process_inv p \<longleftrightarrow> lifecycle_inv (pr_server p) \<and> (pr_main p = AwaitSignal \<longrightarrow> sv_phase (pr_server p) = Up) \<and>
     gc_cap (pr_sigChan p) = 1 \<and> \<not> gc_closed (pr_sigChan p) \<and>
     (pr_exit p = Some 0 \<longrightarrow> pr_main p \<noteq> AwaitSignal \<and> sv_phase (pr_server p) = Down)"

lemma other_keeps_up: "server_step e s = Some s' \<Longrightarrow> \<not> by_main e \<Longrightarrow> sv_phase s' = sv_phase s"
  by (cases e) (auto split: if_splits option.splits)

lemma process_inv_step:
  assumes "process_inv p" "process_step e p = Some p'"
  shows "process_inv p'"
  using assms(2)
proof (cases rule: process_stepE)
  case (deliver sig c sent)
  then show ?thesis
    using assms(1) chan_try_send_cases [OF deliver(2)] by (simp add: process_inv_def)
next
  case (listen err code)
  then show ?thesis
    using assms(1) by (cases err) (simp_all add: process_inv_def)
next
  case (server ev s)
  then show ?thesis
    using assms(1) server.step_inv [OF _ server(2)] other_keeps_up [OF server(2)] process_running [OF assms(2)]
    by (cases "by_main ev") (auto simp: process_inv_def)
next
  case (take_sig sig c)
  then show ?thesis
    using assms(1) chan_recv_cases [OF take_sig(3)] by (simp add: process_inv_def)
qed (use assms(1) in \<open>simp add: process_inv_def\<close>)

lemma chan_ok_step:
  assumes "chan_ok (pr_sigChan p) \<and> gc_cap (pr_sigChan p) = 1" "process_step e p = Some p'"
  shows "chan_ok (pr_sigChan p') \<and> gc_cap (pr_sigChan p') = 1"
  using assms(2)
proof (cases rule: process_stepE)
  case (deliver sig c sent)
  then show ?thesis
    using assms(1) chan_try_send_cases [OF deliver(2)] by simp
next
  case (take_sig sig c)
  then show ?thesis
    using assms(1) chan_recv_cases [OF take_sig(3)] by simp
qed (use assms(1) in simp_all)

interpretation process: invariant_system process_step process_inv
  by unfold_locales (rule process_inv_step)

interpretation signals: invariant_system process_step "\<lambda>p. chan_ok (pr_sigChan p) \<and> gc_cap (pr_sigChan p) = 1"
  by unfold_locales (rule chan_ok_step)

lemma process_inv_start:
  assumes "start_server cfg marshal now pid n = Some s0"
  shows "process_inv (new_process s0)"
proof -
  have "lifecycle_inv s0" "sv_phase s0 = Up"
    using lifecycle_reachable [OF assms reachable_refl] assms by (auto simp: start_server_def Let_def split: bind_splits)
  then show ?thesis
    by (simp add: process_inv_def new_process_def)
qed

text \<open>Every signal that is taken has been delivered.\<close>

definition delivered :: "os_signal set \<Rightarrow> process \<Rightarrow> bool" where
  "delivered sigs p \<longleftrightarrow> set (gc_buf (pr_sigChan p)) \<subseteq> sigs \<and> (\<forall>sig. pr_main p = Stopping sig \<longrightarrow> sig \<in> sigs)"

lemma delivered_step:
  assumes "delivered sigs p" "process_step e p = Some p'"
  shows "delivered (sigs \<union> {sig. e = Deliver sig}) p'"
  using assms(2)
proof (cases rule: process_stepE)
  case (deliver sig c sent)
  then show ?thesis
    using assms(1) chan_try_send_cases(1) [OF deliver(2)] by (auto simp: delivered_def)
next
  case (take_sig sig c)
  then show ?thesis
    using assms(1) chan_recv_cases(1) [OF take_sig(3)] by (auto simp: delivered_def)
qed (use assms(1) in \<open>auto simp: delivered_def\<close>)

lemma delivered_run:
  "delivered sigs p \<Longrightarrow> run process_step es p = Some p' \<Longrightarrow> delivered (sigs \<union> {sig. Deliver sig \<in> set es}) p'"
proof (induction es arbitrary: p sigs)
  case (Cons e es)
  then obtain p1 where p1: "process_step e p = Some p1" "run process_step es p1 = Some p'"
    by (auto split: option.splits)
  have "sigs \<union> {sig. e = Deliver sig} \<union> {sig. Deliver sig \<in> set es} = sigs \<union> {sig. Deliver sig \<in> set (e # es)}"
    by auto
  with Cons.IH [OF delivered_step [OF Cons.prems(1) p1(1)] p1(2)] show ?case
    by simp
qed simp

text \<open>A status other than 0 comes from the listener.\<close>

lemma exit_event:
  assumes "run process_step es p = Some p'" "pr_exit p = None" "pr_exit p' = Some code"
  shows "code = 0 \<or> code = 1 \<and> (\<exists>m. es \<noteq> [] \<and> last es = ListenReturns (ListenFailed m))"
  using assms
proof (induction es arbitrary: p)
  case (Cons e es)
  then obtain p1 where p1: "process_step e p = Some p1" "run process_step es p1 = Some p'"
    by (auto split: option.splits)
  show ?case
  proof (cases "pr_exit p1")
    case None
    then have "es \<noteq> []"
      using p1(2) Cons.prems(3) by auto
    with Cons.IH [OF p1(2) None Cons.prems(3)] show ?thesis
      by simp
  next
    case (Some c)
    then have "es = []"
      using p1(2) by (cases es) (auto simp: process_step_def)
    then have "p' = p1"
      using p1(2) by simp
    with p1(1) show ?thesis
      using Cons.prems(2,3) \<open>es = []\<close> by (cases rule: process_stepE) (auto split: listen_error.splits)
  qed
qed simp

section \<open>Lemmas: a signal ends the process\<close>

definition signalled :: "process \<Rightarrow> bool" where
  "signalled p \<longleftrightarrow> pr_main p \<noteq> AwaitSignal \<or> gc_buf (pr_sigChan p) \<noteq> []"

fun ending :: "process_event \<Rightarrow> bool" where
  "ending TakeSignal = True"
| "ending MainReturns = True"
| "ending (ServerMove e) = finishing e"
| "ending _ = False"

definition process_left :: "process \<Rightarrow> nat" where
  "process_left p = (if pr_main p = AwaitSignal then 1 else 0) + shutdown_left (pr_server p) + (if pr_exit p = None then 1 else 0)"

lemma signalled_step:
  assumes "signalled p" "process_step e p = Some p'"
  shows "signalled p'"
  using assms(2)
proof (cases rule: process_stepE)
  case (deliver sig c sent)
  then show ?thesis
    using assms(1) chan_try_send_cases(1) [OF deliver(2)] by (auto simp: signalled_def)
qed (use assms(1) in \<open>simp_all add: signalled_def\<close>)

lemma ending_decreases:
  assumes "process_inv p" "ending e" "process_step e p = Some p'"
  shows "process_left p' < process_left p"
  using assms(3)
proof (cases rule: process_stepE)
  case (server ev s)
  then have "shutdown_left s < shutdown_left (pr_server p)"
    using assms(1,2) finishing.progress_decreases [OF _ _ server(2)] by (simp add: process_inv_def)
  then show ?thesis
    by (simp add: server process_left_def)
next
  case main
  then show ?thesis
    using process_running [OF assms(3)] by (simp add: process_left_def)
qed (use assms(2) in \<open>simp_all add: process_left_def\<close>)

lemma ending_enabled:
  assumes "process_inv p" "signalled p" "pr_exit p = None"
  shows "\<exists>e. ending e \<and> process_step e p \<noteq> None"
proof (cases "pr_main p = AwaitSignal")
  case True
  then obtain sig sigs where "gc_buf (pr_sigChan p) = sig # sigs"
    using assms(2) by (auto simp: signalled_def neq_Nil_conv)
  then have "process_step TakeSignal p \<noteq> None"
    using True assms(3) by (simp add: process_ops chan_recv_def)
  then show ?thesis
    by (intro exI [of _ TakeSignal]) simp
next
  case False
  show ?thesis
  proof (cases "sv_phase (pr_server p) = Down")
    case True
    then have "process_step MainReturns p \<noteq> None"
      using False assms(3) by (simp add: process_ops)
    then show ?thesis
      by (intro exI [of _ MainReturns]) simp
  next
    case running: False
    obtain e s where "finishing e" "server_step e (pr_server p) = Some s"
      using finishing.progress_enabled [OF _ running] assms(1) by (auto simp: process_inv_def)
    then have "ending (ServerMove e) \<and> process_step (ServerMove e) p \<noteq> None"
      using False assms(3) by (simp add: process_ops)
    then show ?thesis
      by blast
  qed
qed

interpretation ending: progress_system process_step "\<lambda>p. process_inv p \<and> signalled p" ending process_left
  "\<lambda>p. pr_exit p \<noteq> None"
  by unfold_locales (use process_inv_step signalled_step ending_decreases ending_enabled in blast)+

section \<open>Properties\<close>


text \<open>C15. A signal ends the process: from every state in which a signal has been delivered, whatever further
  signals come (one is kept, the others are dropped), any run of the steps of the main goroutine, of
  the callers that finish, and of the end of the context has at most \<open>process_left\<close> steps and can be
  continued until the process has exited, also when handlers are stuck.\<close>

theorem signal_ends_process:
  assumes "start_server cfg marshal now pid n = Some s0" "reachable process_step (new_process s0) p" "signalled p"
  shows "(\<forall>es p'. (\<forall>e \<in> set es. ending e) \<and> run process_step es p = Some p' \<longrightarrow> length es \<le> process_left p) \<and>
    (\<exists>es p'. (\<forall>e \<in> set es. ending e) \<and> run process_step es p = Some p' \<and> pr_exit p' \<noteq> None) \<and>
    (\<forall>p'. reachable process_step p p' \<longrightarrow> signalled p' \<and> length (gc_buf (pr_sigChan p')) \<le> 1)"
proof -
  have inv: "process_inv p \<and> signalled p"
    using process.reachable_inv [OF process_inv_start [OF assms(1)] assms(2)] assms(3) by simp
  have "length es \<le> process_left p" if "\<forall>e \<in> set es. ending e" "run process_step es p = Some p'" for es p'
    using ending.progress_bounded [OF inv that] by simp
  moreover have "\<exists>es p'. (\<forall>e \<in> set es. ending e) \<and> run process_step es p = Some p' \<and> pr_exit p' \<noteq> None"
    by (rule ending.goal_reached [OF inv])
  moreover have "signalled p' \<and> length (gc_buf (pr_sigChan p')) \<le> 1" if "reachable process_step p p'" for p'
    using ending.reachable_inv [OF inv that] signals.reachable_inv [OF _ reachable_trans [OF assms(2) that]]
    by (simp add: chan_ok_def new_process_def)
  ultimately show ?thesis
    by blast
qed

text \<open>A server that cannot listen, because the port is taken, ends the process without \<open>Shutdown\<close>: what was
  accepted by then is lost.\<close>

lemma failed_listen_loses_entries:
  assumes "pr_exit p = None" "pr_listening p" "listening (pr_server p)"
  shows "\<exists>p'. process_step (ListenReturns (ListenFailed m)) p = Some p' \<and> pr_exit p' = Some 1 \<and>
    pr_server p' = pr_server p \<and> (\<forall>es p''. run process_step es p' = Some p'' \<longrightarrow> p'' = p')"
proof -
  let ?p = "p\<lparr>pr_listening := False, pr_exit := Some 1\<rparr>"
  have "process_step (ListenReturns (ListenFailed m)) p = Some ?p"
    using assms by (simp add: process_ops start_result_def)
  moreover have "p'' = ?p" if "run process_step es ?p = Some p''" for es p''
    using that by (cases es) (auto simp: process_step_def)
  ultimately show ?thesis
    by (intro exI [of _ ?p]) simp
qed

section \<open>Witnesses\<close>

text \<open>A signal, a second one that is dropped, and a graceful shutdown.\<close>

definition terminated :: "process_event list" where
  "terminated = [Deliver SIGTERM, Deliver Interrupt, TakeSignal] @ map ServerMove graceful @ [MainReturns]"

lemma sample_terminated:
  "case run process_step terminated (new_process (sample_server [])) of None \<Rightarrow> False | Some p \<Rightarrow>
     pr_exit p = Some 0 \<and> \<not> sv_expired (pr_server p) \<and>
     map le_Service (lw_accepted (sv_writer (pr_server p))) = [''sugi-core'', ''storage'', ''collector'', ''http-server'']"
  by code_simp


text \<open>A signal while a browser is connected.\<close>

definition interrupted :: "process_event list" where
  "interrupted = [ServerMove (OpenStream 0), ServerMove (HubMove (Register 0 None)), Deliver Interrupt]"

lemma sample_interrupted:
  "case run process_step interrupted (new_process (sample_server [])) of None \<Rightarrow> False | Some p \<Rightarrow>
     gc_buf (pr_sigChan p) = [Interrupt] \<and> sv_streams (pr_server p) = [0]"
  by code_simp

theorem signal_ends_process_witness:
  "\<exists>p es p'. run process_step interrupted (new_process (sample_server [])) = Some p \<and> sv_streams (pr_server p) = [0] \<and>
     run process_step es p = Some p' \<and> pr_exit p' \<noteq> None"
proof -
  obtain p where p: "run process_step interrupted (new_process (sample_server [])) = Some p"
    "gc_buf (pr_sigChan p) = [Interrupt]" "sv_streams (pr_server p) = [0]"
    using sample_interrupted by (cases "run process_step interrupted (new_process (sample_server []))") simp_all
  have "signalled p"
    by (simp add: signalled_def p(2))
  from signal_ends_process [OF sample_server_start reachableI [OF p(1)] this, THEN conjunct2, THEN conjunct1] p(1,3)
  show ?thesis
    by (elim exE conjE) (intro exI conjI)
qed

end
