(* ===== verification/Go_Flag.thy ===== *)
theory Go_Flag
  imports Retention "HOL-Library.AList"
begin

text \<open>
  What the program uses of package \<open>flag\<close>: a set of named flags of four types, and \<open>Parse\<close>, which takes
  the arguments from the left up to the first that is not a flag; with the conversions of \<open>strconv\<close>
  that set the values.  The messages and the usage text, which go to the error stream, are left out.
\<close>

section \<open>Conversions\<close>

definition ParseBool :: "string \<Rightarrow> bool option" where
  "ParseBool s =
     (if s \<in> {''1'', ''t'', ''T'', ''TRUE'', ''true'', ''True''} then Some True
      else if s \<in> {''0'', ''f'', ''F'', ''FALSE'', ''false'', ''False''} then Some False else None)"

text \<open>\<open>ParseUint(s, 0, 64)\<close>: the base is given by a prefix, and digits may be separated by underscores.\<close>

definition digit_value :: "char \<Rightarrow> nat option" where
  "digit_value c =
     (if 48 \<le> byte c \<and> byte c \<le> 57 then Some (byte c - 48)
      else let l = byte (lower_byte c) in if 97 \<le> l \<and> l \<le> 122 then Some (l - 97 + 10) else None)"

fun parse_base :: "nat \<Rightarrow> nat \<Rightarrow> string \<Rightarrow> nat option" where
  "parse_base base n [] = Some n"
| "parse_base base n (c # cs) =
     (if c = CHR ''_'' then parse_base base n cs
      else case digit_value c of
        None \<Rightarrow> None
      | Some d \<Rightarrow> if base \<le> d then None
          else let n' = n * base + d in if n' \<ge> 2 ^ 64 then None else parse_base base n' cs)"

text \<open>\<open>saw\<close> is the kind of the character before: a digit, an underscore, something else, or none yet.\<close>

fun underscore_loop :: "bool \<Rightarrow> char \<Rightarrow> string \<Rightarrow> bool" where
  "underscore_loop hex saw [] \<longleftrightarrow> saw \<noteq> CHR ''_''"
| "underscore_loop hex saw (c # cs) \<longleftrightarrow>
     (if 48 \<le> byte c \<and> byte c \<le> 57 \<or> hex \<and> 97 \<le> byte (lower_byte c) \<and> byte (lower_byte c) \<le> 102
      then underscore_loop hex (CHR ''0'') cs
      else if c = CHR ''_'' then saw = CHR ''0'' \<and> underscore_loop hex (CHR ''_'') cs
      else saw \<noteq> CHR ''_'' \<and> underscore_loop hex (CHR ''!'') cs)"

definition base_prefix :: "string \<Rightarrow> nat option" where
  "base_prefix s =
     (if length s \<ge> 2 \<and> s ! 0 = CHR ''0'' then map_of [(CHR ''b'', 2), (CHR ''o'', 8), (CHR ''x'', 16)] (lower_byte (s ! 1))
      else None)"

definition underscoreOK :: "string \<Rightarrow> bool" where
  "underscoreOK s = (case base_prefix s of
     None \<Rightarrow> underscore_loop False (CHR ''^'') s
   | Some base \<Rightarrow> underscore_loop (base = 16) (CHR ''0'') (drop 2 s))"

definition parse_uint_base0 :: "string \<Rightarrow> nat option" where
  "parse_uint_base0 s =
     (if s = [] then None
      else case (if s ! 0 \<noteq> CHR ''0'' then parse_base 10 0 s
                 else case (if length s \<ge> 3 then base_prefix s else None) of
                   Some base \<Rightarrow> parse_base base 0 (drop 2 s)
                 | None \<Rightarrow> parse_base 8 0 (tl s)) of
        None \<Rightarrow> None
      | Some n \<Rightarrow> if CHR ''_'' \<in> set s \<and> \<not> underscoreOK s then None else Some n)"

definition ParseInt_base0 :: "string \<Rightarrow> int option" where
  "ParseInt_base0 s =
     (let neg = HasPrefix s ''-'';
          digits = (if HasPrefix s ''-'' \<or> HasPrefix s ''+'' then tl s else s)
      in case parse_uint_base0 digits of
           None \<Rightarrow> None
         | Some n \<Rightarrow>
             if \<not> neg \<and> n \<ge> 2 ^ 63 \<or> neg \<and> n > 2 ^ 63 then None else Some (if neg then - int n else int n))"

section \<open>Flags\<close>

datatype flag_value =
    FlagInt int
  | FlagString string
  | FlagDuration go_duration
  | FlagBool bool

type_synonym flag_set = "(string \<times> flag_value) list"

text \<open>\<open>Value.Set\<close>: the new value has the type of the old one.\<close>

fun set_flag :: "flag_value \<Rightarrow> string \<Rightarrow> flag_value option" where
  "set_flag (FlagInt _) s = map_option FlagInt (ParseInt_base0 s)"
| "set_flag (FlagString _) s = Some (FlagString s)"
| "set_flag (FlagDuration _) s = (case ParseDuration s of Inl e \<Rightarrow> None | Inr d \<Rightarrow> Some (FlagDuration d))"
| "set_flag (FlagBool _) s = map_option FlagBool (ParseBool s)"

text \<open>The argument of a flag and the arguments after it; a boolean flag needs none.\<close>

definition flag_argument :: "flag_value \<Rightarrow> string option \<Rightarrow> string list \<Rightarrow> (string \<times> string list) option" where
  "flag_argument v given args = (case given of
     Some s \<Rightarrow> Some (s, args)
   | None \<Rightarrow> (case v of
       FlagBool b \<Rightarrow> Some (''true'', args)
     | _ \<Rightarrow> (case args of [] \<Rightarrow> None | a # args \<Rightarrow> Some (a, args))))"

definition split_value :: "string \<Rightarrow> string \<times> string option" where
  "split_value name = (case IndexByte name (CHR ''='') of
     None \<Rightarrow> (name, None)
   | Some i \<Rightarrow> (take i name, Some (drop (Suc i) name)))"

datatype flag_error = ErrHelp | BadSyntax | NotDefined | NeedsArgument | InvalidValue

text \<open>One argument, and \<open>None\<close> if it is not a flag; otherwise an error, or the name, the new value and what
  is left.\<close>

definition parse_one :: "flag_set \<Rightarrow> string \<Rightarrow> string list \<Rightarrow> (flag_error + string \<times> flag_value \<times> string list) option" where
  "parse_one fs s args =
     (if length s < 2 \<or> s ! 0 \<noteq> CHR ''-'' \<or> s = ''--'' then None
      else let name = (if s ! 1 = CHR ''-'' then drop 2 s else drop 1 s) in
        if name = [] \<or> hd name = CHR ''-'' \<or> hd name = CHR ''='' then Some (Inl BadSyntax)
        else case split_value name of (name, given) \<Rightarrow> (case map_of fs name of
            None \<Rightarrow> Some (Inl (if name = ''help'' \<or> name = ''h'' then ErrHelp else NotDefined))
          | Some v \<Rightarrow> (case flag_argument v given args of
              None \<Rightarrow> Some (Inl NeedsArgument)
            | Some (arg, rest) \<Rightarrow> (case set_flag v arg of
                None \<Rightarrow> Some (Inl InvalidValue)
              | Some v \<Rightarrow> Some (Inr (name, v, rest))))))"

lemma parse_one_shorter: "parse_one fs s args = Some (Inr (name, v, rest)) \<Longrightarrow> length rest \<le> length args"
  by (auto simp: parse_one_def flag_argument_def Let_def split: if_splits option.splits prod.splits flag_value.splits list.splits)

function parse_flags :: "flag_set \<Rightarrow> string list \<Rightarrow> flag_error + flag_set" where
  "parse_flags fs [] = Inr fs"
| "parse_flags fs (s # args) = (case parse_one fs s args of
     None \<Rightarrow> Inr fs
   | Some (Inl err) \<Rightarrow> Inl err
   | Some (Inr (name, v, rest)) \<Rightarrow> parse_flags (AList.update name v fs) rest)"
  by pat_completeness auto

termination
  by (relation "measure (\<lambda>(fs, args). length args)") (auto dest: parse_one_shorter)

section \<open>Lemmas\<close>

lemma digit_value_digit: "48 \<le> byte c \<Longrightarrow> byte c \<le> 57 \<Longrightarrow> digit_value c = Some (byte c - 48) \<and> c \<noteq> CHR ''_''"
  by (auto simp: digit_value_def)

lemma parse_base_digits: "parse_digits n s = (m, None) \<Longrightarrow> parse_base 10 n s = Some m"
proof (induction n s rule: parse_digits.induct)
  case (2 n c cs)
  then have c: "48 \<le> byte c" "byte c \<le> 57"
    by (auto split: if_splits)
  then show ?case
    using 2 digit_value_digit [OF c] by (auto simp: Let_def mult.commute split: if_splits)
qed simp

lemma ParseInt_natural:
  assumes "n \<le> 2 ^ 63" "neg \<or> n < 2 ^ 63"
  shows "ParseInt_base0 ((if neg then ''-'' else []) @ show_nat n) = Some (if neg then - int n else int n)"
proof -
  obtain c s where cs: "show_nat n = c # s"
    using show_nat_nonempty [of n] by (cases "show_nat n") auto
  then have c: "48 \<le> byte c" "byte c \<le> 57"
    using show_nat_digits [of c n] by simp_all
  have "parse_base 10 0 (show_nat n) = Some n"
    using parse_digits_show [of n] assms(1) by (intro parse_base_digits) simp
  moreover have "n = 0 \<and> s = []" if "c = CHR ''0''"
  proof -
    have "n = 0"
    proof (rule ccontr)
      assume "n \<noteq> 0"
      then have "byte (hd (show_nat n)) \<noteq> 48"
      proof (induction n rule: show_nat.induct)
        case (1 n)
        then show ?case
          by (cases "n < 10") (simp_all add: show_nat.simps [of n] byte_char_of show_nat_nonempty)
      qed
      then show False
        using that cs by simp
    qed
    moreover from this have "show_nat n = ''0''"
      by (simp only:) code_simp
    ultimately show ?thesis
      using cs by simp
  qed
  moreover have "CHR ''_'' \<notin> set (show_nat n)"
    using show_nat_digits [of "CHR ''_''" n] by auto
  ultimately have "parse_uint_base0 (show_nat n) = Some n"
    unfolding cs by (cases "c = CHR ''0''") (simp_all add: parse_uint_base0_def)
  moreover have "\<not> HasPrefix (show_nat n) ''-''" "\<not> HasPrefix (show_nat n) ''+''"
    using c by (auto simp: cs HasPrefix_def)
  ultimately show ?thesis
    using assms by (auto simp: ParseInt_base0_def Let_def HasPrefix_def)
qed

lemma ParseInt_show:
  assumes "- (2 ^ 63) \<le> n" "n < 2 ^ 63"
  shows "ParseInt_base0 (show_int n) = Some n"
proof -
  have "nat \<bar>n\<bar> \<le> 2 ^ 63" "n < 0 \<or> nat \<bar>n\<bar> < 2 ^ 63"
    using assms by auto
  from ParseInt_natural [OF this] show ?thesis
    by (cases "n < 0") (simp_all add: show_int_def)
qed

text \<open>A duration in nanoseconds.\<close>

lemma duration_loop_ns:
  assumes "n \<le> 2 ^ 63"
  shows "duration_loop (length (show_nat n @ ''ns'')) 0 (show_nat n @ ''ns'') = Inr n"
proof -
  have letters: "unit_char (CHR ''n'')" "unit_char (CHR ''s'')"
    by (simp_all add: unit_char_def is_digit_def)
  obtain c s where cs: "show_nat n = c # s" "is_digit c"
    using hd_show_digit by blast
  have "duration_number (c # s @ ''ns'') = Some (n, 0, 1, ''ns'')"
    using duration_number_show [OF assms letters(1), of "''s''"] cs by simp
  moreover have "map_of unitMap ''ns'' = Some 1" "duration_term n 0 1 1 = Some n"
    using assms by (simp_all add: unitMap_def duration_term_def)
  ultimately show ?thesis
    using assms letters cs by simp
qed

lemma ParseDuration_ns:
  assumes "- (2 ^ 63) \<le> d" "d < 2 ^ 63"
  shows "ParseDuration (show_int d @ ''ns'') = Inr d"
proof -
  have "nat \<bar>d\<bar> \<le> 2 ^ 63"
    using assms by auto
  note loop = duration_loop_ns [OF this]
  obtain c s where cs: "show_nat (nat \<bar>d\<bar>) = c # s" "is_digit c"
    using hd_show_digit by blast
  then have "c \<noteq> CHR ''-''" "c \<noteq> CHR ''+''"
    by (auto simp: is_digit_def)
  then show ?thesis
    using loop cs assms
    by (cases "d < 0") (auto simp: ParseDuration_def show_int_def Let_def HasPrefix_def int64_id simp del: duration_loop.simps)
qed

text \<open>A flag with its value in one argument.\<close>

lemma split_value_eq: "CHR ''='' \<notin> set name \<Longrightarrow> split_value (name @ CHR ''='' # s) = (name, Some s)"
  by (simp add: split_value_def IndexByte_append)

lemma parse_one_given:
  assumes "name \<noteq> []" "hd name \<noteq> CHR ''-''" "CHR ''='' \<notin> set name" "map_of fs name = Some v" "set_flag v arg = Some v'"
  shows "parse_one fs (CHR ''-'' # name @ CHR ''='' # arg) args = Some (Inr (name, v', args))"
    "parse_one fs (CHR ''-'' # CHR ''-'' # name @ CHR ''='' # arg) args = Some (Inr (name, v', args))"
proof -
  obtain c cs where name: "name = c # cs"
    using assms(1) by (cases name) auto
  then have "c \<noteq> CHR ''-''" "c \<noteq> CHR ''=''"
    using assms(2,3) by auto
  then show "parse_one fs (CHR ''-'' # name @ CHR ''='' # arg) args = Some (Inr (name, v', args))"
    "parse_one fs (CHR ''-'' # CHR ''-'' # name @ CHR ''='' # arg) args = Some (Inr (name, v', args))"
    using assms(4,5) split_value_eq [OF assms(3), of arg] name
    by (simp_all add: parse_one_def flag_argument_def Let_def)
qed

lemma parse_flags_Cons:
  "parse_one fs s args = Some (Inr (name, v, rest)) \<Longrightarrow> parse_flags fs (s # args) = parse_flags (AList.update name v fs) rest"
  by simp

end
