(* ===== verification/Command_Line.thy ===== *)
theory Command_Line
  imports Main_Program Go_Flag
begin

text \<open>
  The command line, the beginning of \<open>main\<close> in \<open>cmd/sugi/main.go\<close>: the flags with their types and
  defaults, \<open>flag.Parse\<close>, and the program as a function of its arguments.
\<close>

section \<open>The flags of the program\<close>

definition flag_defaults :: flag_set where
  "flag_defaults =
     [(''port'', FlagInt 8080), (''db'', FlagString ''sugi.db''), (''retention'', FlagString ''7d''),
      (''interval'', FlagDuration (1 * Second)), (''backup-dir'', FlagString ''backups''),
      (''backup-interval'', FlagDuration 0), (''backup-to'', FlagString []), (''restore-from'', FlagString []),
      (''auto-syslog'', FlagBool True), (''watch-logs'', FlagString []), (''version'', FlagBool False)]"

text \<open>The variables that hold the values.\<close>

definition int_flag :: "flag_set \<Rightarrow> string \<Rightarrow> int" where
  "int_flag fs name = (case map_of fs name of Some (FlagInt n) \<Rightarrow> n | _ \<Rightarrow> 0)"

definition string_flag :: "flag_set \<Rightarrow> string \<Rightarrow> string" where
  "string_flag fs name = (case map_of fs name of Some (FlagString s) \<Rightarrow> s | _ \<Rightarrow> [])"

definition duration_flag :: "flag_set \<Rightarrow> string \<Rightarrow> go_duration" where
  "duration_flag fs name = (case map_of fs name of Some (FlagDuration d) \<Rightarrow> d | _ \<Rightarrow> 0)"

definition bool_flag :: "flag_set \<Rightarrow> string \<Rightarrow> bool" where
  "bool_flag fs name = (case map_of fs name of Some (FlagBool b) \<Rightarrow> b | _ \<Rightarrow> False)"

definition flags_of :: "flag_set \<Rightarrow> flags" where
  "flags_of fs = \<lparr>fg_port = int_flag fs ''port'', fg_db = string_flag fs ''db'', fg_retention = string_flag fs ''retention'',
     fg_interval = duration_flag fs ''interval'', fg_backup_dir = string_flag fs ''backup-dir'',
     fg_backup_interval = duration_flag fs ''backup-interval'', fg_backup_to = string_flag fs ''backup-to'',
     fg_restore_from = string_flag fs ''restore-from'', fg_auto_syslog = bool_flag fs ''auto-syslog'',
     fg_watch_logs = string_flag fs ''watch-logs'', fg_version = bool_flag fs ''version''\<rparr>"

text \<open>An error ends the program with status 2, a request for help with 0.\<close>

definition command_line :: "string list \<Rightarrow> int + flags" where
  "command_line args = (case parse_flags flag_defaults args of
     Inl err \<Rightarrow> Inl (if err = ErrHelp then 0 else 2)
   | Inr fs \<Rightarrow> Inr (flags_of fs))"

definition sugi_main :: "string list \<Rightarrow> restore_env \<Rightarrow> start_env \<Rightarrow> 'db backup_env \<Rightarrow> 'db \<Rightarrow> file_system \<Rightarrow>
    main_result \<times> string \<times> 'db \<times> file_system" where
  "sugi_main args renv senv benv db fs = (case command_line args of
     Inl status \<Rightarrow> (Exit status, [], db, fs)
   | Inr f \<Rightarrow> main_program f renv senv benv db fs)"

lemma flags_of_defaults: "flags_of flag_defaults = default_flags"
  by (simp add: flags_of_def flag_defaults_def default_flags_def int_flag_def string_flag_def duration_flag_def bool_flag_def)

section \<open>Settings\<close>

text \<open>What a user can set, and how it is written.\<close>

datatype setting =
    SetPort int
  | SetDb string
  | SetRetention string
  | SetInterval go_duration
  | SetBackupDir string
  | SetBackupInterval go_duration
  | SetBackupTo string
  | SetRestoreFrom string
  | SetAutoSyslog bool
  | SetWatchLogs string
  | SetVersion bool

fun setting_flag :: "setting \<Rightarrow> string \<times> flag_value" where
  "setting_flag (SetPort n) = (''port'', FlagInt n)"
| "setting_flag (SetDb s) = (''db'', FlagString s)"
| "setting_flag (SetRetention s) = (''retention'', FlagString s)"
| "setting_flag (SetInterval d) = (''interval'', FlagDuration d)"
| "setting_flag (SetBackupDir s) = (''backup-dir'', FlagString s)"
| "setting_flag (SetBackupInterval d) = (''backup-interval'', FlagDuration d)"
| "setting_flag (SetBackupTo s) = (''backup-to'', FlagString s)"
| "setting_flag (SetRestoreFrom s) = (''restore-from'', FlagString s)"
| "setting_flag (SetAutoSyslog b) = (''auto-syslog'', FlagBool b)"
| "setting_flag (SetWatchLogs s) = (''watch-logs'', FlagString s)"
| "setting_flag (SetVersion b) = (''version'', FlagBool b)"

fun apply_setting :: "setting \<Rightarrow> flags \<Rightarrow> flags" where
  "apply_setting (SetPort n) f = f\<lparr>fg_port := n\<rparr>"
| "apply_setting (SetDb s) f = f\<lparr>fg_db := s\<rparr>"
| "apply_setting (SetRetention s) f = f\<lparr>fg_retention := s\<rparr>"
| "apply_setting (SetInterval d) f = f\<lparr>fg_interval := d\<rparr>"
| "apply_setting (SetBackupDir s) f = f\<lparr>fg_backup_dir := s\<rparr>"
| "apply_setting (SetBackupInterval d) f = f\<lparr>fg_backup_interval := d\<rparr>"
| "apply_setting (SetBackupTo s) f = f\<lparr>fg_backup_to := s\<rparr>"
| "apply_setting (SetRestoreFrom s) f = f\<lparr>fg_restore_from := s\<rparr>"
| "apply_setting (SetAutoSyslog b) f = f\<lparr>fg_auto_syslog := b\<rparr>"
| "apply_setting (SetWatchLogs s) f = f\<lparr>fg_watch_logs := s\<rparr>"
| "apply_setting (SetVersion b) f = f\<lparr>fg_version := b\<rparr>"

fun value_text :: "flag_value \<Rightarrow> string" where
  "value_text (FlagInt n) = show_int n"
| "value_text (FlagString s) = s"
| "value_text (FlagDuration d) = show_int d @ ''ns''"
| "value_text (FlagBool b) = (if b then ''true'' else ''false'')"

fun value_ok :: "flag_value \<Rightarrow> bool" where
  "value_ok (FlagInt n) = (- (2 ^ 63) \<le> n \<and> n < 2 ^ 63)"
| "value_ok (FlagDuration d) = (- (2 ^ 63) \<le> d \<and> d < 2 ^ 63)"
| "value_ok _ = True"

text \<open>With one dash or with two.\<close>

definition setting_arg :: "bool \<times> setting \<Rightarrow> string" where
  "setting_arg = (\<lambda>(double, s). (if double then ''--'' else ''-'') @ fst (setting_flag s) @ ''='' @ value_text (snd (setting_flag s)))"

definition apply_settings :: "(bool \<times> setting) list \<Rightarrow> flags \<Rightarrow> flags" where
  "apply_settings settings = fold (\<lambda>(double, s). apply_setting s) settings"

section \<open>Lemmas\<close>

fun same_type :: "flag_value \<Rightarrow> flag_value \<Rightarrow> bool" where
  "same_type (FlagInt _) (FlagInt _) = True"
| "same_type (FlagString _) (FlagString _) = True"
| "same_type (FlagDuration _) (FlagDuration _) = True"
| "same_type (FlagBool _) (FlagBool _) = True"
| "same_type _ _ = False"

lemma set_flag_text: "value_ok w \<Longrightarrow> same_type v w \<Longrightarrow> set_flag v (value_text w) = Some w"
  by (cases w; cases v) (auto simp: ParseInt_show ParseDuration_ns ParseBool_def)

text \<open>The flags keep their types, and no other flags are added.\<close>

definition flag_names :: "string list" where
  "flag_names = map fst flag_defaults"

definition typed :: "flag_set \<Rightarrow> bool" where
  "typed fs \<longleftrightarrow> (\<forall>s. \<exists>v. map_of fs (fst (setting_flag s)) = Some v \<and> same_type v (snd (setting_flag s))) \<and>
     (\<forall>name. map_of fs name \<noteq> None \<longrightarrow> name \<in> set flag_names)"

lemma setting_name:
  "fst (setting_flag s) \<noteq> []" "hd (fst (setting_flag s)) \<noteq> CHR ''-''" "CHR ''='' \<notin> set (fst (setting_flag s))"
  "fst (setting_flag s) \<in> set flag_names"
  by (cases s; simp add: flag_names_def flag_defaults_def)+

lemma typed_defaults: "typed flag_defaults"
proof -
  have "\<exists>v. map_of flag_defaults (fst (setting_flag s)) = Some v \<and> same_type v (snd (setting_flag s))" for s
    by (cases s) (simp_all add: flag_defaults_def)
  moreover have "name \<in> set flag_names" if "map_of flag_defaults name \<noteq> None" for name
    using that unfolding flag_names_def set_map by (auto dest!: map_of_SomeD intro: rev_image_eqI)
  ultimately show ?thesis
    by (simp add: typed_def)
qed

lemma same_type_trans: "same_type u v \<Longrightarrow> same_type u w \<Longrightarrow> same_type v w"
  by (cases u; cases v; cases w) simp_all

lemma same_name: "fst (setting_flag s) = fst (setting_flag s') \<Longrightarrow> same_type (snd (setting_flag s)) (snd (setting_flag s'))"
  by (cases s; cases s') simp_all

lemma typed_update:
  assumes "typed fs"
  shows "typed (AList.update (fst (setting_flag s)) (snd (setting_flag s)) fs)"
  unfolding typed_def update_conv'
proof (intro conjI allI impI)
  fix s'
  show "\<exists>v. ((map_of fs)(fst (setting_flag s) \<mapsto> snd (setting_flag s))) (fst (setting_flag s')) = Some v \<and>
      same_type v (snd (setting_flag s'))"
    using assms same_name [of s s'] by (cases "fst (setting_flag s) = fst (setting_flag s')") (auto simp: typed_def)
next
  fix name
  assume "((map_of fs)(fst (setting_flag s) \<mapsto> snd (setting_flag s))) name \<noteq> None"
  then show "name \<in> set flag_names"
    using assms setting_name(4) [of s] by (cases "name = fst (setting_flag s)") (auto simp: typed_def)
qed

lemma flags_of_update:
  "flags_of (AList.update (fst (setting_flag s)) (snd (setting_flag s)) fs) = apply_setting s (flags_of fs)"
  by (cases s) (simp_all add: flags_of_def int_flag_def string_flag_def duration_flag_def bool_flag_def update_conv')

lemma parse_setting:
  assumes "typed fs" "value_ok (snd (setting_flag s))"
  shows "parse_flags fs (setting_arg (double, s) # args) =
    parse_flags (AList.update (fst (setting_flag s)) (snd (setting_flag s)) fs) args"
proof -
  obtain v where v: "map_of fs (fst (setting_flag s)) = Some v" "same_type v (snd (setting_flag s))"
    using assms(1) by (auto simp: typed_def)
  note one = parse_one_given [OF setting_name(1-3) v(1) set_flag_text [OF assms(2) v(2)]]
  show ?thesis
    using one by (cases double) (simp_all add: setting_arg_def)
qed

lemma parse_settings:
  assumes "typed fs" "\<forall>(double, s) \<in> set settings. value_ok (snd (setting_flag s))"
  shows "\<exists>fs'. parse_flags fs (map setting_arg settings @ args) = parse_flags fs' args \<and> typed fs' \<and>
    flags_of fs' = apply_settings settings (flags_of fs)"
  using assms
proof (induction settings arbitrary: fs)
  case (Cons x settings)
  obtain double s where x: "x = (double, s)"
    by (cases x)
  let ?fs = "AList.update (fst (setting_flag s)) (snd (setting_flag s)) fs"
  obtain fs' where "parse_flags ?fs (map setting_arg settings @ args) = parse_flags fs' args" "typed fs'"
    "flags_of fs' = apply_settings settings (flags_of ?fs)"
    using Cons.IH [OF typed_update [OF Cons.prems(1), of s]] Cons.prems(2) by auto
  moreover have "parse_flags fs (map setting_arg (x # settings) @ args) = parse_flags ?fs (map setting_arg settings @ args)"
    using parse_setting [OF Cons.prems(1)] Cons.prems(2) by (simp add: x del: parse_flags.simps)
  ultimately show ?case
    by (intro exI [of _ fs']) (simp add: x apply_settings_def flags_of_update del: parse_flags.simps)
qed (auto simp: apply_settings_def)

text \<open>An argument that is not a flag ends the flags; an unknown name is an error.\<close>

definition no_flag :: "string \<Rightarrow> bool" where
  "no_flag s \<longleftrightarrow> length s < 2 \<or> s ! 0 \<noteq> CHR ''-'' \<or> s = ''--''"

lemma parse_rest: "args = [] \<or> no_flag (hd args) \<Longrightarrow> parse_flags fs args = Inr fs"
  by (cases args) (auto simp: no_flag_def parse_one_def)

lemma parse_unknown:
  assumes "typed fs" "name \<noteq> []" "hd name \<noteq> CHR ''-''" "CHR ''='' \<notin> set name" "name \<notin> set flag_names"
  shows "parse_flags fs ((CHR ''-'' # name) # args) = Inl (if name = ''help'' \<or> name = ''h'' then ErrHelp else NotDefined)"
proof -
  have "map_of fs name = None"
    using assms(1,5) by (auto simp: typed_def)
  moreover have "split_value name = (name, None)"
    using assms(4) IndexByte_None [of name "CHR ''=''"] by (simp add: split_value_def)
  moreover obtain c cs where "name = c # cs"
    using assms(2) by (cases name) auto
  ultimately show ?thesis
    using assms(3,4) by (auto simp: parse_one_def Let_def)
qed

section \<open>Properties\<close>

text \<open>C39. The command line means what it says: settings written as \<open>-name=value\<close> or \<open>--name=value\<close>, any of the
  eleven, in any order and number, with numbers and durations of 64 bits, are read as the defaults with these
  settings applied from left to right, up to the first argument that is not a flag; an unknown flag
  among them ends the program with status 2, \<open>-h\<close> and \<open>-help\<close> with status 0, before anything is printed, opened
  or changed.\<close>

theorem command_line_settings:
  assumes "\<forall>(double, s) \<in> set settings. value_ok (snd (setting_flag s))"
  shows "(rest = [] \<or> no_flag (hd rest) \<longrightarrow>
      command_line (map setting_arg settings @ rest) = Inr (apply_settings settings default_flags)) \<and>
    (name \<noteq> [] \<and> hd name \<noteq> CHR ''-'' \<and> CHR ''='' \<notin> set name \<and> name \<notin> set flag_names \<longrightarrow>
      sugi_main (map setting_arg settings @ (CHR ''-'' # name) # rest) renv senv benv db fs =
        (Exit (if name = ''help'' \<or> name = ''h'' then 0 else 2), [], db, fs))"
proof (intro conjI impI)
  assume rest: "rest = [] \<or> no_flag (hd rest)"
  obtain fs' where "parse_flags flag_defaults (map setting_arg settings @ rest) = parse_flags fs' rest"
    "flags_of fs' = apply_settings settings default_flags"
    using parse_settings [OF typed_defaults assms] unfolding flags_of_defaults by blast
  then show "command_line (map setting_arg settings @ rest) = Inr (apply_settings settings default_flags)"
    by (simp add: command_line_def parse_rest [OF rest])
next
  assume name: "name \<noteq> [] \<and> hd name \<noteq> CHR ''-'' \<and> CHR ''='' \<notin> set name \<and> name \<notin> set flag_names"
  obtain fs' where "parse_flags flag_defaults (map setting_arg settings @ (CHR ''-'' # name) # rest) =
      parse_flags fs' ((CHR ''-'' # name) # rest)" "typed fs'"
    using parse_settings [OF typed_defaults assms] by blast
  then show "sugi_main (map setting_arg settings @ (CHR ''-'' # name) # rest) renv senv benv db fs =
      (Exit (if name = ''help'' \<or> name = ''h'' then 0 else 2), [], db, fs)"
    using parse_unknown [of fs' name rest] name by (simp add: sugi_main_def command_line_def del: parse_flags.simps)
qed

theorem command_line_settings_witness:
  "command_line [''--port=9090'', ''-interval=500000000ns'', ''-auto-syslog=false'', ''-port=-1'', ''logs''] =
    Inr (default_flags\<lparr>fg_port := -1, fg_interval := 500000000, fg_auto_syslog := False\<rparr>)"
proof -
  let ?settings = "[(True, SetPort 9090), (False, SetInterval 500000000), (False, SetAutoSyslog False), (False, SetPort (-1))]"
  have args: "map setting_arg ?settings @ [''logs''] =
      [''--port=9090'', ''-interval=500000000ns'', ''-auto-syslog=false'', ''-port=-1'', ''logs'']"
    by code_simp
  have "\<forall>(double, s) \<in> set ?settings. value_ok (snd (setting_flag s))"
    by simp
  from command_line_settings [OF this, of "[''logs'']", THEN conjunct1] show ?thesis
    unfolding args by (simp add: no_flag_def apply_settings_def)
qed

text \<open>Other ways to write the same, and what is rejected.\<close>

lemma command_line_examples:
  "command_line [''-port'', ''0x1F90'', ''-auto-syslog'', ''-db'', ''x''] = Inr (default_flags\<lparr>fg_port := 8080, fg_db := ''x''\<rparr>)"
  "command_line [''-port'', ''1_000''] = Inr (default_flags\<lparr>fg_port := 1000\<rparr>)"
  "command_line [''-port=8O80''] = Inl 2" "command_line [''-db''] = Inl 2" "command_line [''-interval'', ''5''] = Inl 2"
  "command_line [''-auto-syslog'', ''false'', ''-port=1''] = Inr default_flags"
  by code_simp+

end
