(* ===== verification/Spec2Isabelle.thy ===== *)
theory Spec2Isabelle
  imports Ring_Buffer Cpu_Collector Mem_Collector Disk_Collector Net_Collector Log_Writer Sse_Hub
    Sqlite_Storage Sqlite_Open Log_Query Retention Log_Harvester Backup Api_Handler Http_Router Server
    Server_Lifecycle New_Server Proc_FS Snapshot_Types Query_Api Main_Program Main_Run
    Command_Line
begin

text \<open>
  A verification development for Sugi, a single-binary observability engine written in Go.

  \<^bold>\<open>The program.\<close>  A sampling loop (\<open>internal/server/server.go\<close>) asks four collectors
  (\<open>internal/collector\<close>) for CPU, memory, disk and network statistics read from \<open>/proc\<close>, pushes the
  snapshot into a ring buffer (\<open>internal/storage/ringbuffer.go\<close>) and broadcasts it to the browsers
  that are connected by server-sent events (\<open>internal/api/sse.go\<close>).  Log entries arrive over HTTP
  (\<open>internal/api/handler.go\<close>, behind the middleware of \<open>middleware.go\<close>) or from the host's log files
  (\<open>internal/collector/log_harvester.go\<close>); they go through an asynchronous writer
  (\<open>internal/storage/log_writer.go\<close>) that commits them in batches to SQLite
  (\<open>internal/storage/sqlite.go\<close>) and prunes old ones.  Backups are taken by a loop or by a command
  (\<open>internal/storage/backup.go\<close>, \<open>cmd/sugi/main.go\<close>).

  \<^bold>\<open>The theories: what the program uses of the language and its library.\<close>

  \<^item> \<open>Sugi_Prelude\<close>: integer remainder, indexing, slicing and copying as Go does them (a panic is
    \<open>None\<close>); lemmas on the last elements of a list.
  \<^item> \<open>Go_Strings\<close>, \<open>Go_Float\<close>, \<open>Go_Time\<close>, \<open>Go_Path\<close>: byte strings with \<open>Fields\<close>, \<open>TrimSpace\<close>, \<open>Atoi\<close>,
    \<open>ParseUint\<close> and the line scanner with its 64 KiB limit; \<open>float64\<close> as the rationals with rounding
    to 53 bits after every operation; times and durations in nanoseconds, civil dates and the
    layouts of \<open>time.Parse\<close>; \<open>filepath.Join\<close> and the path cleaning of \<open>net/http\<close>.
  \<^item> \<open>Time_Format\<close>: times as text, by \<open>MarshalJSON\<close> in UTC and by the layout of the names of backups, with
    the civil date of a day; what is written is parsed to the same time.  \<open>Go_Flag\<close>: package \<open>flag\<close>.
  \<^item> \<open>Go_Json\<close>: the strings of \<open>encoding/json\<close> with UTF-8 and escapes, its scanner, and the text of a
    value; what is encoded is scanned and unquoted to the same value.
  \<^item> \<open>Go_Concurrency\<close>: buffered channels; transition systems whose invariants and progress are proved
    once, in the locales \<open>invariant_system\<close> and \<open>progress_system\<close>.

  \<^bold>\<open>The theories: metrics.\<close>

  \<^item> \<open>Metrics_Model\<close>: the structures of \<open>internal/model\<close>.  A Go map is an association list with
    distinct keys; a function that iterates over a map takes the iteration order as an argument.
  \<^item> \<open>Percent\<close>, \<open>Rates\<close>: \<open>roundFloat\<close> and \<open>clampPercentage\<close> of \<open>cpu.go\<close>, the rate of a counter, and
    error bounds for both; \<open>Delta_Collector\<close>: the locale for a collector that compares each
    successful call with the last one before it, with the lemma on whole sequences of calls.
  \<^item> \<open>Cpu_Collector\<close>, \<open>Mem_Collector\<close>, \<open>Disk_Collector\<close>, \<open>Net_Collector\<close>: for each source file its
    parser, its arithmetic and its \<open>Collect\<close>; the three stateful ones interpret \<open>delta_collector\<close>.
    \<open>Proc_FS\<close>: which files they open (\<open>reader.go\<close>).
  \<^item> \<open>Ring_Buffer\<close>: \<open>NewRingBuffer\<close>, \<open>Push\<close>, \<open>GetLatest\<close>, \<open>GetAll\<close>, \<open>GetLastN\<close>, \<open>Size\<close>, \<open>Capacity\<close>,
    \<open>Clear\<close>, refined to a bounded history.
  \<^item> \<open>Snapshot_Types\<close>: what the readers of a snapshot rely on, for every snapshot that is stored.

  \<^bold>\<open>The theories: logs.\<close>

  \<^item> \<open>Json_Logs\<close>: log entries and their attributes to and from JSON, by the tags of
    \<open>internal/model/log.go\<close>.
  \<^item> \<open>Log_Writer\<close>: the writer as a transition system over the callers of \<open>Enqueue\<close>, the batch worker,
    the prune worker and \<open>Close\<close>.
  \<^item> \<open>Sqlite_Storage\<close>: the rows, the transaction of \<open>WriteBatch\<close>, the query of \<open>QueryLogs\<close>, the
    pruning; \<open>Sqlite_Open\<close>: opening, schema and settings over the connection pool, counting,
    closing; \<open>Log_Query\<close>: the meaning of the statements and what \<open>QueryLogs\<close> returns; \<open>Query_Api\<close>: from
    the stored rows to the text of the HTTP response that a client reads back.
  \<^item> \<open>Syslog_Parser\<close>, \<open>Log_Harvester\<close>: \<open>ParseSyslogLine\<close>, the choice of files, the last lines of a
    file, and the tailing loop as a transition system with the writers of the file and the clock.
  \<^item> \<open>Backup\<close>: \<open>Backup\<close>, \<open>RestoreDatabase\<close> and the loop of scheduled backups over a file system.

  \<^bold>\<open>The theories: HTTP, server, program.\<close>

  \<^item> \<open>Sse_Hub\<close>: the hub, the broadcasting callers and one handler per client as a transition system;
    and the text of the event stream.
  \<^item> \<open>Api_Handler\<close>: every handler of \<open>handler.go\<close> as a function from what it reads of the request to
    a response; \<open>Http_Middleware\<close>: requests, response writers, and the middleware as functions on
    handlers that return or panic, with the locale \<open>writer_promise\<close> for what a response keeps;
    \<open>Http_Router\<close>: the routes, the text of each response, the handler of \<open>internal/ui/embed.go\<close>, and
    the chain from a request to its response.
  \<^item> \<open>Server\<close>: configuration, sampling loop, callback for log entries; \<open>Server_Lifecycle\<close>: the
    entries of the start, and \<open>Shutdown\<close> composed with the writer, the hub, the tailers and the open
    requests; \<open>New_Server\<close>: how \<open>NewServer\<close> and \<open>Start\<close> put the components together.
  \<^item> \<open>Retention\<close>, \<open>Main_Program\<close>: \<open>parseRetention\<close> with \<open>time.ParseDuration\<close>; flags, commands,
    banner.  \<open>Command_Line\<close>: the flags that \<open>main\<close> declares and how the arguments of the process set them.
    \<open>Main_Run\<close>: the process from \<open>Start\<close> to its exit status, with the listening goroutine and signals.

  \<^bold>\<open>How the models correspond to the code.\<close>  A definition has the name of the function it models, or
  a name that says which part of it (one iteration, one branch of a \<open>select\<close>); methods on state
  return the new state.  Counters are 64-bit words with wrap-around.  Errors are values of a sum or
  an option.  The clock, the contents of files, the iteration order of maps and the outcome of calls
  of the operating system and the database driver are inputs, so that the theorems hold for all of
  them.  What runs under a mutex is one step; concurrent components are transition systems in which
  any goroutine may move.

  \<^bold>\<open>What is shown.\<close>  Parsers give back what the kernel and \<open>rsyslog\<close> print, and what a client
  encodes as JSON (round trips).  Percentages and rates are within half a printed digit of the exact
  quotient, plus an explicit bound for the rounding of floating-point numbers.  Collectors recover
  from failures without a trace, and every stored snapshot is well typed.  The ring buffer holds
  exactly the most recent snapshots, no operation panics, and the API serves what it holds.  The
  writer neither loses, duplicates nor reorders accepted entries up to the storage, and its shutdown
  terminates and flushes.  The hub never sends on a closed channel, and its clients receive messages
  in order.  Every request is answered, and stored logs are read back over
  HTTP as they were written.  Batches are atomic, queries are parameterised and return
  what they ask for, pruning respects the retention, and what is backed up can be restored.  Lines
  appended to a file are harvested in order and, when the writers pause, all of them.  The program
  starts a server that is ready, and \<open>Shutdown\<close> returns and, unless its context expires, has lost
  nothing; a signal ends the process, and the exit status says how it ended.  Settings written on the
  command line are read as they were meant.  Where the code does not do what it means to do, a theorem says what happens instead:
  disks named with two letters, an entry accepted during \<open>Close\<close> and lost, handlers stranded after
  the hub has stopped so that a connected browser makes \<open>Shutdown\<close> give up and close the database
  under the writer, an entry of the year 9999 that empties every answer it is part of, entries lost
  when listening fails, lines written in two pieces, a restore that fails half way, and the overflow of
  long retentions.

  \<^bold>\<open>Bounds and fuel.\<close>  The loop of \<open>ParseDuration\<close> has the length of its input as fuel;
  \<open>duration_loop_fuel\<close> shows that more fuel changes nothing; that of the JSON scanner is twice the
  length and one more, enough by \<open>scan_fuel\<close>.  All other loops are structural.  \<open>f64\<close> has no
  infinities and no NaN: sums and products of the program stay below \<open>2 ^ 128\<close>, and every division
  whose divisor could be 0 is guarded, with the one exception named in \<open>Mem_Collector\<close>.

  \<^bold>\<open>Not modelled.\<close>  The SQLite driver is third-party code and a parameter, with what is relied on as
  hypotheses (\<open>transactional\<close>, \<open>answers_queries\<close>, \<open>vacuum_ok\<close>).  The JSON text of a snapshot, which needs the shortest decimal form
  of a \<open>float64\<close>, is a parameter, and so are that of an entry sent to the event stream, in the zone it was
  written in, and the messages of the decoder.  The listener of \<open>net/http\<close> is seen through the
  requests it has open and through \<open>Start\<close> returning an error or not; its file server and its
  redirection to a clean path are parameters (\<open>net_http_ok\<close>).  \<open>ToUpper\<close> and \<open>ToLower\<close> are exact for ASCII and for
  comparisons with ASCII text.  What \<open>Start\<close> does before it listens is taken as done when the process of
  \<open>Main_Run\<close> begins.  Left out are messages written by package \<open>log\<close> and to the error stream, the assets of
  the user interface, the website and the build files.
\<close>

end
